(* ===== verification/Prelude.thy ===== *)
theory Prelude
  imports Main "HOL-Library.Word"
begin

text \<open>
  Shared vocabulary of the development: the C data the source works on and the generic lemmas the
  component theories use.  A C string is the list of its bytes before the terminating NUL, a
  pointer that may be NULL is an option, a C \<open>int\<close> is an \<open>int\<close> with the two's complement
  reduction \<open>s32\<close> written out where a computation can leave the range, and a flag word is a
  \<open>32 word\<close>.  Character classes are those of the C and UTF-8 locales, in which no byte above 0x7e
  is printable on its own.
\<close>

unbundle bit_operations_syntax

named_theorems cchar_simps \<open>unfolding rules for C character classes\<close>
named_theorems flag_simps \<open>values of the flag constants\<close>

type_synonym cstring = string
type_synonym flags32 = "32 word"

section \<open>Characters\<close>

abbreviation byte :: "char \<Rightarrow> nat" where
  "byte c \<equiv> of_char c"

definition schar :: "char \<Rightarrow> int" where
  "schar c = (if byte c < 128 then int (byte c) else int (byte c) - 256)"

definition uint_of_char :: "char \<Rightarrow> nat" where
  "uint_of_char c = (if byte c < 128 then byte c else byte c + 4294967040)"

definition isprint_c :: "char \<Rightarrow> bool" where
  "isprint_c c \<longleftrightarrow> 32 \<le> byte c \<and> byte c \<le> 126"

definition isdigit_c :: "char \<Rightarrow> bool" where
  "isdigit_c c \<longleftrightarrow> 48 \<le> byte c \<and> byte c \<le> 57"

definition isupper_c :: "char \<Rightarrow> bool" where
  "isupper_c c \<longleftrightarrow> 65 \<le> byte c \<and> byte c \<le> 90"

definition islower_c :: "char \<Rightarrow> bool" where
  "islower_c c \<longleftrightarrow> 97 \<le> byte c \<and> byte c \<le> 122"

definition tolower_c :: "char \<Rightarrow> char" where
  "tolower_c c = (if isupper_c c then char_of (byte c + 32) else c)"

definition toupper_c :: "char \<Rightarrow> char" where
  "toupper_c c = (if islower_c c then char_of (byte c - 32) else c)"

abbreviation nl :: char where
  "nl \<equiv> CHR 0x0A"

abbreviation bsl :: char where
  "bsl \<equiv> CHR 0x5C"

abbreviation dquote :: char where
  "dquote \<equiv> CHR 0x22"

definition digit_val :: "char \<Rightarrow> int" where
  "digit_val c = int (byte c) - 48"

lemmas [cchar_simps] = isprint_c_def isdigit_c_def isupper_c_def islower_c_def

lemma byte_le: "byte c \<le> 255"
proof -
  have "byte c < 256" by simp
  then show ?thesis by linarith
qed

lemma byte_char_of [simp]: "n < 256 \<Longrightarrow> byte (char_of n) = n"
  by simp

lemma byte_eq_iff: "byte c = byte d \<longleftrightarrow> c = d"
  by (metis char_of_char)

lemma isdigit_val: "isdigit_c c \<Longrightarrow> 0 \<le> digit_val c \<and> digit_val c \<le> 9"
  by (simp add: isdigit_c_def digit_val_def)

section \<open>Strings\<close>

definition strcasecmp_eq :: "cstring \<Rightarrow> cstring \<Rightarrow> bool" where
  "strcasecmp_eq s t \<longleftrightarrow> map tolower_c s = map tolower_c t"

definition cstr_ok :: "cstring \<Rightarrow> bool" where
  "cstr_ok s \<longleftrightarrow> list_all (\<lambda>c. byte c \<noteq> 0) s"

lemma cstr_ok_simps [simp]:
  "cstr_ok []"
  "cstr_ok (c # s) \<longleftrightarrow> byte c \<noteq> 0 \<and> cstr_ok s"
  "cstr_ok (s @ t) \<longleftrightarrow> cstr_ok s \<and> cstr_ok t"
  by (auto simp: cstr_ok_def)

lemma strcasecmp_eq_refl [simp]: "strcasecmp_eq s s"
  by (simp add: strcasecmp_eq_def)

lemma strcasecmp_eq_sym: "strcasecmp_eq s t \<longleftrightarrow> strcasecmp_eq t s"
  by (auto simp: strcasecmp_eq_def)

lemma strcasecmp_eq_trans: "strcasecmp_eq s t \<Longrightarrow> strcasecmp_eq t u \<Longrightarrow> strcasecmp_eq s u"
  by (simp add: strcasecmp_eq_def)

lemma strcasecmp_eq_chars: "strcasecmp_eq a b \<Longrightarrow> tolower_c c = c \<Longrightarrow> c \<in> set a \<Longrightarrow> c \<in> tolower_c ` set b"
  by (auto simp: strcasecmp_eq_def) (metis image_eqI list.set_map)

lemma tolower_idem [simp]: "tolower_c (tolower_c c) = tolower_c c"
  by (simp add: tolower_c_def isupper_c_def)

lemma strcasecmp_lower [simp]: "strcasecmp_eq (map tolower_c s) t \<longleftrightarrow> strcasecmp_eq s t"
  by (simp add: strcasecmp_eq_def comp_def)

lemma takeWhile_sep:
  "list_all P xs \<Longrightarrow> (ys \<noteq> [] \<Longrightarrow> \<not> P (hd ys)) \<Longrightarrow> takeWhile P (xs @ ys) = xs"
  by (induction xs) (cases ys; simp)+

lemma dropWhile_sep:
  "list_all P xs \<Longrightarrow> (ys \<noteq> [] \<Longrightarrow> \<not> P (hd ys)) \<Longrightarrow> dropWhile P (xs @ ys) = ys"
  by (induction xs) (cases ys; simp)+

lemma split_at_char:
  "xb = body @ [c] @ xm \<and> c \<notin> set body \<longleftrightarrow>
    body = takeWhile (\<lambda>d. d \<noteq> c) xb \<and> dropWhile (\<lambda>d. d \<noteq> c) xb = c # xm"
proof
  assume *: "xb = body @ [c] @ xm \<and> c \<notin> set body"
  then have "list_all (\<lambda>d. d \<noteq> c) body" by (auto simp: list_all_iff)
  from takeWhile_sep [OF this, of "c # xm"] dropWhile_sep [OF this, of "c # xm"] *
  show "body = takeWhile (\<lambda>d. d \<noteq> c) xb \<and> dropWhile (\<lambda>d. d \<noteq> c) xb = c # xm" by simp
next
  assume *: "body = takeWhile (\<lambda>d. d \<noteq> c) xb \<and> dropWhile (\<lambda>d. d \<noteq> c) xb = c # xm"
  then have "c \<notin> set body" by (auto dest: set_takeWhileD)
  then show "xb = body @ [c] @ xm \<and> c \<notin> set body"
    using * takeWhile_dropWhile_id [of "\<lambda>d. d \<noteq> c" xb] by simp
qed

lemma dropWhile_neq_head: "dropWhile (\<lambda>d. d \<noteq> c) xb = d # xm \<Longrightarrow> d = c"
  by (metis (mono_tags, lifting) dropWhile_eq_Cons_conv)

section \<open>Machine integers\<close>

definition s32 :: "int \<Rightarrow> int" where
  "s32 x = (x + 2147483648) mod 4294967296 - 2147483648"

definition in_s32 :: "int \<Rightarrow> bool" where
  "in_s32 x \<longleftrightarrow> - 2147483648 \<le> x \<and> x < 2147483648"

lemma s32_id [simp]: "in_s32 x \<Longrightarrow> s32 x = x"
  by (simp add: s32_def in_s32_def)

lemma s32_range [simp]: "in_s32 (s32 x)"
  unfolding in_s32_def s32_def
  using pos_mod_bound [of 4294967296 "x + 2147483648"] pos_mod_sign [of 4294967296 "x + 2147483648"]
  by linarith

lemma s32_idem [simp]: "s32 (s32 x) = s32 x"
  by (rule s32_id) simp

lemma s32_overflow:
  assumes "2147483648 \<le> x" and "x < 4294967296 + 2147483648"
  shows "s32 x = x - 4294967296"
proof -
  have "(x + 2147483648) mod 4294967296 = (x + 2147483648 - 4294967296) mod 4294967296"
    by (rule minus_mod_self2 [symmetric])
  also have "\<dots> = x + 2147483648 - 4294967296"
    using assms by (intro mod_pos_pos_trivial) auto
  finally show ?thesis by (simp add: s32_def)
qed

end
