(* ===== verification/Safe_Strings.thy ===== *)
theory Safe_Strings
  imports Prelude
begin

text \<open>
  The string services of \<open>lib/misc.c\<close>: the safe printing family \<open>safepup\<close>, \<open>safestrlen\<close>,
  \<open>safestrprt\<close> and \<open>safestrprtn\<close>, the copying helpers \<open>mkstrcpy\<close> and \<open>mkstrcat\<close>, the name hash
  \<open>hashbyname\<close>, the device number reader \<open>x2dev\<close> and the capacity arithmetic of \<open>grow_array\<close>.
  A routine that writes to a stream returns the bytes it writes.
\<close>

section \<open>Printable forms\<close>

definition hex_digit :: "nat \<Rightarrow> char" where
  "hex_digit n = (if n < 10 then char_of (48 + n) else char_of (87 + n))"

definition hex2 :: "nat \<Rightarrow> string" where
  "hex2 n = [hex_digit (n div 16 mod 16), hex_digit (n mod 16)]"

definition safepup :: "nat \<Rightarrow> string \<times> nat" where
  "safepup c =
    (if c < 32 then
       (if c = 8 then [bsl, CHR ''b'']
        else if c = 12 then [bsl, CHR ''f'']
        else if c = 10 then [bsl, CHR ''n'']
        else if c = 13 then [bsl, CHR ''r'']
        else if c = 9 then [bsl, CHR ''t'']
        else [CHR ''^'', char_of (c + 64)], 2)
     else if c = 255 then (''^?'', 2)
     else if c = 92 then ([bsl, bsl], 2)
     else ([bsl, CHR ''x''] @ hex2 (c mod 256), 4))"

text \<open>
  \<open>safestrlen\<close>: the comparison \<open>*sp < 0x20\<close> is on the signed character.
\<close>

definition safe_stop :: "flags32 \<Rightarrow> char" where
  "safe_stop flags = (if flags AND 2 \<noteq> 0 then CHR '' '' else CHR 0x00)"

fun safestrlen_loop :: "char \<Rightarrow> cstring \<Rightarrow> nat" where
  "safestrlen_loop c [] = 0"
| "safestrlen_loop c (x # sp) =
    (if \<not> isprint_c x \<or> x = bsl \<or> x = c then
       (if schar x < 32 \<or> byte x = 255 \<or> x = bsl then 2 else 4)
     else 1) + safestrlen_loop c sp"

definition safestrlen :: "cstring option \<Rightarrow> flags32 \<Rightarrow> nat" where
  "safestrlen sp flags =
    (case sp of None \<Rightarrow> 0 | Some s \<Rightarrow> safestrlen_loop (safe_stop flags) s)"

text \<open>
  The locale as \<open>safestrprt\<close> sees it: \<open>MB_CUR_MAX\<close>, the result of \<open>mblen\<close> at a position, and
  whether \<open>mbtowc\<close> decodes that many bytes to a printable wide character.
\<close>

record wlocale =
  mb_cur_max :: nat
  mblen :: "cstring \<Rightarrow> int"
  wprint :: "cstring \<Rightarrow> bool"

definition c_locale :: wlocale where
  "c_locale = \<lparr> mb_cur_max = 1, mblen = (\<lambda>_. 1), wprint = (\<lambda>_. False) \<rparr>"

definition mb_lnc :: "wlocale \<Rightarrow> cstring \<Rightarrow> nat" where
  "mb_lnc L sp = (if 1 < mb_cur_max L \<and> 1 < mblen L sp then nat (mblen L sp) else 1)"

function safestrprt_loop :: "wlocale \<Rightarrow> flags32 \<Rightarrow> cstring \<Rightarrow> string" where
  "safestrprt_loop L flags sp =
    (if sp = [] then []
     else let lnc = mb_lnc L sp in
       if 1 < lnc then
         (if wprint L sp then take lnc sp
          else concat (map (\<lambda>x. fst (safepup (uint_of_char x))) (take lnc sp)))
         @ safestrprt_loop L flags (drop lnc sp)
       else if hd sp \<noteq> bsl \<and> isprint_c (hd sp) \<and> hd sp \<noteq> safe_stop flags then
         hd sp # safestrprt_loop L flags (tl sp)
       else if flags AND 8 \<noteq> 0 \<and> hd sp = nl \<and> tl sp = [] then []
       else fst (safepup (uint_of_char (hd sp))) @ safestrprt_loop L flags (tl sp))"
  by pat_completeness auto
termination
  by (relation "measure (\<lambda>(L, flags, sp). length sp)") (auto simp: mb_lnc_def)

declare safestrprt_loop.simps [simp del]

definition safestrprt :: "wlocale \<Rightarrow> cstring option \<Rightarrow> flags32 \<Rightarrow> string" where
  "safestrprt L sp flags =
    (if flags AND 4 \<noteq> 0 then [dquote] else [])
    @ (case sp of None \<Rightarrow> [] | Some s \<Rightarrow> safestrprt_loop L flags s)
    @ (if flags AND 4 \<noteq> 0 then [dquote] else [])
    @ (if flags AND 1 \<noteq> 0 then [nl] else [])"

text \<open>
  \<open>safestrprtn\<close>: the loop returns what it printed and the column counter \<open>i\<close> it stopped at.
\<close>

fun safestrprtn_loop :: "flags32 \<Rightarrow> int \<Rightarrow> int \<Rightarrow> cstring \<Rightarrow> string \<times> int" where
  "safestrprtn_loop flags len i [] = ([], i)"
| "safestrprtn_loop flags len i (x # sp) =
    (if \<not> i < len then ([], i)
     else if x \<noteq> bsl \<and> isprint_c x \<and> x \<noteq> safe_stop flags then
       (let (out, j) = safestrprtn_loop flags len (i + 1) sp in (x # out, j))
     else if flags AND 8 \<noteq> 0 \<and> x = nl \<and> sp = [] then ([], i)
     else let (up, cl) = safepup (uint_of_char x) in
       if len < i + int cl then ([], i)
       else (let (out, j) = safestrprtn_loop flags len (i + int cl) sp in (up @ out, j)))"

definition safestrprtn :: "cstring option \<Rightarrow> int \<Rightarrow> flags32 \<Rightarrow> string" where
  "safestrprtn sp len flags =
    (let (out, i) = (case sp of None \<Rightarrow> ([], 0) | Some s \<Rightarrow> safestrprtn_loop flags len 0 s) in
      (if flags AND 4 \<noteq> 0 then [dquote] else [])
      @ out @ replicate (nat (len - i)) (CHR '' '')
      @ (if flags AND 4 \<noteq> 0 then [dquote] else [])
      @ (if flags AND 1 \<noteq> 0 then [nl] else []))"

section \<open>Copies, hashing, device numbers and capacities\<close>

definition mkstrcpy :: "cstring option \<Rightarrow> cstring \<times> nat" where
  "mkstrcpy src = (case src of None \<Rightarrow> ([], 0) | Some s \<Rightarrow> (s, length s))"

definition strncpy_buf :: "cstring \<Rightarrow> nat \<Rightarrow> string" where
  "strncpy_buf s n = take n s @ replicate (n - length s) (CHR 0x00)"

definition mkstrcat_len :: "cstring option \<Rightarrow> int \<Rightarrow> nat" where
  "mkstrcat_len s l =
    (case s of None \<Rightarrow> 0 | Some t \<Rightarrow> if 0 \<le> l then nat l else length t)"

definition mkstrcat_part :: "cstring option \<Rightarrow> nat \<Rightarrow> string" where
  "mkstrcat_part s n = (case s of None \<Rightarrow> [] | Some t \<Rightarrow> if n = 0 then [] else strncpy_buf t n)"

definition mkstrcat ::
  "cstring option \<Rightarrow> int \<Rightarrow> cstring option \<Rightarrow> int \<Rightarrow> cstring option \<Rightarrow> int \<Rightarrow> string \<times> nat" where
  "mkstrcat s1 l1 s2 l2 s3 l3 =
    (let len1 = mkstrcat_len s1 l1; len2 = mkstrcat_len s2 l2; len3 = mkstrcat_len s3 l3 in
      (mkstrcat_part s1 len1 @ mkstrcat_part s2 len2 @ mkstrcat_part s3 len3,
       len1 + len2 + len3))"

fun hashbyname_loop :: "int \<Rightarrow> nat \<Rightarrow> cstring \<Rightarrow> int" where
  "hashbyname_loop i j [] = i"
| "hashbyname_loop i j (c # nm) =
    hashbyname_loop (i XOR push_bit j (schar c)) (if 7 < j + 1 then 0 else j + 1) nm"

definition hashbyname :: "cstring \<Rightarrow> int \<Rightarrow> int" where
  "hashbyname nm md = s32 (hashbyname_loop 0 0 nm * 31415) AND (md - 1)"

definition is_hex_char :: "char \<Rightarrow> bool" where
  "is_hex_char c \<longleftrightarrow>
    isdigit_c c \<or> (97 \<le> byte c \<and> byte c \<le> 102) \<or> (65 \<le> byte c \<and> byte c \<le> 70)"

definition hex_char_val :: "char \<Rightarrow> 64 word" where
  "hex_char_val c =
    (if isdigit_c c then of_nat (byte c - 48) AND 15
     else if isupper_c c then of_nat (byte c - 65 + 10) AND 15
     else of_nat (byte c - 97 + 10) AND 15)"

definition skip_0x :: "cstring \<Rightarrow> cstring" where
  "skip_0x s = (if strcasecmp_eq (take 2 s) ''0x'' then drop 2 s else s)"

definition x2dev_assemble :: "cstring \<Rightarrow> 64 word" where
  "x2dev_assemble ds = fold (\<lambda>c r. push_bit 4 r OR hex_char_val c) ds 0"

definition x2dev :: "cstring \<Rightarrow> (cstring \<times> 64 word) option" where
  "x2dev s0 =
    (let s = skip_0x s0;
         ds = takeWhile is_hex_char s;
         cp = dropWhile is_hex_char s;
         n = length ds in
      if cp \<noteq> [] \<and> hd cp \<noteq> CHR '' '' \<and> hd cp \<noteq> CHR '','' then None
      else if n = 0 then None
      else if 16 < n \<and> \<not> list_all (\<lambda>c. c = CHR ''f'' \<or> c = CHR ''F'') (take (n - 16) ds) then None
      else Some (cp, x2dev_assemble (drop (n - 16) ds)))"

definition grow_array :: "int \<Rightarrow> nat \<Rightarrow> int \<Rightarrow> (int \<times> nat) option" where
  "grow_array cap elem_size growth_count =
    (let new_capacity = s32 (cap + growth_count) in
      if new_capacity < 0 then None
      else let new_size = (nat new_capacity * elem_size) mod 2 ^ 64 in
        if new_size div elem_size \<noteq> nat new_capacity then None
        else Some (new_capacity, new_size))"

text \<open>The hexadecimal rendering of \<open>printf\<close>'s \<open>%lx\<close>, the form in which device numbers are written.\<close>

fun hex_str :: "nat \<Rightarrow> string" where
  "hex_str n = (if n < 16 then [hex_digit n] else hex_str (n div 16) @ [hex_digit (n mod 16)])"

declare hex_str.simps [simp del]

section \<open>Lemmas on the printable forms\<close>

lemma hex_digit_print: "n < 16 \<Longrightarrow> isprint_c (hex_digit n)"
  by (auto simp: hex_digit_def isprint_c_def)

lemma hex2_print [simp]: "list_all isprint_c (hex2 n)"
  by (simp add: hex2_def hex_digit_print)

lemma safepup_print [simp]: "list_all isprint_c (fst (safepup c))"
  by (auto simp: safepup_def isprint_c_def[of "bsl"] isprint_c_def[of "CHR ''^''"] isprint_c_def)

lemma safepup_len [simp]: "length (fst (safepup c)) = snd (safepup c)"
  by (simp add: safepup_def hex2_def)

lemma safepup_cols:
  "snd (safepup (uint_of_char x)) =
    (if schar x < 32 \<or> byte x = 255 \<or> x = bsl then 2 else 4) + (if 128 \<le> byte x then 2 else 0)"
  using byte_eq_iff [of x bsl] byte_le [of x]
  by (auto simp: safepup_def uint_of_char_def schar_def)

text \<open>A byte that a terminal may show: no C0 control and no DEL.\<close>

definition no_ctrl :: "char \<Rightarrow> bool" where
  "no_ctrl c \<longleftrightarrow> 32 \<le> byte c \<and> byte c \<noteq> 127"

text \<open>
  What the locale promises: a multibyte character that it calls printable has no byte of the
  ASCII range in it (so for UTF-8 and every other stateless superset of ASCII).
\<close>

definition mb_ascii_free :: "wlocale \<Rightarrow> bool" where
  "mb_ascii_free L \<longleftrightarrow>
    (\<forall>sp. 1 < mb_lnc L sp \<longrightarrow> wprint L sp \<longrightarrow> list_all (\<lambda>x. 128 \<le> byte x) (take (mb_lnc L sp) sp))"

lemma print_no_ctrl: "isprint_c x \<Longrightarrow> no_ctrl x"
  by (simp add: isprint_c_def no_ctrl_def)

lemma high_no_ctrl: "128 \<le> byte x \<Longrightarrow> no_ctrl x"
  by (simp add: no_ctrl_def)

lemma list_all_print_no_ctrl: "list_all isprint_c s \<Longrightarrow> list_all no_ctrl s"
  by (auto simp: list_all_iff print_no_ctrl)

lemma safepup_no_ctrl [simp]: "list_all no_ctrl (fst (safepup c))"
  by (rule list_all_print_no_ctrl) simp

lemma safepup_concat_no_ctrl [simp]:
  "list_all no_ctrl (concat (map (\<lambda>x. fst (safepup (uint_of_char x))) s))"
  by (induction s) auto

lemma safestrprt_loop_Nil [simp]: "safestrprt_loop L flags [] = []"
  by (simp add: safestrprt_loop.simps)

lemma safestrprt_loop_mb:
  "1 < mb_lnc L sp \<Longrightarrow> sp \<noteq> [] \<Longrightarrow> safestrprt_loop L flags sp =
    (if wprint L sp then take (mb_lnc L sp) sp
     else concat (map (\<lambda>x. fst (safepup (uint_of_char x))) (take (mb_lnc L sp) sp)))
    @ safestrprt_loop L flags (drop (mb_lnc L sp) sp)"
  by (simp add: safestrprt_loop.simps [of L flags sp] Let_def)

lemma safestrprt_loop_Cons:
  "\<not> 1 < mb_lnc L (x # sp) \<Longrightarrow> safestrprt_loop L flags (x # sp) =
    (if x \<noteq> bsl \<and> isprint_c x \<and> x \<noteq> safe_stop flags then x # safestrprt_loop L flags sp
     else if flags AND 8 \<noteq> 0 \<and> x = nl \<and> sp = [] then []
     else fst (safepup (uint_of_char x)) @ safestrprt_loop L flags sp)"
  by (simp add: safestrprt_loop.simps [of L flags "x # sp"] Let_def)

lemma safestrprt_loop_no_ctrl:
  assumes "mb_ascii_free L"
  shows "list_all no_ctrl (safestrprt_loop L flags sp)"
proof (induction sp rule: measure_induct_rule [of length])
  case (less sp)
  show ?case
  proof (cases sp)
    case (Cons x xs)
    show ?thesis
    proof (cases "1 < mb_lnc L sp")
      case True
      then have "wprint L sp \<Longrightarrow> list_all no_ctrl (take (mb_lnc L sp) sp)"
        using assms by (auto simp: mb_ascii_free_def list_all_iff high_no_ctrl)
      then show ?thesis
        using less.IH [of "drop (mb_lnc L sp) sp"] True Cons
        by (simp add: safestrprt_loop_mb)
    next
      case False
      then show ?thesis
        using less.IH [of xs] Cons by (simp add: safestrprt_loop_Cons print_no_ctrl)
    qed
  qed simp
qed

lemma mb_lnc_single [simp]: "mb_cur_max L \<le> 1 \<Longrightarrow> mb_lnc L sp = 1"
  by (simp add: mb_lnc_def)

lemma safestrprt_loop_length:
  assumes "mb_cur_max L \<le> 1" and "flags AND 8 = 0"
  shows "length (safestrprt_loop L flags sp) =
    safestrlen_loop (safe_stop flags) sp + 2 * length (filter (\<lambda>x. 128 \<le> byte x) sp)"
  using assms
  by (induction sp) (auto simp: safestrprt_loop_Cons safepup_cols isprint_c_def)

lemma safestrprtn_loop_cols:
  "safestrprtn_loop flags len i sp = (out, j) \<Longrightarrow> j = i + int (length out) \<and> (i \<le> len \<longrightarrow> j \<le> len)"
proof (induction flags len i sp arbitrary: out j rule: safestrprtn_loop.induct)
  case (2 flags len i x sp)
  obtain up cl where pup: "safepup (uint_of_char x) = (up, cl)" by force
  then have "length up = cl" using safepup_len [of "uint_of_char x"] by simp
  then show ?case
    using "2.prems" "2.IH"(1) "2.IH"(2) [OF _ _ _ pup [symmetric] refl]
    by (auto simp: pup split: if_splits prod.splits)
qed simp

section \<open>Lemmas on device numbers and capacities\<close>

lemma nibble_or_add:
  assumes "n < 16"
  shows "push_bit 4 r OR of_nat n = (push_bit 4 r + of_nat n :: 64 word)"
proof (rule sym, rule disjunctive_add_eq_or, rule bit_eqI)
  fix i :: nat
  have "take_bit 4 n = n" using assms by (simp add: take_bit_nat_eq_self)
  then have "bit n i \<Longrightarrow> i < 4" by (metis bit_take_bit_iff)
  then show "bit (push_bit 4 r AND of_nat n) i = bit (0::64 word) i"
    by (auto simp: bit_simps)
qed

lemma hex_digit_val:
  assumes "n < 16"
  shows "is_hex_char (hex_digit n)" and "hex_char_val (hex_digit n) = of_nat n"
proof -
  have "n \<in> set [0..<16]" using assms by simp
  then show "is_hex_char (hex_digit n)" "hex_char_val (hex_digit n) = of_nat n"
    by (auto simp: hex_digit_def is_hex_char_def hex_char_val_def isdigit_c_def isupper_c_def upt_rec)
qed

lemma x2dev_assemble_snoc: 
  "x2dev_assemble (ds @ [d]) = push_bit 4 (x2dev_assemble ds) OR hex_char_val d"
  by (simp add: x2dev_assemble_def)

lemma x2dev_assemble_hex_str: "x2dev_assemble (hex_str n) = of_nat n"
proof (induction n rule: hex_str.induct)
  case (1 n)
  show ?case
  proof (cases "n < 16")
    case True
    then show ?thesis by (simp add: hex_str.simps [of n] x2dev_assemble_def hex_digit_val)
  next
    case False
    then have "x2dev_assemble (hex_str n) = push_bit 4 (of_nat (n div 16)) OR of_nat (n mod 16)"
      using 1 by (simp add: hex_str.simps [of n] x2dev_assemble_snoc hex_digit_val)
    also have "\<dots> = push_bit 4 (of_nat (n div 16)) + of_nat (n mod 16)"
      by (simp add: nibble_or_add)
    also have "\<dots> = of_nat (n div 16 * 16 + n mod 16)"
      by (simp only: of_nat_add of_nat_mult) (simp add: push_bit_eq_mult)
    finally show ?thesis by simp
  qed
qed

lemma hex_str_chars: "list_all is_hex_char (hex_str n)"
  by (induction n rule: hex_str.induct) (subst hex_str.simps, simp add: hex_digit_val)

lemma hex_str_nonempty [simp]: "hex_str n \<noteq> []"
  by (subst hex_str.simps) simp

lemma hex_str_length: "n < 16 ^ k \<Longrightarrow> 0 < k \<Longrightarrow> length (hex_str n) \<le> k"
proof (induction n arbitrary: k rule: hex_str.induct)
  case (1 n)
  show ?case
  proof (cases "n < 16")
    case False
    obtain m where k: "k = Suc m" using 1 by (cases k) auto
    with False 1 have m: "0 < m" by (cases m) auto
    have "n div 16 < 16 ^ m" using 1 k by (simp add: less_mult_imp_div_less mult.commute)
    then show ?thesis using 1(1) [OF False, of m] False k m by (simp add: hex_str.simps [of n])
  qed (use 1 in \<open>simp add: hex_str.simps [of n]\<close>)
qed


lemma x2dev_digits:
  assumes "list_all is_hex_char ds" and "ds \<noteq> []" and "length ds \<le> 16"
    and "rest = [] \<or> hd rest = CHR '' '' \<or> hd rest = CHR '',''"
    and "skip_0x s = ds @ rest"
  shows "x2dev s = Some (rest, x2dev_assemble ds)"
proof -
  have "rest \<noteq> [] \<Longrightarrow> \<not> is_hex_char (hd rest)"
    using assms(4) by (auto simp: is_hex_char_def isdigit_c_def)
  then have "takeWhile is_hex_char (ds @ rest) = ds" "dropWhile is_hex_char (ds @ rest) = rest"
    using assms(1) by (simp_all add: takeWhile_sep dropWhile_sep)
  then show ?thesis using assms by (auto simp: x2dev_def)
qed

lemma mod_div_exact:
  fixes n e m :: nat
  assumes "0 < e"
  shows "(n * e) mod m div e = n \<longleftrightarrow> n * e < m \<or> m = 0"
proof
  assume *: "(n * e) mod m div e = n"
  have "n * e \<le> (n * e) mod m" using div_times_less_eq_dividend [of "(n * e) mod m" e] * by simp
  then show "n * e < m \<or> m = 0" by (metis mod_less_divisor not_le_imp_less not_less0 neq0_conv order.strict_trans1)
qed (use assms in auto)

lemma grow_array_value:
  assumes "0 \<le> cap" "cap < 2 ^ 31" "0 \<le> growth" "growth < 2 ^ 31" "0 < elem_size"
  shows "grow_array cap elem_size growth =
    (if cap + growth < 2 ^ 31 \<and> nat (cap + growth) * elem_size < 2 ^ 64
     then Some (cap + growth, nat (cap + growth) * elem_size) else None)"
proof (cases "cap + growth < 2 ^ 31")
  case True
  then have "s32 (cap + growth) = cap + growth" using assms by (simp add: in_s32_def)
  then show ?thesis
    using assms True mod_div_exact [of elem_size "nat (cap + growth)" "2 ^ 64"]
    by (auto simp: grow_array_def Let_def)
next
  case False
  then have "s32 (cap + growth) < 0" using assms by (subst s32_overflow) auto
  then show ?thesis using False by (simp add: grow_array_def)
qed

lemma grow_array_Some:
  assumes "grow_array cap elem_size growth = Some (c, sz)"
    and "0 \<le> cap" "cap < 2 ^ 31" "0 \<le> growth" "growth < 2 ^ 31" "0 < elem_size"
  shows "c = cap + growth \<and> c < 2 ^ 31"
  using assms(1) grow_array_value [OF assms(2-6)] by (simp split: if_splits)

section \<open>Properties\<close>

text \<open>
  C25: whatever bytes a name read from the kernel holds, \<open>safestrprt\<close> (without the newline flag)
  writes no control byte to the stream: the output of lsof cannot carry terminal control sequences.
\<close>

theorem safestrprt_no_control:
  assumes "mb_ascii_free L" and "flags AND 1 = 0"
  shows "list_all no_ctrl (safestrprt L sp flags)"
  using assms safestrprt_loop_no_ctrl [OF assms(1)]
  by (simp add: safestrprt_def no_ctrl_def split: option.split)

theorem safestrprt_no_control_witness:
  "mb_ascii_free c_locale \<and> list_all no_ctrl (safestrprt c_locale (Some [CHR 0x1B, CHR ''['']) 4)"
proof -
  have "mb_ascii_free c_locale" by (simp add: mb_ascii_free_def mb_lnc_def c_locale_def)
  then show ?thesis using safestrprt_no_control [of c_locale 4] by simp
qed

text \<open>
  In a single-byte locale the number of columns \<open>safestrprt\<close> uses is the width \<open>safestrlen\<close>
  announces plus two for each byte above 0x7f.  So the width is exact for ASCII strings, and
  column sizing is short by two for every other byte, since \<open>safestrlen\<close> compares a signed
  character with 0x20 while \<open>safepup\<close> spells such a byte as four characters.
\<close>

theorem safestrprt_width:
  assumes "mb_cur_max L \<le> 1" and "flags AND 1 = 0" and "flags AND 4 = 0" and "flags AND 8 = 0"
  shows "length (safestrprt L (Some s) flags) =
    safestrlen (Some s) flags + 2 * length (filter (\<lambda>x. 128 \<le> byte x) s)"
  using assms by (simp add: safestrprt_def safestrlen_def safestrprt_loop_length)

theorem safestrprt_width_witness:
  "length (safestrprt c_locale (Some [CHR ''a'', CHR 0xC3]) 2) =
    safestrlen (Some [CHR ''a'', CHR 0xC3]) 2 + 2"
  using safestrprt_width [of c_locale 2 "[CHR ''a'', CHR 0xC3]"] by (simp add: c_locale_def)

text \<open>
  C36: \<open>safestrprtn\<close> fills its column exactly: whatever the string, it writes \<open>len\<close> characters,
  plus the two quotes and the newline when the flags ask for them.
\<close>

theorem safestrprtn_exact_width:
  "int (length (safestrprtn sp len flags)) =
    max 0 len + (if flags AND 4 \<noteq> 0 then 2 else 0) + (if flags AND 1 \<noteq> 0 then 1 else 0)"
proof (cases sp)
  case (Some s)
  obtain out j where r: "safestrprtn_loop flags len 0 s = (out, j)" by force
  have neg: "len < 0 \<Longrightarrow> out = []" using r by (cases s) auto
  show ?thesis
    using safestrprtn_loop_cols [OF r] neg
    by (auto simp: safestrprtn_def Some r max_def not_less)
qed (simp add: safestrprtn_def)

text \<open>
  Reading back a device number that was written in hexadecimal gives the same 64-bit number
  and stops at the separator.
\<close>

theorem x2dev_hex_str:
  assumes "rest = [] \<or> hd rest = CHR '' '' \<or> hd rest = CHR '',''"
  shows "x2dev (''0x'' @ hex_str (unat d) @ rest) = Some (rest, d)"
proof -
  have "unat d < 16 ^ 16" using unsigned_less [of d] by simp
  then have "length (hex_str (unat d)) \<le> 16" by (rule hex_str_length) simp
  then show ?thesis
    using assms x2dev_digits [OF hex_str_chars hex_str_nonempty, of "unat d" rest]
    by (simp add: skip_0x_def x2dev_assemble_hex_str)
qed

theorem x2dev_hex_str_witness:
  "x2dev (''0x'' @ hex_str (unat (0x803 :: 64 word)) @ '' x'') = Some ('' x'', 0x803)"
  using x2dev_hex_str [of "'' x''" "0x803"] by simp

text \<open>
  \<open>hashbyname\<close> yields a valid bucket index for every name and every positive modulus.
\<close>

theorem hashbyname_in_table:
  assumes "0 < md"
  shows "0 \<le> hashbyname nm md \<and> hashbyname nm md < md"
  using assms by (simp add: hashbyname_def)

theorem hashbyname_in_table_witness:
  "0 \<le> hashbyname ''/tmp'' 4096 \<and> hashbyname ''/tmp'' 4096 < 4096"
  using hashbyname_in_table [of 4096 "''/tmp''"] by simp

text \<open>
  \<open>grow_array\<close> grows a capacity exactly when the new capacity fits an \<open>int\<close> and the byte count
  fits 64 bits, and then both are the mathematical values; otherwise it fails and changes nothing.
\<close>

theorem grow_array_exact:
  assumes "0 \<le> cap" "cap < 2 ^ 31" "0 \<le> growth" "growth < 2 ^ 31" "0 < elem_size"
  shows "grow_array cap elem_size growth =
    (if cap + growth < 2 ^ 31 \<and> nat (cap + growth) * elem_size < 2 ^ 64
     then Some (cap + growth, nat (cap + growth) * elem_size) else None)"
  using assms by (rule grow_array_value)

theorem grow_array_exact_witness:
  "grow_array 128 248 128 = Some (256, 63488)"
  using grow_array_exact [of 128 128 248] by simp

end
