(* ===== verification/Decimal.thy ===== *)
theory Decimal
  imports Prelude
begin

text \<open>
  Decimal numbers: the text \<open>printf\<close> writes for \<open>%d\<close> and \<open>%u\<close> conversions, and the digit loops with
  which the source reads numbers.  An \<open>int\<close> accumulator wraps at 32 bits (\<open>acc_digit\<close>).
\<close>

fun dec_str :: "nat \<Rightarrow> cstring" where
  "dec_str n = (if n < 10 then [char_of (48 + n)] else dec_str (n div 10) @ [char_of (48 + n mod 10)])"

declare dec_str.simps [simp del]

definition dec_int :: "int \<Rightarrow> cstring" where
  "dec_int i = (if i < 0 then CHR ''-'' # dec_str (nat (- i)) else dec_str (nat i))"

text \<open>\<open>%0wd\<close>: the decimal text padded with zeros to width \<open>w\<close>.\<close>

definition dec_pad :: "nat \<Rightarrow> nat \<Rightarrow> cstring" where
  "dec_pad w n = replicate (w - length (dec_str n)) (CHR ''0'') @ dec_str n"

definition dec_value :: "cstring \<Rightarrow> int" where
  "dec_value s = foldl (\<lambda>n c. n * 10 + digit_val c) 0 s"

definition acc_digit :: "int \<Rightarrow> char \<Rightarrow> int" where
  "acc_digit n c = s32 (n * 10 + digit_val c)"

section \<open>The text of a number\<close>

lemma dec_str_digits: "list_all isdigit_c (dec_str n)"
  by (induction n rule: dec_str.induct) (subst dec_str.simps, auto simp: isdigit_c_def [of "char_of _"])

lemma dec_str_nonempty [simp]: "dec_str n \<noteq> []"
  by (subst dec_str.simps) simp

lemma dec_str_digit: "c \<in> set (dec_str n) \<Longrightarrow> isdigit_c c"
  using dec_str_digits [of n] by (simp add: list_all_iff)

lemma dec_str_no: "\<not> isdigit_c c \<Longrightarrow> c \<notin> set (dec_str n)"
  using dec_str_digit by blast

lemma dec_str_no_sep [simp]:
  "CHR '','' \<notin> set (dec_str n)" "CHR ''-'' \<notin> set (dec_str n)" "CHR ''^'' \<notin> set (dec_str n)"
  "CHR '':'' \<notin> set (dec_str n)" "CHR ''.'' \<notin> set (dec_str n)" "CHR ''@'' \<notin> set (dec_str n)"
  by (rule dec_str_no, simp add: isdigit_c_def)+

lemma dec_str_hd [simp]: "isdigit_c (hd (dec_str n))"
  using dec_str_digit [of "hd (dec_str n)" n] by simp

lemma digit_val_digit [simp]: "k < 10 \<Longrightarrow> digit_val (char_of (48 + k)) = int k"
  by (simp add: digit_val_def)

lemma dec_value_dec_str [simp]: "dec_value (dec_str n) = int n"
proof (induction n rule: dec_str.induct)
  case (1 n)
  show ?case
  proof (cases "n < 10")
    case True
    then show ?thesis by (simp add: dec_str.simps [of n] dec_value_def)
  next
    case False
    have "int (n div 10) * 10 + int (n mod 10) = int n"
      by (metis div_mult_mod_eq of_nat_add of_nat_mult of_nat_numeral)
    then show ?thesis using 1 False by (simp add: dec_str.simps [of n] dec_value_def)
  qed
qed

lemma dec_str_inject [simp]: "dec_str m = dec_str n \<longleftrightarrow> m = n"
  using dec_value_dec_str [of m] dec_value_dec_str [of n] by (metis of_nat_eq_iff)

lemma dec_str_length: "n < 10 ^ k \<Longrightarrow> 0 < k \<Longrightarrow> length (dec_str n) \<le> k"
proof (induction n arbitrary: k rule: dec_str.induct)
  case (1 n)
  show ?case
  proof (cases "n < 10")
    case True
    then show ?thesis using 1(3) by (subst dec_str.simps) simp
  next
    case False
    from False 1(2) have "k \<noteq> 1" by auto
    with 1(3) obtain j where j: "k = Suc j" "0 < j" by (cases k) auto
    with 1(2) have "n div 10 < 10 ^ j" by (auto simp: less_mult_imp_div_less mult.commute)
    from 1(1) [OF False this j(2)] show ?thesis
      using False j by (subst dec_str.simps) simp
  qed
qed

section \<open>Reading a number\<close>

lemma s32_cong: "s32 (s32 a * 10 + b) = s32 (a * 10 + b)"
proof -
  have "s32 a = a - 4294967296 * ((a + 2147483648) div 4294967296)"
    using mult_div_mod_eq [of 4294967296 "a + 2147483648"] unfolding s32_def by linarith
  then have "s32 a * 10 + b + 2147483648 =
      a * 10 + b + 2147483648 + 4294967296 * (- 10 * ((a + 2147483648) div 4294967296))"
    by simp
  then show ?thesis unfolding s32_def by (metis mod_mult_self2)
qed

lemma foldl_acc_digit:
  "foldl acc_digit (s32 a) s = s32 (foldl (\<lambda>n c. n * 10 + digit_val c) a s)"
proof (induction s arbitrary: a)
  case (Cons c s)
  have "acc_digit (s32 a) c = s32 (a * 10 + digit_val c)" by (simp add: acc_digit_def s32_cong)
  then show ?case using Cons by simp
qed simp

lemma foldl_acc_value: "foldl acc_digit 0 s = s32 (dec_value s)"
  using foldl_acc_digit [of 0 s] by (simp add: dec_value_def in_s32_def)

lemma foldl_acc_dec_str [simp]: "foldl acc_digit 0 (dec_str n) = s32 (int n)"
  by (simp add: foldl_acc_value)

end
