(* ===== verification/Context.thy ===== *)
theory Context
  imports Prelude
begin

text \<open>
  The data of the library: the selection flags and structures of \<open>lib/common.h\<close>, the public
  enumerations of \<open>include/lsof.h\<close>, the Linux structures of \<open>lib/dialects/linux/dlsof.h\<close>, and the
  context record that the library and the command share.  A linked list is a list in chain order,
  an array with its entry count is a list of that length, and a pointer into such a list is an
  index.  The fields are those of the Linux build (tasks, endpoint options, pseudoterminal and UNIX
  socket endpoints, TCP/UDP state selection, socket options).
\<close>

section \<open>Selection flags\<close>

definition SELCMD :: flags32 where [flag_simps]: "SELCMD = 0x0001"
definition SELCNTX :: flags32 where [flag_simps]: "SELCNTX = 0x0002"
definition SELFD :: flags32 where [flag_simps]: "SELFD = 0x0004"
definition SELNA :: flags32 where [flag_simps]: "SELNA = 0x0008"
definition SELNET :: flags32 where [flag_simps]: "SELNET = 0x0010"
definition SELNFS :: flags32 where [flag_simps]: "SELNFS = 0x0020"
definition SELNLINK :: flags32 where [flag_simps]: "SELNLINK = 0x0040"
definition SELNM :: flags32 where [flag_simps]: "SELNM = 0x0080"
definition SELPGID :: flags32 where [flag_simps]: "SELPGID = 0x0100"
definition SELPID :: flags32 where [flag_simps]: "SELPID = 0x0200"
definition SELUID :: flags32 where [flag_simps]: "SELUID = 0x0400"
definition SELUNX :: flags32 where [flag_simps]: "SELUNX = 0x0800"
definition SELZONE :: flags32 where [flag_simps]: "SELZONE = 0x1000"
definition SELEXCLF :: flags32 where [flag_simps]: "SELEXCLF = 0x2000"
definition SELTASK :: flags32 where [flag_simps]: "SELTASK = 0x4000"
definition SELPINFO :: flags32 where [flag_simps]: "SELPINFO = 0x8000"
definition SELUXSINFO :: flags32 where [flag_simps]: "SELUXSINFO = 0x10000"
definition SELPTYINFO :: flags32 where [flag_simps]: "SELPTYINFO = 0x20000"
definition SELNETSINFO :: flags32 where [flag_simps]: "SELNETSINFO = 0x40000"
definition SELPSXMQINFO :: flags32 where [flag_simps]: "SELPSXMQINFO = 0x80000"
definition SELNETS6INFO :: flags32 where [flag_simps]: "SELNETS6INFO = 0x100000"
definition SELEVTFDINFO :: flags32 where [flag_simps]: "SELEVTFDINFO = 0x200000"

definition SELALL :: flags32 where
  [flag_simps]: "SELALL = SELCMD OR SELCNTX OR SELFD OR SELNA OR SELNET OR SELNM OR SELNFS
    OR SELPID OR SELUID OR SELUNX OR SELZONE OR SELTASK"

definition SELPROC :: flags32 where
  [flag_simps]: "SELPROC = SELCMD OR SELCNTX OR SELPGID OR SELPID OR SELUID OR SELZONE OR SELTASK"

definition SELFILE :: flags32 where
  [flag_simps]: "SELFILE = SELFD OR SELNFS OR SELNLINK OR SELNM"

definition SELNW :: flags32 where
  [flag_simps]: "SELNW = SELNA OR SELNET OR SELUNX"

definition PS_PRI :: flags32 where [flag_simps]: "PS_PRI = 1"
definition PS_SEC :: flags32 where [flag_simps]: "PS_SEC = 2"

definition EPT_PIPE :: flags32 where [flag_simps]: "EPT_PIPE = 0x01"
definition EPT_PIPE_END :: flags32 where [flag_simps]: "EPT_PIPE_END = 0x02"
definition EPT_PTY :: flags32 where [flag_simps]: "EPT_PTY = 0x04"
definition EPT_PTY_END :: flags32 where [flag_simps]: "EPT_PTY_END = 0x08"
definition EPT_UXS :: flags32 where [flag_simps]: "EPT_UXS = 0x10"
definition EPT_UXS_END :: flags32 where [flag_simps]: "EPT_UXS_END = 0x20"
definition EPT_NETS :: flags32 where [flag_simps]: "EPT_NETS = 0x40"
definition EPT_NETS_END :: flags32 where [flag_simps]: "EPT_NETS_END = 0x80"
definition EPT_PSXMQ :: flags32 where [flag_simps]: "EPT_PSXMQ = 0x100"
definition EPT_PSXMQ_END :: flags32 where [flag_simps]: "EPT_PSXMQ_END = 0x200"
definition EPT_NETS6 :: flags32 where [flag_simps]: "EPT_NETS6 = 0x400"
definition EPT_NETS6_END :: flags32 where [flag_simps]: "EPT_NETS6_END = 0x800"
definition EPT_EVTFD :: flags32 where [flag_simps]: "EPT_EVTFD = 0x1000"
definition EPT_EVTFD_END :: flags32 where [flag_simps]: "EPT_EVTFD_END = 0x2000"

abbreviation has_flag :: "flags32 \<Rightarrow> flags32 \<Rightarrow> bool" where
  "has_flag w b \<equiv> w AND b \<noteq> 0"

lemma has_flag_or: "has_flag (f OR g) b \<longleftrightarrow> has_flag f b \<or> has_flag g b"
  by (metis (no_types, lifting) and.commute bit.conj_disj_distrib or_eq_0_iff)

section \<open>Enumerations\<close>

datatype lsof_error =
    LSOF_SUCCESS | LSOF_ERROR_INVALID_ARGUMENT | LSOF_ERROR_NO_MEMORY | LSOF_ERROR_UNSUPPORTED

datatype 'a run = Done 'a | Exited int

datatype lsof_file_access_mode =
    LSOF_FILE_ACCESS_NONE | LSOF_FILE_ACCESS_READ | LSOF_FILE_ACCESS_WRITE
  | LSOF_FILE_ACCESS_READ_WRITE

datatype lsof_lock_mode =
    LSOF_LOCK_NONE | LSOF_LOCK_UNKNOWN | LSOF_LOCK_READ_PARTIAL | LSOF_LOCK_READ_FULL
  | LSOF_LOCK_WRITE_PARTIAL | LSOF_LOCK_WRITE_FULL | LSOF_LOCK_READ_WRITE | LSOF_LOCK_SOLARIS_NFS
  | LSOF_LOCK_SCO_PARTIAL | LSOF_LOCK_SCO_FULL

datatype lsof_fd_type =
    LSOF_FD_NUMERIC | LSOF_FD_UNKNOWN | LSOF_FD_CWD | LSOF_FD_ERROR | LSOF_FD_NOFD
  | LSOF_FD_ROOT_DIR | LSOF_FD_PARENT_DIR | LSOF_FD_PROGRAM_TEXT | LSOF_FD_LIBRARY_TEXT
  | LSOF_FD_MEMORY | LSOF_FD_DELETED | LSOF_FD_FILEPORT | LSOF_FD_TASK_CWD | LSOF_FD_CTTY
  | LSOF_FD_JAIL_DIR | LSOF_FD_VIRTUAL_8086 | LSOF_FD_MERGE_386 | LSOF_FD_MMAP_DEVICE
  | LSOF_FD_LIBRARY_REF | LSOF_FD_MMAP_UNKNOWN | LSOF_FD_PREGION_UNKNOWN

text \<open>The C enumeration of file types is kept as the integer it is; see the printing theory.\<close>

type_synonym lsof_file_type = nat

section \<open>Structures\<close>

text \<open>
  A selection table: the entries, the allocated capacity, and the counts of included and excluded
  entries that the library keeps beside the array.
\<close>

record 'e sel_tab =
  st_ents :: "'e list"
  st_cap :: int
  st_incl :: int
  st_excl :: int

definition empty_tab :: "'e sel_tab" where
  "empty_tab = \<lparr> st_ents = [], st_cap = 0, st_incl = 0, st_excl = 0 \<rparr>"

record int_lst =
  il_i :: int
  il_f :: bool
  il_x :: bool

record seluid =
  su_uid :: int
  su_lnm :: "cstring option"
  su_excl :: bool
  su_f :: bool

record str_lst =
  sl_str :: cstring
  sl_len :: nat
  sl_f :: bool
  sl_x :: bool

record lsof_rx =
  rx_exp :: cstring
  rx_co :: flags32
  rx_mc :: bool

record fd_lst =
  fl_type :: lsof_fd_type
  fl_lo :: int
  fl_hi :: int

record nwad =
  nw_arg :: "cstring option"
  nw_proto :: "cstring option"
  nw_af :: int
  nw_a :: "8 word list"
  nw_sport :: int
  nw_eport :: int
  nw_f :: bool

record mounts =
  mt_dir :: "cstring option"
  mt_fsname :: "cstring option"
  mt_fsnmres :: "cstring option"
  mt_dirl :: nat
  mt_dev :: "64 word"
  mt_rdev :: "64 word"
  mt_inode :: "64 word"
  mt_mode :: nat
  mt_ds :: nat
  mt_fs_mode :: nat
  mt_ty :: nat

record sfile =
  sf_aname :: "cstring option"
  sf_name :: "cstring option"
  sf_devnm :: "cstring option"
  sf_dev :: "64 word"
  sf_rdev :: "64 word"
  sf_mode :: nat
  sf_type :: nat
  sf_i :: "64 word"
  sf_f :: bool
  sf_mp :: "mounts option"

record linaddr =
  li_af :: int
  li_p :: int
  li_ia :: "8 word list"

record ltstate =
  lt_type :: int
  lt_state :: int
  lt_pqlens :: bool
  lt_qlens :: bool
  lt_qlims :: bool
  lt_rbszs :: bool
  lt_sbszs :: bool
  lt_kai :: int
  lt_ltm :: int
  lt_opt :: nat
  lt_pqlen :: nat
  lt_qlen :: nat
  lt_qlim :: nat
  lt_rbsz :: nat
  lt_sbsz :: nat
  lt_ss :: nat
  lt_rq :: nat
  lt_sq :: nat
  lt_rqs :: bool
  lt_sqs :: bool

record lfile =
  lf_access :: lsof_file_access_mode
  lf_lock :: lsof_lock_mode
  lf_dev_def :: bool
  lf_inp_ty :: nat
  lf_is_com :: bool
  lf_is_nfs :: bool
  lf_is_stream :: bool
  lf_lmi_srch :: bool
  lf_nlink_def :: bool
  lf_off_def :: bool
  lf_chend :: flags32
  lf_eventfd_id :: int
  lf_tty_index :: int
  lf_rdev_def :: bool
  lf_sz_def :: bool
  lf_fd_type :: lsof_fd_type
  lf_fd_num :: int
  lf_iproto :: cstring
  lf_type :: lsof_file_type
  lf_unk_type :: nat
  lf_sf :: flags32
  lf_ch :: int
  lf_ntype :: nat
  lf_off :: "64 word"
  lf_sz :: "64 word"
  lf_dev :: "64 word"
  lf_rdev :: "64 word"
  lf_inode :: "64 word"
  lf_nlink :: int
  lf_dev_ch :: "cstring option"
  lf_fsdir :: "cstring option"
  lf_fsdev :: "cstring option"
  lf_li0 :: linaddr
  lf_li1 :: linaddr
  lf_lts :: ltstate
  lf_nm :: "cstring option"
  lf_nma :: "cstring option"
  lf_fsv :: nat
  lf_fct :: int
  lf_ffg :: int
  lf_pof :: int

record lproc =
  lp_cmd :: cstring
  lp_sf :: flags32
  lp_pss :: flags32
  lp_ept :: flags32
  lp_pid :: int
  lp_tid :: int
  lp_tcmd :: "cstring option"
  lp_pgid :: int
  lp_ppid :: int
  lp_uid :: int
  lp_file :: "lfile list"

section \<open>The context\<close>

text \<open>
  \<open>struct lsof_context\<close>, by the macro names the code uses for its members (\<open>Spid\<close>, \<open>Selflags\<close>,
  \<open>Fand\<close>, \<open>Sfile\<close>, \<open>HbyNm\<close>, \<open>Lproc\<close>, \<open>Lf\<close>, and so on).  The hash buckets of \<open>hashSfile\<close> are
  chains of indices into \<open>sfiles\<close>; \<open>lf\<close> is \<open>None\<close> when the current file pointer is NULL, and
  \<open>plf\<close> tells whether the previous file pointer is set.
\<close>

record lsof_context =
  frozen :: bool
  sfiles :: "sfile list"
  suid :: "seluid sel_tab"
  spgid :: "int_lst sel_tab"
  spid :: "int_lst sel_tab"
  npuns :: int
  allproc :: bool
  cmdl :: "str_lst list"
  cmdni :: int
  cmdnx :: int
  cmdrx :: "lsof_rx list"
  ncmdrxa :: int
  nwads :: "nwad list"
  hs :: bool
  hbyfdi :: "nat list list"
  hbyfdi_ct :: nat
  hbyfrd :: "nat list list"
  hbyfrd_ct :: nat
  hbyfsd :: "nat list list"
  hbyfsd_ct :: nat
  hbynm :: "nat list list"
  hbynm_ct :: nat
  selflags :: flags32
  selproc :: flags32
  selall :: flags32
  selinet :: bool
  fnfs :: nat
  ftask :: nat
  fand :: bool
  fblock :: bool
  fovhd :: bool
  fepte :: nat
  igntasks :: bool
  fdl :: "fd_lst list"
  fdlty :: int
  fnet :: nat
  fnettype :: int
  fxopt :: bool
  rpttm :: int
  devdev :: "64 word"
  namech :: string
  lprocs :: "lproc list"
  mxlproc :: int
  lf :: "lfile option"
  plf :: bool

text \<open>\<open>lsof_new\<close>: everything is cleared by \<open>memset\<close>, then a few members get their defaults.\<close>

definition lsof_new :: lsof_context where
  "lsof_new = \<lparr> frozen = False, sfiles = [], suid = empty_tab, spgid = empty_tab,
    spid = empty_tab, npuns = 0, allproc = True, cmdl = [], cmdni = 0, cmdnx = 0, cmdrx = [],
    ncmdrxa = 0, nwads = [], hs = False, hbyfdi = [], hbyfdi_ct = 0, hbyfrd = [], hbyfrd_ct = 0,
    hbyfsd = [], hbyfsd_ct = 0, hbynm = [], hbynm_ct = 0, selflags = 0, selproc = 0, selall = 0,
    selinet = False, fnfs = 0, ftask = 0, fand = False, fblock = False, fovhd = False, fepte = 0,
    igntasks = False, fdl = [], fdlty = - 1, fnet = 0, fnettype = 0, fxopt = False, rpttm = 0, devdev = 0,
    namech = [], lprocs = [], mxlproc = 0, lf = None, plf = False \<rparr>"

lemma lsof_new_simps [simp]:
  "frozen lsof_new = False" "spid lsof_new = empty_tab" "spgid lsof_new = empty_tab"
  "suid lsof_new = empty_tab" "cmdl lsof_new = []" "cmdrx lsof_new = []" "ncmdrxa lsof_new = 0"
  "selflags lsof_new = 0" "selall lsof_new = 0" "allproc lsof_new = True" "fand lsof_new = False"
  "sfiles lsof_new = []" "lf lsof_new = None" "fdl lsof_new = []" "cmdnx lsof_new = 0" "cmdni lsof_new = 0"
  "fxopt lsof_new = False" "fnet lsof_new = 0" "nwads lsof_new = []"
  by (simp_all add: lsof_new_def)

end
