(* ===== verification/File_Search.thy ===== *)
theory File_Search
  imports Context Safe_Strings
begin

text \<open>
  File search arguments on Linux (\<open>lib/dialects/linux/dfile.c\<close>): \<open>hashSfile\<close> distributes the
  search arguments over four tables of hash chains, and \<open>is_file_named\<close> decides through them
  whether the current file is one the user named.  A chain is the list of the indices of the
  arguments hashed to it; the first argument of a chain stays at its head and later ones go right
  behind it, as in the code.
\<close>

section \<open>Hash functions\<close>

definition SFDIHASH :: int where "SFDIHASH = 4094"
definition SFFSHASH :: int where "SFFSHASH = 1024"
definition SFRDHASH :: int where "SFRDHASH = 1024"
definition SFNMHASH :: int where "SFNMHASH = 4096"

definition S_IFCHR :: nat where "S_IFCHR = 8192"
definition S_IFBLK :: nat where "S_IFBLK = 24576"

definition N_REGLR :: nat where "N_REGLR = 0"
definition N_NFS :: nat where "N_NFS = 33"

definition maj_dev :: "64 word \<Rightarrow> int" where
  "maj_dev d = uint (drop_bit 8 (d AND 0xFFF00) OR drop_bit 32 (d AND 0xFFFFF00000000000))"

definition min_dev :: "64 word \<Rightarrow> int" where
  "min_dev d = uint ((d AND 0xFF) OR drop_bit 12 (d AND 0xFFFFFF00000))"

definition SFHASHDEVINO :: "int \<Rightarrow> int \<Rightarrow> int \<Rightarrow> int \<Rightarrow> int" where
  "SFHASHDEVINO maj mnr ino md =
    s32 (s32 (s32 (s32 (maj + 1) * s32 (mnr + 1)) + ino) * 31415) AND (md - 1)"

definition SFHASHRDEVI :: "int \<Rightarrow> int \<Rightarrow> int \<Rightarrow> int \<Rightarrow> int \<Rightarrow> int \<Rightarrow> int" where
  "SFHASHRDEVI maj mnr rmaj rmin ino md =
    s32 (s32 (s32 (s32 (s32 (maj + 1) * s32 (mnr + 1)) + s32 (s32 (rmaj + 1) * s32 (rmin + 1)))
      + ino) * 31415) AND (md - 1)"

definition nm_bucket :: "cstring \<Rightarrow> nat" where
  "nm_bucket a = nat (hashbyname a SFNMHASH)"

definition fdi_bucket :: "64 word \<times> 64 word \<Rightarrow> nat" where
  "fdi_bucket k = nat (SFHASHDEVINO (maj_dev (fst k)) (min_dev (fst k)) (uint (snd k)) SFDIHASH)"

definition fsd_bucket :: "64 word \<Rightarrow> nat" where
  "fsd_bucket d = nat (SFHASHDEVINO (maj_dev d) (min_dev d) 0 SFFSHASH)"

definition frd_bucket :: "64 word \<times> 64 word \<times> 64 word \<Rightarrow> nat" where
  "frd_bucket k = (case k of (d, r, i) \<Rightarrow>
    nat (SFHASHRDEVI (maj_dev d) (min_dev d) (maj_dev r) (min_dev r) (uint i) SFRDHASH))"

section \<open>Building the tables\<close>

fun chain_insert :: "nat \<Rightarrow> nat list \<Rightarrow> nat list" where
  "chain_insert s [] = [s]"
| "chain_insert s (h # t) = h # s # t"

definition bucket_add :: "nat \<Rightarrow> nat \<Rightarrow> nat list list \<Rightarrow> nat list list" where
  "bucket_add b s tab = tab[b := chain_insert s (tab ! b)]"

definition hash_by_name :: "nat \<Rightarrow> sfile \<Rightarrow> lsof_context \<Rightarrow> lsof_context" where
  "hash_by_name k s ctx =
    (case sf_aname s of
       None \<Rightarrow> ctx
     | Some a \<Rightarrow> ctx\<lparr> hbynm := bucket_add (nm_bucket a) k (hbynm ctx), hbynm_ct := hbynm_ct ctx + 1 \<rparr>)"

definition hash_by_dev :: "nat \<Rightarrow> sfile \<Rightarrow> lsof_context \<Rightarrow> lsof_context" where
  "hash_by_dev k s ctx =
    (if sf_type s \<noteq> 0 then
       ctx\<lparr> hbyfdi := bucket_add (fdi_bucket (sf_dev s, sf_i s)) k (hbyfdi ctx),
            hbyfdi_ct := hbyfdi_ct ctx + 1 \<rparr>
     else
       ctx\<lparr> hbyfsd := bucket_add (fsd_bucket (sf_dev s)) k (hbyfsd ctx),
            hbyfsd_ct := hbyfsd_ct ctx + 1 \<rparr>)"

definition hash_by_rdev :: "nat \<Rightarrow> sfile \<Rightarrow> lsof_context \<Rightarrow> lsof_context" where
  "hash_by_rdev k s ctx =
    (if sf_mode s = S_IFCHR \<or> sf_mode s = S_IFBLK then
       ctx\<lparr> hbyfrd := bucket_add (frd_bucket (sf_dev s, sf_rdev s, sf_i s)) k (hbyfrd ctx),
            hbyfrd_ct := hbyfrd_ct ctx + 1 \<rparr>
     else ctx)"

definition hash_sfile_entry :: "nat \<times> sfile \<Rightarrow> lsof_context \<Rightarrow> lsof_context" where
  "hash_sfile_entry e ctx = (case e of (k, s) \<Rightarrow>
    hash_by_rdev k s (hash_by_dev k s (hash_by_name k s ctx)))"

definition hashSfile :: "lsof_context \<Rightarrow> lsof_context" where
  "hashSfile ctx =
    (if sfiles ctx = [] \<or> hs ctx then ctx
     else fold hash_sfile_entry (enumerate 0 (sfiles ctx))
       (ctx\<lparr> hbyfdi := replicate (nat SFDIHASH) [], hbyfrd := replicate (nat SFRDHASH) [],
             hbyfsd := replicate (nat SFFSHASH) [], hbynm := replicate (nat SFNMHASH) [],
             hs := True \<rparr>))"

section \<open>Searching\<close>

definition nfs_path_match :: "cstring option \<Rightarrow> mounts option \<Rightarrow> sfile \<Rightarrow> bool" where
  "nfs_path_match path nfs_mount s =
    (case (path, nfs_mount) of
       (Some _, Some m) \<Rightarrow> (case (mt_dir m, sf_name s) of
          (Some d, Some n) \<Rightarrow> mt_dirl m \<noteq> 0 \<and> take (mt_dirl m) d = take (mt_dirl m) n
        | _ \<Rightarrow> False)
     | _ \<Rightarrow> False)"

definition fs_match :: "lfile \<Rightarrow> cstring option \<Rightarrow> mounts option \<Rightarrow> sfile \<Rightarrow> bool" where
  "fs_match l path nfs_mount s \<longleftrightarrow>
    sf_dev s = lf_dev l \<and>
    (if lf_ntype l \<noteq> N_NFS
     then (case sf_mp s of None \<Rightarrow> True | Some m \<Rightarrow> mt_ty m \<noteq> N_NFS)
     else nfs_path_match path nfs_mount s)"

definition find_by_path :: "lsof_context \<Rightarrow> nat \<Rightarrow> cstring option \<Rightarrow> nat option" where
  "find_by_path ctx search_type path =
    (case path of
       None \<Rightarrow> None
     | Some p \<Rightarrow>
        if search_type = 2 \<and> hbynm_ct ctx \<noteq> 0
        then find (\<lambda>k. sf_aname (sfiles ctx ! k) = Some p) (hbynm ctx ! nm_bucket p)
        else None)"

definition find_by_inode :: "lsof_context \<Rightarrow> lfile \<Rightarrow> nat \<Rightarrow> nat option" where
  "find_by_inode ctx l search_type =
    (if search_type < 2 \<and> hbyfdi_ct ctx \<noteq> 0 \<and> lf_dev_def l \<and> (lf_inp_ty l = 1 \<or> lf_inp_ty l = 3)
     then find (\<lambda>k. lf_dev l = sf_dev (sfiles ctx ! k) \<and> lf_inode l = sf_i (sfiles ctx ! k))
       (hbyfdi ctx ! fdi_bucket (lf_dev l, lf_inode l))
     else None)"

definition find_by_fs :: "lsof_context \<Rightarrow> lfile \<Rightarrow> nat \<Rightarrow> cstring option \<Rightarrow> mounts option \<Rightarrow> nat option" where
  "find_by_fs ctx l search_type path nfs_mount =
    (if search_type = 1 \<and> hbyfsd_ct ctx \<noteq> 0 \<and> lf_dev_def l
     then find (\<lambda>k. fs_match l path nfs_mount (sfiles ctx ! k)) (hbyfsd ctx ! fsd_bucket (lf_dev l))
     else None)"

definition find_by_rdev :: "lsof_context \<Rightarrow> lfile \<Rightarrow> nat \<Rightarrow> bool \<Rightarrow> nat option" where
  "find_by_rdev ctx l search_type cd =
    (if search_type = 0 \<and> hbyfrd_ct ctx \<noteq> 0 \<and> cd \<and> lf_dev_def l \<and> lf_dev l = devdev ctx
        \<and> lf_rdev_def l \<and> (lf_inp_ty l = 1 \<or> lf_inp_ty l = 3)
     then find (\<lambda>k. sf_dev (sfiles ctx ! k) = lf_dev l \<and> sf_rdev (sfiles ctx ! k) = lf_rdev l
            \<and> sf_i (sfiles ctx ! k) = lf_inode l)
       (hbyfrd ctx ! frd_bucket (lf_dev l, lf_rdev l, lf_inode l))
     else None)"

definition MAXPATHLEN :: nat where "MAXPATHLEN = 4096"

definition cstr_arg :: "cstring option \<Rightarrow> cstring" where
  "cstr_arg s = (case s of None \<Rightarrow> ''(null)'' | Some t \<Rightarrow> t)"

definition mark_found :: "nat \<Rightarrow> lsof_context \<Rightarrow> lsof_context" where
  "mark_found k ctx = ctx\<lparr> sfiles := (sfiles ctx)[k := (sfiles ctx ! k)\<lparr> sf_f := True \<rparr>] \<rparr>"

definition named_by_inode :: "nat \<Rightarrow> lsof_context \<Rightarrow> lsof_context" where
  "named_by_inode k ctx =
    (let s = sfiles ctx ! k in
      if sf_type s \<noteq> 0 then
        ctx\<lparr> namech := take MAXPATHLEN (cstr_arg (sf_name s)
               @ (case sf_devnm s of None \<Rightarrow> [] | Some d \<Rightarrow> '' ('' @ d @ '')'')) \<rparr>
      else ctx)"

definition is_file_named ::
  "lsof_context \<Rightarrow> lfile \<Rightarrow> nat \<Rightarrow> cstring option \<Rightarrow> mounts option \<Rightarrow> bool \<Rightarrow> bool \<times> lsof_context" where
  "is_file_named ctx l search_type path nfs_mount cd =
    (case find_by_path ctx search_type path of
       Some k \<Rightarrow> (True, mark_found k (ctx\<lparr> namech := take MAXPATHLEN (cstr_arg path) \<rparr>))
     | None \<Rightarrow>
        (case find_by_inode ctx l search_type of
           Some k \<Rightarrow> (True, mark_found k (named_by_inode k ctx))
         | None \<Rightarrow>
            (case find_by_fs ctx l search_type path nfs_mount of
               Some k \<Rightarrow> (True, mark_found k (named_by_inode k ctx))
             | None \<Rightarrow>
                (case find_by_rdev ctx l search_type cd of
                   Some k \<Rightarrow> (True, mark_found k (named_by_inode k ctx))
                 | None \<Rightarrow> (False, ctx)))))"

section \<open>The contract of a hashed index\<close>

text \<open>
  A table of chains with a bucket function that stays in range.  Looking for an element through
  the bucket of a query finds one exactly when a scan of everything entered would, provided that
  whatever the search accepts hashes like the query.
\<close>

definition keyed :: "('s \<Rightarrow> 'k option) \<Rightarrow> (nat \<times> 's) list \<Rightarrow> ('k \<times> nat) list" where
  "keyed f xs = concat (map (\<lambda>(k, s). case f s of None \<Rightarrow> [] | Some a \<Rightarrow> [(a, k)]) xs)"

definition enter_all :: "('k \<Rightarrow> nat) \<Rightarrow> ('k \<times> nat) list \<Rightarrow> nat list list \<Rightarrow> nat list list" where
  "enter_all idx es tab = fold (\<lambda>(a, k). bucket_add (idx a) k) es tab"

lemma set_chain_insert [simp]: "set (chain_insert x c) = insert x (set c)"
  by (cases c) auto

lemma length_bucket_add [simp]: "length (bucket_add b x tab) = length tab"
  by (simp add: bucket_add_def)

lemma set_bucket_add:
  "i < length tab \<Longrightarrow> set (bucket_add b x tab ! i) = (if i = b then insert x (set (tab ! i)) else set (tab ! i))"
  by (auto simp: bucket_add_def nth_list_update)

lemma keyed_Nil [simp]: "keyed f [] = []"
  by (simp add: keyed_def)

lemma keyed_Cons: "keyed f ((k, s) # xs) = (case f s of None \<Rightarrow> [] | Some a \<Rightarrow> [(a, k)]) @ keyed f xs"
  by (simp add: keyed_def)

lemma keyed_enumerate:
  "(a, k) \<in> set (keyed f (enumerate 0 ss)) \<longleftrightarrow> k < length ss \<and> f (ss ! k) = Some a"
  by (force simp: keyed_def in_set_enumerate_eq split: option.splits)

lemma keyed_empty_iff:
  "keyed f (enumerate 0 ss) = [] \<longleftrightarrow> (\<forall>k < length ss. f (ss ! k) = None)"
proof -
  have "keyed f (enumerate 0 ss) = [] \<longleftrightarrow> (\<forall>a k. (a, k) \<notin> set (keyed f (enumerate 0 ss)))"
    by (auto simp: neq_Nil_conv) (metis list.set_intros(1) list.exhaust surj_pair)
  then show ?thesis by (simp add: keyed_enumerate) (metis option.exhaust option.distinct(1))
qed

lemma enter_all_Nil [simp]: "enter_all idx [] tab = tab"
  by (simp add: enter_all_def)

lemma enter_all_append: "enter_all idx (xs @ ys) tab = enter_all idx ys (enter_all idx xs tab)"
  by (simp add: enter_all_def)

locale hash_index =
  fixes idx :: "'k \<Rightarrow> nat" and n :: nat
  assumes idx_less: "idx a < n"
begin

lemma entered:
  assumes "length tab = n" and "i < n"
  shows "x \<in> set (enter_all idx es tab ! i) \<longleftrightarrow> x \<in> set (tab ! i) \<or> (\<exists>a. (a, x) \<in> set es \<and> idx a = i)"
  using assms
proof (induction es arbitrary: tab)
  case (Cons e es)
  obtain a k where e: "e = (a, k)" by force
  show ?case
    using Cons.IH [of "bucket_add (idx a) k tab"] Cons.prems
    by (auto simp: e enter_all_def set_bucket_add)
qed simp

lemma search_complete:
  assumes same: "\<And>k a. k < length ss \<Longrightarrow> f (ss ! k) = Some a \<Longrightarrow> P k \<Longrightarrow> idx a = idx q"
  shows "find P (enter_all idx (keyed f (enumerate 0 ss)) (replicate n []) ! idx q) \<noteq> None
    \<longleftrightarrow> (\<exists>k < length ss. f (ss ! k) \<noteq> None \<and> P k)"
  using same entered [of "replicate n []" "idx q" _ "keyed f (enumerate 0 ss)"] idx_less [of q]
  by (auto simp: find_None_iff keyed_enumerate)

lemma guarded_search:
  assumes "\<And>k a. k < length ss \<Longrightarrow> f (ss ! k) = Some a \<Longrightarrow> P k \<Longrightarrow> idx a = idx q"
    and "ss \<noteq> [] \<Longrightarrow> tab = enter_all idx (keyed f (enumerate 0 ss)) (replicate n [])"
  shows "length (keyed f (enumerate 0 ss)) \<noteq> 0 \<and> find P (tab ! idx q) \<noteq> None
    \<longleftrightarrow> (\<exists>k < length ss. f (ss ! k) \<noteq> None \<and> P k)"
proof (cases "ss = []")
  case False
  then show ?thesis
    using search_complete [of ss f P q] assms(1) unfolding assms(2) [OF False]
    by (auto simp: keyed_empty_iff)
qed simp

lemma search_sound:
  assumes "find P (enter_all idx (keyed f (enumerate 0 ss)) (replicate n []) ! idx q) = Some k"
  shows "k < length ss \<and> f (ss ! k) \<noteq> None \<and> P k"
proof -
  have "k \<in> set (enter_all idx (keyed f (enumerate 0 ss)) (replicate n []) ! idx q)" and "P k"
    using assms by (auto simp: find_Some_iff)
  then show ?thesis
    using entered [of "replicate n []" "idx q" k "keyed f (enumerate 0 ss)"] idx_less [of q]
    by (auto simp: keyed_enumerate)
qed

end

lemma and_mask_less: "0 \<le> m \<Longrightarrow> m < int c \<Longrightarrow> 0 < c \<Longrightarrow> nat (x AND m) < c"
  by (simp add: nat_less_iff)

interpretation by_name: hash_index nm_bucket "nat SFNMHASH"
  by unfold_locales (simp add: nm_bucket_def hashbyname_def and_mask_less SFNMHASH_def)

interpretation by_inode: hash_index fdi_bucket "nat SFDIHASH"
  by unfold_locales (simp add: fdi_bucket_def SFHASHDEVINO_def and_mask_less SFDIHASH_def)

interpretation by_fs: hash_index fsd_bucket "nat SFFSHASH"
  by unfold_locales (simp add: fsd_bucket_def SFHASHDEVINO_def and_mask_less SFFSHASH_def)

interpretation by_rdev: hash_index frd_bucket "nat SFRDHASH"
  by unfold_locales (simp add: frd_bucket_def SFHASHRDEVI_def and_mask_less SFRDHASH_def split: prod.split)

section \<open>The tables hold the search arguments\<close>

definition fdi_key :: "sfile \<Rightarrow> (64 word \<times> 64 word) option" where
  "fdi_key s = (if sf_type s \<noteq> 0 then Some (sf_dev s, sf_i s) else None)"

definition fsd_key :: "sfile \<Rightarrow> 64 word option" where
  "fsd_key s = (if sf_type s \<noteq> 0 then None else Some (sf_dev s))"

definition frd_key :: "sfile \<Rightarrow> (64 word \<times> 64 word \<times> 64 word) option" where
  "frd_key s = (if sf_mode s = S_IFCHR \<or> sf_mode s = S_IFBLK
    then Some (sf_dev s, sf_rdev s, sf_i s) else None)"

lemmas hash_entry_defs = hash_sfile_entry_def hash_by_name_def hash_by_dev_def hash_by_rdev_def

lemma hash_entries:
  "hbynm (fold hash_sfile_entry xs ctx) = enter_all nm_bucket (keyed sf_aname xs) (hbynm ctx)"
  "hbyfdi (fold hash_sfile_entry xs ctx) = enter_all fdi_bucket (keyed fdi_key xs) (hbyfdi ctx)"
  "hbyfsd (fold hash_sfile_entry xs ctx) = enter_all fsd_bucket (keyed fsd_key xs) (hbyfsd ctx)"
  "hbyfrd (fold hash_sfile_entry xs ctx) = enter_all frd_bucket (keyed frd_key xs) (hbyfrd ctx)"
  by (induction xs arbitrary: ctx)
     (auto simp: hash_entry_defs keyed_Cons enter_all_append fdi_key_def fsd_key_def frd_key_def
       enter_all_def split: option.splits)

lemma hash_counts:
  "hbynm_ct (fold hash_sfile_entry xs ctx) = hbynm_ct ctx + length (keyed sf_aname xs)"
  "hbyfdi_ct (fold hash_sfile_entry xs ctx) = hbyfdi_ct ctx + length (keyed fdi_key xs)"
  "hbyfsd_ct (fold hash_sfile_entry xs ctx) = hbyfsd_ct ctx + length (keyed fsd_key xs)"
  "hbyfrd_ct (fold hash_sfile_entry xs ctx) = hbyfrd_ct ctx + length (keyed frd_key xs)"
  by (induction xs arbitrary: ctx)
     (auto simp: hash_entry_defs keyed_Cons fdi_key_def fsd_key_def frd_key_def split: option.splits)

lemma hash_frame:
  "sfiles (fold hash_sfile_entry xs ctx) = sfiles ctx"
  "devdev (fold hash_sfile_entry xs ctx) = devdev ctx"
  by (induction xs arbitrary: ctx) (auto simp: hash_entry_defs split: option.splits)

section \<open>Search by scanning\<close>

text \<open>
  What \<open>is_file_named\<close> promises, without any table: the entries that match the current file by
  path, by device and inode, by file system, or by raw device.
\<close>

definition lf_has_inode :: "lfile \<Rightarrow> bool" where
  "lf_has_inode l \<longleftrightarrow> lf_dev_def l \<and> (lf_inp_ty l = 1 \<or> lf_inp_ty l = 3)"

definition named_entry ::
  "lsof_context \<Rightarrow> lfile \<Rightarrow> nat \<Rightarrow> cstring option \<Rightarrow> mounts option \<Rightarrow> bool \<Rightarrow> sfile \<Rightarrow> bool" where
  "named_entry ctx l search_type path nfs_mount cd s \<longleftrightarrow>
     search_type = 2 \<and> path \<noteq> None \<and> sf_aname s = path
   \<or> search_type < 2 \<and> lf_has_inode l \<and> fdi_key s = Some (lf_dev l, lf_inode l)
   \<or> search_type = 1 \<and> lf_dev_def l \<and> sf_type s = 0 \<and> fs_match l path nfs_mount s
   \<or> search_type = 0 \<and> cd \<and> lf_has_inode l \<and> lf_dev l = devdev ctx \<and> lf_rdev_def l
       \<and> frd_key s = Some (lf_dev l, lf_rdev l, lf_inode l)"

text \<open>The tables of a context before \<open>hashSfile\<close>: no argument counted.\<close>

definition unhashed :: "lsof_context \<Rightarrow> bool" where
  "unhashed ctx \<longleftrightarrow> \<not> hs ctx \<and> hbynm_ct ctx = 0 \<and> hbyfdi_ct ctx = 0 \<and> hbyfsd_ct ctx = 0 \<and> hbyfrd_ct ctx = 0"

lemma hashSfile_frame [simp]:
  "sfiles (hashSfile ctx) = sfiles ctx" "devdev (hashSfile ctx) = devdev ctx"
  by (simp_all add: hashSfile_def hash_frame)

lemma hashSfile_tables:
  assumes "unhashed ctx" and "sfiles ctx \<noteq> []"
  shows "hbynm (hashSfile ctx) =
      enter_all nm_bucket (keyed sf_aname (enumerate 0 (sfiles ctx))) (replicate (nat SFNMHASH) [])"
    and "hbyfdi (hashSfile ctx) =
      enter_all fdi_bucket (keyed fdi_key (enumerate 0 (sfiles ctx))) (replicate (nat SFDIHASH) [])"
    and "hbyfsd (hashSfile ctx) =
      enter_all fsd_bucket (keyed fsd_key (enumerate 0 (sfiles ctx))) (replicate (nat SFFSHASH) [])"
    and "hbyfrd (hashSfile ctx) =
      enter_all frd_bucket (keyed frd_key (enumerate 0 (sfiles ctx))) (replicate (nat SFRDHASH) [])"
  using assms by (simp_all add: hashSfile_def unhashed_def hash_entries)

lemma hashSfile_counts:
  assumes "unhashed ctx"
  shows "hbynm_ct (hashSfile ctx) = length (keyed sf_aname (enumerate 0 (sfiles ctx)))"
    and "hbyfdi_ct (hashSfile ctx) = length (keyed fdi_key (enumerate 0 (sfiles ctx)))"
    and "hbyfsd_ct (hashSfile ctx) = length (keyed fsd_key (enumerate 0 (sfiles ctx)))"
    and "hbyfrd_ct (hashSfile ctx) = length (keyed frd_key (enumerate 0 (sfiles ctx)))"
  using assms by (simp_all add: hashSfile_def unhashed_def hash_counts)

lemma find_guard:
  "(if g \<and> c \<noteq> 0 then x else None) \<noteq> None \<longleftrightarrow> g \<and> (c \<noteq> (0::nat) \<and> x \<noteq> None)"
  by simp

lemma find_by_path_iff:
  assumes "unhashed ctx"
  shows "find_by_path (hashSfile ctx) st path \<noteq> None \<longleftrightarrow>
    st = 2 \<and> path \<noteq> None \<and> (\<exists>k < length (sfiles ctx). sf_aname (sfiles ctx ! k) = path)"
proof (cases path)
  case (Some p)
  have "find_by_path (hashSfile ctx) st path \<noteq> None \<longleftrightarrow>
      st = 2 \<and> (\<exists>k < length (sfiles ctx). sf_aname (sfiles ctx ! k) \<noteq> None \<and> sf_aname (sfiles ctx ! k) = Some p)"
    unfolding find_by_path_def Some option.case find_guard hashSfile_frame hashSfile_counts(1) [OF assms]
    by (subst by_name.guarded_search) (auto simp: hashSfile_tables [OF assms])
  then show ?thesis using Some by auto
qed (simp add: find_by_path_def)

lemma find_by_inode_iff:
  assumes "unhashed ctx"
  shows "find_by_inode (hashSfile ctx) l st \<noteq> None \<longleftrightarrow>
    st < 2 \<and> lf_has_inode l
      \<and> (\<exists>k < length (sfiles ctx). fdi_key (sfiles ctx ! k) = Some (lf_dev l, lf_inode l))"
proof -
  let ?P = "\<lambda>k. lf_dev l = sf_dev (sfiles ctx ! k) \<and> lf_inode l = sf_i (sfiles ctx ! k)"
  have "find_by_inode (hashSfile ctx) l st \<noteq> None \<longleftrightarrow>
      (st < 2 \<and> lf_has_inode l) \<and> hbyfdi_ct (hashSfile ctx) \<noteq> 0
        \<and> find ?P (hbyfdi (hashSfile ctx) ! fdi_bucket (lf_dev l, lf_inode l)) \<noteq> None"
    by (auto simp: find_by_inode_def lf_has_inode_def)
  also have "\<dots> \<longleftrightarrow> (st < 2 \<and> lf_has_inode l)
      \<and> (\<exists>k < length (sfiles ctx). fdi_key (sfiles ctx ! k) \<noteq> None \<and> ?P k)"
    unfolding hashSfile_counts(2) [OF assms]
    by (subst by_inode.guarded_search) (auto simp: hashSfile_tables [OF assms] fdi_key_def split: if_splits)
  finally show ?thesis by (auto simp: fdi_key_def split: if_splits)
qed

lemma find_by_fs_iff:
  assumes "unhashed ctx"
  shows "find_by_fs (hashSfile ctx) l st path m \<noteq> None \<longleftrightarrow>
    st = 1 \<and> lf_dev_def l
      \<and> (\<exists>k < length (sfiles ctx). sf_type (sfiles ctx ! k) = 0 \<and> fs_match l path m (sfiles ctx ! k))"
proof -
  let ?P = "\<lambda>k. fs_match l path m (sfiles ctx ! k)"
  have "find_by_fs (hashSfile ctx) l st path m \<noteq> None \<longleftrightarrow>
      (st = 1 \<and> lf_dev_def l) \<and> hbyfsd_ct (hashSfile ctx) \<noteq> 0
        \<and> find ?P (hbyfsd (hashSfile ctx) ! fsd_bucket (lf_dev l)) \<noteq> None"
    by (auto simp: find_by_fs_def)
  also have "\<dots> \<longleftrightarrow> (st = 1 \<and> lf_dev_def l)
      \<and> (\<exists>k < length (sfiles ctx). fsd_key (sfiles ctx ! k) \<noteq> None \<and> ?P k)"
    unfolding hashSfile_counts(3) [OF assms]
    by (subst by_fs.guarded_search) (auto simp: hashSfile_tables [OF assms] fsd_key_def fs_match_def split: if_splits)
  finally show ?thesis by (auto simp: fsd_key_def split: if_splits)
qed

lemma find_by_rdev_iff:
  assumes "unhashed ctx"
  shows "find_by_rdev (hashSfile ctx) l st cd \<noteq> None \<longleftrightarrow>
    st = 0 \<and> cd \<and> lf_has_inode l \<and> lf_dev l = devdev ctx \<and> lf_rdev_def l
      \<and> (\<exists>k < length (sfiles ctx). frd_key (sfiles ctx ! k) = Some (lf_dev l, lf_rdev l, lf_inode l))"
proof -
  let ?P = "\<lambda>k. sf_dev (sfiles ctx ! k) = lf_dev l \<and> sf_rdev (sfiles ctx ! k) = lf_rdev l
      \<and> sf_i (sfiles ctx ! k) = lf_inode l"
  let ?g = "st = 0 \<and> cd \<and> lf_has_inode l \<and> lf_dev l = devdev ctx \<and> lf_rdev_def l"
  have "find_by_rdev (hashSfile ctx) l st cd \<noteq> None \<longleftrightarrow>
      ?g \<and> hbyfrd_ct (hashSfile ctx) \<noteq> 0
        \<and> find ?P (hbyfrd (hashSfile ctx) ! frd_bucket (lf_dev l, lf_rdev l, lf_inode l)) \<noteq> None"
    by (auto simp: find_by_rdev_def lf_has_inode_def)
  also have "\<dots> \<longleftrightarrow> ?g \<and> (\<exists>k < length (sfiles ctx). frd_key (sfiles ctx ! k) \<noteq> None \<and> ?P k)"
    unfolding hashSfile_counts(4) [OF assms]
    by (subst by_rdev.guarded_search) (auto simp: hashSfile_tables [OF assms] frd_key_def split: if_splits)
  finally show ?thesis by (auto simp: frd_key_def split: if_splits)
qed

lemma hash_ct_nonempty:
  assumes "unhashed ctx" and "hbynm_ct (hashSfile ctx) \<noteq> 0 \<or> hbyfdi_ct (hashSfile ctx) \<noteq> 0
    \<or> hbyfsd_ct (hashSfile ctx) \<noteq> 0 \<or> hbyfrd_ct (hashSfile ctx) \<noteq> 0"
  shows "sfiles ctx \<noteq> []"
  using assms by (auto simp: hashSfile_counts)

lemma find_by_path_entry:
  assumes "unhashed ctx" and "find_by_path (hashSfile ctx) st path = Some k"
  shows "k < length (sfiles ctx) \<and> named_entry ctx l st path m cd (sfiles ctx ! k)"
  using assms hash_ct_nonempty [OF assms(1)] by_name.search_sound [of _ sf_aname "sfiles ctx" _ k]
  by (fastforce simp: find_by_path_def named_entry_def hashSfile_tables split: option.splits if_splits)

lemma find_by_inode_entry:
  assumes "unhashed ctx" and "find_by_inode (hashSfile ctx) l st = Some k"
  shows "k < length (sfiles ctx) \<and> named_entry ctx l st path m cd (sfiles ctx ! k)"
proof -
  have g: "st < 2" "lf_has_inode l" "hbyfdi_ct (hashSfile ctx) \<noteq> 0"
    using assms(2) by (auto simp: find_by_inode_def lf_has_inode_def split: if_splits)
  then have "sfiles ctx \<noteq> []" using hash_ct_nonempty [OF assms(1)] by blast
  then have "k < length (sfiles ctx) \<and> fdi_key (sfiles ctx ! k) \<noteq> None
      \<and> lf_dev l = sf_dev (sfiles ctx ! k) \<and> lf_inode l = sf_i (sfiles ctx ! k)"
    using assms by (intro by_inode.search_sound [where q = "(lf_dev l, lf_inode l)"])
      (simp add: find_by_inode_def hashSfile_tables split: if_splits)
  then show ?thesis using g by (auto simp: named_entry_def fdi_key_def split: if_splits)
qed

lemma find_by_fs_entry:
  assumes "unhashed ctx" and "find_by_fs (hashSfile ctx) l st path m = Some k"
  shows "k < length (sfiles ctx) \<and> named_entry ctx l st path m cd (sfiles ctx ! k)"
proof -
  have g: "st = 1" "lf_dev_def l" "hbyfsd_ct (hashSfile ctx) \<noteq> 0"
    using assms(2) by (auto simp: find_by_fs_def split: if_splits)
  then have "sfiles ctx \<noteq> []" using hash_ct_nonempty [OF assms(1)] by blast
  then have "k < length (sfiles ctx) \<and> fsd_key (sfiles ctx ! k) \<noteq> None
      \<and> fs_match l path m (sfiles ctx ! k)"
    using assms by (intro by_fs.search_sound [where q = "lf_dev l"])
      (simp add: find_by_fs_def hashSfile_tables split: if_splits)
  then show ?thesis using g by (auto simp: named_entry_def fsd_key_def split: if_splits)
qed

lemma find_by_rdev_entry:
  assumes "unhashed ctx" and "find_by_rdev (hashSfile ctx) l st cd = Some k"
  shows "k < length (sfiles ctx) \<and> named_entry ctx l st path m cd (sfiles ctx ! k)"
proof -
  have g: "st = 0" "cd" "lf_has_inode l" "lf_dev l = devdev ctx" "lf_rdev_def l"
      "hbyfrd_ct (hashSfile ctx) \<noteq> 0"
    using assms(2) by (auto simp: find_by_rdev_def lf_has_inode_def split: if_splits)
  then have "sfiles ctx \<noteq> []" using hash_ct_nonempty [OF assms(1)] by blast
  then have "k < length (sfiles ctx) \<and> frd_key (sfiles ctx ! k) \<noteq> None
      \<and> (sf_dev (sfiles ctx ! k) = lf_dev l \<and> sf_rdev (sfiles ctx ! k) = lf_rdev l
      \<and> sf_i (sfiles ctx ! k) = lf_inode l)"
    using assms by (intro by_rdev.search_sound [where q = "(lf_dev l, lf_rdev l, lf_inode l)"])
      (simp add: find_by_rdev_def hashSfile_tables split: if_splits)
  then show ?thesis using g by (auto simp: named_entry_def frd_key_def split: if_splits)
qed

lemma mark_found_sfiles [simp]:
  "sfiles (mark_found k ctx) = (sfiles ctx)[k := (sfiles ctx ! k)\<lparr> sf_f := True \<rparr>]"
  by (simp add: mark_found_def)

lemma named_by_inode_sfiles [simp]: "sfiles (named_by_inode k ctx) = sfiles ctx"
  by (simp add: named_by_inode_def Let_def)

section \<open>Properties\<close>

text \<open>
  C2: searching through the hash tables that \<open>hashSfile\<close> builds is equivalent to scanning the list
  of file arguments: \<open>is_file_named\<close> accepts the current file exactly when some argument matches it
  by path, by device and inode, by file system, or by raw device.
\<close>

theorem is_file_named_iff:
  assumes "unhashed ctx"
  shows "fst (is_file_named (hashSfile ctx) l st path m cd) \<longleftrightarrow>
    (\<exists>s \<in> set (sfiles ctx). named_entry ctx l st path m cd s)"
proof -
  have "fst (is_file_named (hashSfile ctx) l st path m cd) \<longleftrightarrow>
      find_by_path (hashSfile ctx) st path \<noteq> None \<or> find_by_inode (hashSfile ctx) l st \<noteq> None
      \<or> find_by_fs (hashSfile ctx) l st path m \<noteq> None \<or> find_by_rdev (hashSfile ctx) l st cd \<noteq> None"
    by (simp add: is_file_named_def split: option.split)
  also have "\<dots> \<longleftrightarrow> (\<exists>k < length (sfiles ctx). named_entry ctx l st path m cd (sfiles ctx ! k))"
    unfolding find_by_path_iff [OF assms] find_by_inode_iff [OF assms] find_by_fs_iff [OF assms]
      find_by_rdev_iff [OF assms] named_entry_def
    by blast
  finally show ?thesis by (metis in_set_conv_nth)
qed

definition sample_sfile :: sfile where
  "sample_sfile = \<lparr> sf_aname = Some ''/tmp/x'', sf_name = Some ''/tmp/x'', sf_devnm = None, sf_dev = 2049,
    sf_rdev = 0, sf_mode = 32768, sf_type = 1, sf_i = 42, sf_f = False, sf_mp = None \<rparr>"

theorem is_file_named_iff_witness:
  "\<forall>l. fst (is_file_named (hashSfile (lsof_new\<lparr> sfiles := [sample_sfile] \<rparr>)) l 2 (Some ''/tmp/x'') None False)"
  using is_file_named_iff [of "lsof_new\<lparr> sfiles := [sample_sfile] \<rparr>" _ 2 "Some ''/tmp/x''" None False]
  by (simp add: unhashed_def lsof_new_def sample_sfile_def named_entry_def)

text \<open>
  When \<open>is_file_named\<close> accepts a file, the one argument it marks as found (which decides the
  exit status) is one that matches, and no other argument is touched.
\<close>

theorem is_file_named_marks:
  assumes "unhashed ctx" and "is_file_named (hashSfile ctx) l st path m cd = (True, ctx')"
  shows "\<exists>k < length (sfiles ctx). named_entry ctx l st path m cd (sfiles ctx ! k)
    \<and> sfiles ctx' = (sfiles ctx)[k := (sfiles ctx ! k)\<lparr> sf_f := True \<rparr>]"
proof -
  obtain k where k: "sfiles ctx' = (sfiles ctx)[k := (sfiles ctx ! k)\<lparr> sf_f := True \<rparr>]"
    and f: "find_by_path (hashSfile ctx) st path = Some k \<or> find_by_inode (hashSfile ctx) l st = Some k
      \<or> find_by_fs (hashSfile ctx) l st path m = Some k \<or> find_by_rdev (hashSfile ctx) l st cd = Some k"
    using assms(2) by (auto simp: is_file_named_def split: option.splits)
  from f have "k < length (sfiles ctx) \<and> named_entry ctx l st path m cd (sfiles ctx ! k)"
    using find_by_path_entry [OF assms(1), of st path k l m cd]
      find_by_inode_entry [OF assms(1), of l st k path m cd]
      find_by_fs_entry [OF assms(1), of l st path m k cd]
      find_by_rdev_entry [OF assms(1), of l st cd k path m]
    by blast
  with k show ?thesis by blast
qed

theorem is_file_named_marks_witness:
  "\<forall>l. \<exists>k < 1. named_entry lsof_new l 2 (Some ''/tmp/x'') None False ([sample_sfile] ! k)"
proof
  fix l
  let ?c = "lsof_new\<lparr> sfiles := [sample_sfile] \<rparr>"
  let ?r = "is_file_named (hashSfile ?c) l 2 (Some ''/tmp/x'') None False"
  have un: "unhashed ?c" by (simp add: unhashed_def lsof_new_def)
  have "fst ?r"
    using find_by_path_iff [OF un, of 2 "Some ''/tmp/x''"]
    by (auto simp: sample_sfile_def is_file_named_def split: option.splits)
  then have "?r = (True, snd ?r)" by (metis prod.collapse)
  then show "\<exists>k < 1. named_entry lsof_new l 2 (Some ''/tmp/x'') None False ([sample_sfile] ! k)"
    using is_file_named_marks [OF un] by (fastforce simp: named_entry_def)
qed

end
