(* ===== verification/Selection.thy ===== *)
theory Selection
  imports File_Search
begin

text \<open>
  The selection interface of the library (\<open>lib/lsof.c\<close>): the calls that record which processes a
  caller wants, and \<open>lsof_freeze\<close>, after which no call may change the request.  A call returns the
  \<open>lsof_error\<close> of the code with the new context, or the exit status when it reaches \<open>Error\<close>.  The
  argument \<open>exclude\<close> is the truth value documented in \<open>include/lsof.h\<close>; \<open>getpwnam\<close> and \<open>regcomp\<close>
  are arguments of the calls that use them.
\<close>

section \<open>Simple switches\<close>

definition LSOF_EXIT_ERROR :: int where "LSOF_EXIT_ERROR = 1"

definition lsof_avoid_blocking :: "bool \<Rightarrow> lsof_context \<Rightarrow> lsof_error \<times> lsof_context" where
  "lsof_avoid_blocking avoid ctx =
    (if frozen ctx then (LSOF_ERROR_INVALID_ARGUMENT, ctx)
     else (LSOF_SUCCESS, ctx\<lparr> fblock := avoid \<rparr>))"

definition lsof_avoid_forking :: "bool \<Rightarrow> lsof_context \<Rightarrow> lsof_error \<times> lsof_context" where
  "lsof_avoid_forking avoid ctx =
    (if frozen ctx then (LSOF_ERROR_INVALID_ARGUMENT, ctx)
     else (LSOF_SUCCESS, ctx\<lparr> fovhd := avoid \<rparr>))"

definition lsof_logic_and :: "lsof_context \<Rightarrow> lsof_error \<times> lsof_context" where
  "lsof_logic_and ctx =
    (if frozen ctx then (LSOF_ERROR_INVALID_ARGUMENT, ctx)
     else (LSOF_SUCCESS, ctx\<lparr> fand := True \<rparr>))"

section \<open>Command names\<close>

definition MAXSYSCMDL :: nat where "MAXSYSCMDL = 15"

definition lsof_select_process :: "cstring \<Rightarrow> bool \<Rightarrow> lsof_context \<Rightarrow> lsof_error \<times> lsof_context" where
  "lsof_select_process command exclude ctx =
    (if frozen ctx then (LSOF_ERROR_INVALID_ARGUMENT, ctx)
     else if list_ex (\<lambda>e. sl_x e \<noteq> exclude \<and> sl_str e = command) (cmdl ctx)
       then (LSOF_ERROR_INVALID_ARGUMENT, ctx)
     else let (cp, len) = mkstrcpy (Some command) in
       if MAXSYSCMDL < len then (LSOF_ERROR_INVALID_ARGUMENT, ctx)
       else
         (let lpt = \<lparr> sl_str = cp, sl_len = len, sl_f = False, sl_x = exclude \<rparr>;
              ctx1 = (if exclude then ctx\<lparr> cmdnx := cmdnx ctx + 1 \<rparr>
                      else ctx\<lparr> cmdni := cmdni ctx + 1, selflags := selflags ctx OR SELCMD \<rparr>) in
          (LSOF_SUCCESS, ctx1\<lparr> cmdl := lpt # cmdl ctx1 \<rparr>)))"

section \<open>Command expressions\<close>

definition REG_EXTENDED :: flags32 where [flag_simps]: "REG_EXTENDED = 1"
definition REG_ICASE :: flags32 where [flag_simps]: "REG_ICASE = 2"
definition REG_NOSUB :: flags32 where [flag_simps]: "REG_NOSUB = 8"

record rx_mods =
  rm_bmod :: nat
  rm_bxmod :: nat
  rm_imod :: nat
  rm_xmod :: nat
  rm_co :: flags32
  rm_bad :: bool

definition rx_mods_init :: rx_mods where
  "rx_mods_init = \<lparr> rm_bmod = 0, rm_bxmod = 0, rm_imod = 0, rm_xmod = 0,
    rm_co = REG_NOSUB OR REG_EXTENDED, rm_bad = False \<rparr>"

definition rx_modifier :: "char \<Rightarrow> rx_mods \<Rightarrow> rx_mods" where
  "rx_modifier c r =
    (if c = CHR ''b'' then
       (let r = r\<lparr> rm_bmod := rm_bmod r + 1 \<rparr> in
        if 1 < rm_bmod r then r\<lparr> rm_bad := True \<rparr>
        else if rm_xmod r \<noteq> 0 then r\<lparr> rm_bxmod := rm_bxmod r + 1, rm_bad := True \<rparr>
        else r\<lparr> rm_co := rm_co r AND NOT REG_EXTENDED \<rparr>)
     else if c = CHR ''i'' then
       (let r = r\<lparr> rm_imod := rm_imod r + 1 \<rparr> in
        if 1 < rm_imod r then r\<lparr> rm_bad := True \<rparr>
        else r\<lparr> rm_co := rm_co r OR REG_ICASE \<rparr>)
     else if c = CHR ''x'' then
       (let r = r\<lparr> rm_xmod := rm_xmod r + 1 \<rparr> in
        if 1 < rm_xmod r then r\<lparr> rm_bad := True \<rparr>
        else if rm_bmod r \<noteq> 0 then r\<lparr> rm_bxmod := rm_bxmod r + 1, rm_bad := True \<rparr>
        else r\<lparr> rm_co := rm_co r OR REG_EXTENDED \<rparr>)
     else r\<lparr> rm_bad := True \<rparr>)"

definition rx_grow :: "lsof_context \<Rightarrow> lsof_context run" where
  "rx_grow ctx =
    (if ncmdrxa ctx \<le> int (length (cmdrx ctx)) then
       (case grow_array (ncmdrxa ctx) 80 32 of
          None \<Rightarrow> Exited LSOF_EXIT_ERROR
        | Some (cap, _) \<Rightarrow> Done (ctx\<lparr> ncmdrxa := cap \<rparr>))
     else Done ctx)"

definition rx_enter ::
  "(cstring \<Rightarrow> flags32 \<Rightarrow> bool) \<Rightarrow> cstring \<Rightarrow> flags32 \<Rightarrow> lsof_context \<Rightarrow> (lsof_error \<times> lsof_context) run" where
  "rx_enter regcomp xp co ctx =
    (case rx_grow ctx of
       Exited v \<Rightarrow> Exited v
     | Done ctx1 \<Rightarrow> Done
         (if \<not> regcomp xp co then (LSOF_ERROR_INVALID_ARGUMENT, ctx1)
          else (LSOF_SUCCESS, ctx1\<lparr> cmdrx := cmdrx ctx1 @ [\<lparr> rx_exp = xp, rx_co = co, rx_mc = False \<rparr>],
                 selflags := selflags ctx1 OR SELCMD \<rparr>)))"

definition lsof_select_process_regex ::
  "(cstring \<Rightarrow> flags32 \<Rightarrow> bool) \<Rightarrow> cstring \<Rightarrow> lsof_context \<Rightarrow> (lsof_error \<times> lsof_context) run" where
  "lsof_select_process_regex regcomp x ctx =
    (if frozen ctx then Done (LSOF_ERROR_INVALID_ARGUMENT, ctx)
     else case x of
       [] \<Rightarrow> Done (LSOF_ERROR_INVALID_ARGUMENT, ctx)
     | c # xb \<Rightarrow>
         if c \<noteq> CHR ''/'' then Done (LSOF_ERROR_INVALID_ARGUMENT, ctx)
         else (case dropWhile (\<lambda>d. d \<noteq> CHR ''/'') xb of
             [] \<Rightarrow> Done (LSOF_ERROR_INVALID_ARGUMENT, ctx)
           | _ # xm \<Rightarrow>
               (let r = fold rx_modifier xm rx_mods_init in
                if rm_bad r then Done (LSOF_ERROR_INVALID_ARGUMENT, ctx)
                else rx_enter regcomp (takeWhile (\<lambda>d. d \<noteq> CHR ''/'') xb) (rm_co r) ctx)))"

section \<open>Process, process group and user identifiers\<close>

definition tab_grow :: "nat \<Rightarrow> 'e sel_tab \<Rightarrow> 'e sel_tab run" where
  "tab_grow elem_size t =
    (if st_cap t \<le> int (length (st_ents t)) then
       (case grow_array (st_cap t) elem_size 10 of
          None \<Rightarrow> Exited LSOF_EXIT_ERROR
        | Some (cap, _) \<Rightarrow> Done (t\<lparr> st_cap := cap \<rparr>))
     else Done t)"

definition tab_append :: "'e \<Rightarrow> bool \<Rightarrow> 'e sel_tab \<Rightarrow> 'e sel_tab" where
  "tab_append e exclude t =
    (let t = t\<lparr> st_ents := st_ents t @ [e] \<rparr> in
      if exclude then t\<lparr> st_excl := st_excl t + 1 \<rparr> else t\<lparr> st_incl := st_incl t + 1 \<rparr>)"

definition select_pid_pgid :: "int \<Rightarrow> bool \<Rightarrow> int_lst sel_tab \<Rightarrow> (lsof_error \<times> bool \<times> int_lst sel_tab) run" where
  "select_pid_pgid i exclude t =
    (case find (\<lambda>e. i = il_i e) (st_ents t) of
       Some e \<Rightarrow> Done (if exclude = il_x e then LSOF_SUCCESS else LSOF_ERROR_INVALID_ARGUMENT, False, t)
     | None \<Rightarrow>
        (case tab_grow 12 t of
           Exited v \<Rightarrow> Exited v
         | Done t1 \<Rightarrow> Done (LSOF_SUCCESS, True,
             tab_append \<lparr> il_i = i, il_f = False, il_x = exclude \<rparr> exclude t1)))"

definition sel_flag :: "bool \<Rightarrow> bool \<Rightarrow> flags32 \<Rightarrow> flags32 \<Rightarrow> flags32" where
  "sel_flag entered exclude f flags = (if entered \<and> \<not> exclude then flags OR f else flags)"

definition lsof_select_pid_pgid ::
  "bool \<Rightarrow> int \<Rightarrow> bool \<Rightarrow> lsof_context \<Rightarrow> (lsof_error \<times> lsof_context) run" where
  "lsof_select_pid_pgid is_pid i exclude ctx =
    (if frozen ctx then Done (LSOF_ERROR_INVALID_ARGUMENT, ctx)
     else case select_pid_pgid i exclude (if is_pid then spid ctx else spgid ctx) of
       Exited v \<Rightarrow> Exited v
     | Done (e, entered, t) \<Rightarrow> Done (e,
         if is_pid
         then ctx\<lparr> spid := t, selflags := sel_flag entered exclude SELPID (selflags ctx) \<rparr>
         else ctx\<lparr> spgid := t, selflags := sel_flag entered exclude SELPGID (selflags ctx) \<rparr>))"

definition lsof_select_pid :: "int \<Rightarrow> bool \<Rightarrow> lsof_context \<Rightarrow> (lsof_error \<times> lsof_context) run" where
  "lsof_select_pid pid exclude ctx =
    (case lsof_select_pid_pgid True (s32 pid) exclude ctx of
       Exited v \<Rightarrow> Exited v
     | Done (e, ctx1) \<Rightarrow> Done (e, ctx1\<lparr> npuns := int (length (st_ents (spid ctx1))) \<rparr>))"

definition lsof_select_pgid :: "int \<Rightarrow> bool \<Rightarrow> lsof_context \<Rightarrow> (lsof_error \<times> lsof_context) run" where
  "lsof_select_pgid pgid exclude ctx = lsof_select_pid_pgid False (s32 pgid) exclude ctx"

definition select_uid_login ::
  "int \<Rightarrow> cstring option \<Rightarrow> bool \<Rightarrow> seluid sel_tab \<Rightarrow> (lsof_error \<times> bool \<times> seluid sel_tab) run" where
  "select_uid_login uid login exclude t =
    (case find (\<lambda>e. uid = su_uid e) (st_ents t) of
       Some e \<Rightarrow> Done (if su_excl e = exclude then LSOF_SUCCESS else LSOF_ERROR_INVALID_ARGUMENT, False, t)
     | None \<Rightarrow>
        (case tab_grow 24 t of
           Exited v \<Rightarrow> Exited v
         | Done t1 \<Rightarrow> Done (LSOF_SUCCESS, True,
             tab_append \<lparr> su_uid = uid, su_lnm = login, su_excl = exclude, su_f = False \<rparr> exclude t1)))"

definition lsof_select_uid_login ::
  "int \<Rightarrow> cstring option \<Rightarrow> bool \<Rightarrow> lsof_context \<Rightarrow> (lsof_error \<times> lsof_context) run" where
  "lsof_select_uid_login uid login exclude ctx =
    (if frozen ctx then Done (LSOF_ERROR_INVALID_ARGUMENT, ctx)
     else case select_uid_login uid login exclude (suid ctx) of
       Exited v \<Rightarrow> Exited v
     | Done (e, entered, t) \<Rightarrow>
         Done (e, ctx\<lparr> suid := t, selflags := sel_flag entered exclude SELUID (selflags ctx) \<rparr>))"

definition lsof_select_uid :: "int \<Rightarrow> bool \<Rightarrow> lsof_context \<Rightarrow> (lsof_error \<times> lsof_context) run" where
  "lsof_select_uid uid exclude ctx = lsof_select_uid_login uid None exclude ctx"

definition lsof_select_login ::
  "(cstring \<Rightarrow> int option) \<Rightarrow> cstring \<Rightarrow> bool \<Rightarrow> lsof_context \<Rightarrow> (lsof_error \<times> lsof_context) run" where
  "lsof_select_login getpwnam login exclude ctx =
    (if frozen ctx then Done (LSOF_ERROR_INVALID_ARGUMENT, ctx)
     else case getpwnam login of
       None \<Rightarrow> Done (LSOF_ERROR_INVALID_ARGUMENT, ctx)
     | Some uid \<Rightarrow> lsof_select_uid_login uid (Some login) exclude ctx)"

section \<open>Freezing\<close>

text \<open>
  \<open>initialize\<close> of the Linux dialect: the conflict of \<open>-X\<close> with \<open>-i\<close> ends the program through
  \<open>usage\<close>; what else it sets (the offset type and the mount table) is not part of this context.
\<close>

definition initialize :: "lsof_context \<Rightarrow> lsof_context run" where
  "initialize ctx =
    (if fxopt ctx \<and> (fnet ctx \<noteq> 0 \<or> nwads ctx \<noteq> []) then Exited LSOF_EXIT_ERROR else Done ctx)"

definition freeze_flags :: "lsof_context \<Rightarrow> lsof_context" where
  "freeze_flags ctx =
    (if selflags ctx = 0 then ctx\<lparr> selflags := selall ctx \<rparr>
     else ctx\<lparr> selinet := selinet ctx \<or> (has_flag (selflags ctx) (SELNA OR SELNET)
                   \<and> selflags ctx AND NOT (SELNA OR SELNET) = 0),
               allproc := False \<rparr>)"

definition lsof_freeze :: "lsof_context \<Rightarrow> (lsof_error \<times> lsof_context) run" where
  "lsof_freeze ctx =
    (if frozen ctx then Done (LSOF_ERROR_INVALID_ARGUMENT, ctx)
     else case initialize (freeze_flags ctx) of
       Exited v \<Rightarrow> Exited v
     | Done ctx1 \<Rightarrow> Done (LSOF_SUCCESS, (hashSfile ctx1)\<lparr> frozen := True \<rparr>))"

section \<open>The contract of a selection table\<close>

text \<open>
  The table invariant: no identifier twice, the two counters are the numbers of included and
  excluded entries, and the entries fit the capacity.  \<open>tab_lookup\<close> abstracts a table to the
  finite map from identifiers to their exclusion state.
\<close>

definition tab_ok :: "('e \<Rightarrow> 'i) \<Rightarrow> ('e \<Rightarrow> bool) \<Rightarrow> 'e sel_tab \<Rightarrow> bool" where
  "tab_ok ident excl t \<longleftrightarrow>
    distinct (map ident (st_ents t)) \<and>
    st_incl t = int (length (filter (\<lambda>e. \<not> excl e) (st_ents t))) \<and>
    st_excl t = int (length (filter excl (st_ents t))) \<and>
    int (length (st_ents t)) \<le> st_cap t \<and> st_cap t < 2 ^ 31"

definition tab_lookup :: "('e \<Rightarrow> 'i) \<Rightarrow> ('e \<Rightarrow> bool) \<Rightarrow> 'e sel_tab \<Rightarrow> 'i \<rightharpoonup> bool" where
  "tab_lookup ident excl t i = map_option excl (find (\<lambda>e. i = ident e) (st_ents t))"

lemma tab_ok_empty [simp]: "tab_ok ident excl empty_tab"
  by (simp add: tab_ok_def empty_tab_def)

lemma tab_lookup_empty [simp]: "tab_lookup ident excl empty_tab = Map.empty"
  by (auto simp: tab_lookup_def empty_tab_def)

lemma find_append: "find P (xs @ ys) = (case find P xs of None \<Rightarrow> find P ys | Some x \<Rightarrow> Some x)"
  by (induction xs) auto

lemma tab_grow_Done:
  assumes "tab_grow n t = Done t1" and "0 \<le> st_cap t" and "st_cap t < 2 ^ 31" and "0 < n"
    and "int (length (st_ents t)) \<le> st_cap t"
  shows "st_ents t1 = st_ents t \<and> st_incl t1 = st_incl t \<and> st_excl t1 = st_excl t
    \<and> int (length (st_ents t)) < st_cap t1 \<and> st_cap t1 < 2 ^ 31"
  using assms
  by (auto simp: tab_grow_def split: if_splits option.splits dest!: grow_array_Some)

lemma tab_append_simps [simp]:
  "st_ents (tab_append e x t) = st_ents t @ [e]"
  "st_cap (tab_append e x t) = st_cap t"
  "st_incl (tab_append e x t) = st_incl t + (if x then 0 else 1)"
  "st_excl (tab_append e x t) = st_excl t + (if x then 1 else 0)"
  by (simp_all add: tab_append_def Let_def)

locale sel_table =
  fixes ident :: "'e \<Rightarrow> 'i" and excl :: "'e \<Rightarrow> bool" and elem_size :: nat
    and select :: "'i \<Rightarrow> bool \<Rightarrow> 'e sel_tab \<Rightarrow> (lsof_error \<times> bool \<times> 'e sel_tab) run"
  assumes size_pos: "0 < elem_size"
    and select_old: "find (\<lambda>e. i = ident e) (st_ents t) = Some e \<Longrightarrow> select i x t =
      Done (if excl e = x then LSOF_SUCCESS else LSOF_ERROR_INVALID_ARGUMENT, False, t)"
    and select_new: "find (\<lambda>e. i = ident e) (st_ents t) = None \<Longrightarrow> select i x t = Done (r, b, t') \<Longrightarrow>
      \<exists>e t1. tab_grow elem_size t = Done t1 \<and> ident e = i \<and> excl e = x
        \<and> r = LSOF_SUCCESS \<and> b \<and> t' = tab_append e x t1"
begin

lemma keeps_ok:
  assumes "tab_ok ident excl t" and "select i x t = Done (r, b, t')"
  shows "tab_ok ident excl t'"
proof (cases "find (\<lambda>e. i = ident e) (st_ents t)")
  case None
  then obtain e t1 where n: "tab_grow elem_size t = Done t1" "ident e = i" "excl e = x" "t' = tab_append e x t1"
    using select_new [OF None assms(2)] by blast
  have "i \<notin> ident ` set (st_ents t)" using None by (auto simp: find_None_iff)
  then show ?thesis
    using assms(1) tab_grow_Done [OF n(1)] size_pos n by (auto simp: tab_ok_def)
qed (use assms select_old in auto)

lemma lookup_select:
  assumes "tab_ok ident excl t" and "select i x t = Done (r, b, t')"
  shows "tab_lookup ident excl t' =
    (if tab_lookup ident excl t i = Some (\<not> x) then tab_lookup ident excl t
     else (tab_lookup ident excl t)(i \<mapsto> x))"
proof (cases "find (\<lambda>e. i = ident e) (st_ents t)")
  case None
  then obtain e t1 where n: "tab_grow elem_size t = Done t1" "ident e = i" "excl e = x" "t' = tab_append e x t1"
    using select_new [OF None assms(2)] by blast
  have "st_ents t1 = st_ents t"
    using assms(1) tab_grow_Done [OF n(1)] size_pos by (auto simp: tab_ok_def)
  then show ?thesis
    using n None by (auto simp: tab_lookup_def find_append fun_eq_iff split: option.split)
next
  case (Some e)
  then show ?thesis
    using select_old [OF Some, of x] assms(2) by (auto simp: tab_lookup_def fun_eq_iff)
qed

lemma error_iff_conflict:
  assumes "select i x t = Done (r, b, t')"
  shows "r = (if tab_lookup ident excl t i = Some (\<not> x) then LSOF_ERROR_INVALID_ARGUMENT else LSOF_SUCCESS)"
proof (cases "find (\<lambda>e. i = ident e) (st_ents t)")
  case None
  then show ?thesis using select_new [OF None assms] by (auto simp: tab_lookup_def)
qed (use assms select_old in \<open>auto simp: tab_lookup_def\<close>)

lemma entered_iff_new:
  assumes "select i x t = Done (r, b, t')"
  shows "b \<longleftrightarrow> tab_lookup ident excl t i = None"
proof (cases "find (\<lambda>e. i = ident e) (st_ents t)")
  case None
  then show ?thesis using select_new [OF None assms] by (auto simp: tab_lookup_def)
qed (use assms select_old in \<open>auto simp: tab_lookup_def\<close>)

end

interpretation id_tab: sel_table il_i il_x 12 select_pid_pgid
  by unfold_locales
     (auto simp: select_pid_pgid_def split: run.splits, metis int_lst.select_convs(1,3))

interpretation uid_tab: sel_table su_uid su_excl 24 "\<lambda>uid. select_uid_login uid login"
  by unfold_locales
     (auto simp: select_uid_login_def split: run.splits, metis seluid.select_convs(1,3))

section \<open>Expression modifiers\<close>

definition mods_ok :: "cstring \<Rightarrow> bool" where
  "mods_ok xm \<longleftrightarrow> set xm \<subseteq> {CHR ''b'', CHR ''i'', CHR ''x''} \<and> distinct xm
    \<and> \<not> (CHR ''b'' \<in> set xm \<and> CHR ''x'' \<in> set xm)"

definition mods_co :: "cstring \<Rightarrow> flags32" where
  "mods_co xm = REG_NOSUB OR (if CHR ''b'' \<in> set xm then 0 else REG_EXTENDED)
    OR (if CHR ''i'' \<in> set xm then REG_ICASE else 0)"

lemma mods_ok_snoc:
  "mods_ok (xs @ [c]) \<longleftrightarrow> mods_ok xs \<and> c \<notin> set xs \<and>
    (c = CHR ''b'' \<and> CHR ''x'' \<notin> set xs \<or> c = CHR ''i'' \<or> c = CHR ''x'' \<and> CHR ''b'' \<notin> set xs)"
  by (auto simp: mods_ok_def)

lemma rx_modifier_counts [simp]:
  "rm_bmod (rx_modifier c r) = rm_bmod r + (if c = CHR ''b'' then 1 else 0)"
  "rm_imod (rx_modifier c r) = rm_imod r + (if c = CHR ''i'' then 1 else 0)"
  "rm_xmod (rx_modifier c r) = rm_xmod r + (if c = CHR ''x'' then 1 else 0)"
  by (simp_all add: rx_modifier_def Let_def)

lemma rx_modifier_bad:
  "rm_bad (rx_modifier c r) \<longleftrightarrow> rm_bad r \<or>
    \<not> (c = CHR ''b'' \<and> rm_bmod r = 0 \<and> rm_xmod r = 0 \<or> c = CHR ''i'' \<and> rm_imod r = 0
      \<or> c = CHR ''x'' \<and> rm_xmod r = 0 \<and> rm_bmod r = 0)"
  by (simp add: rx_modifier_def Let_def)

lemma rx_modifier_co:
  "\<not> rm_bad (rx_modifier c r) \<Longrightarrow> rm_co (rx_modifier c r) =
    (if c = CHR ''b'' then rm_co r AND NOT REG_EXTENDED
     else if c = CHR ''i'' then rm_co r OR REG_ICASE else rm_co r OR REG_EXTENDED)"
  by (simp add: rx_modifier_bad) (auto simp: rx_modifier_def Let_def)

lemma rx_modifier_seen:
  "0 < rm_bmod (fold rx_modifier xm rx_mods_init) \<longleftrightarrow> CHR ''b'' \<in> set xm"
  "0 < rm_imod (fold rx_modifier xm rx_mods_init) \<longleftrightarrow> CHR ''i'' \<in> set xm"
  "0 < rm_xmod (fold rx_modifier xm rx_mods_init) \<longleftrightarrow> CHR ''x'' \<in> set xm"
  by (induction xm rule: rev_induct) (auto simp: rx_mods_init_def)

lemma rx_modifiers_bad: "rm_bad (fold rx_modifier xm rx_mods_init) \<longleftrightarrow> \<not> mods_ok xm"
proof (induction xm rule: rev_induct)
  case (snoc c xm)
  then show ?case
    using rx_modifier_seen [of xm] by (auto simp: rx_modifier_bad mods_ok_snoc)
qed (simp add: rx_mods_init_def mods_ok_def)

lemma rx_modifiers_co: "mods_ok xm \<Longrightarrow> rm_co (fold rx_modifier xm rx_mods_init) = mods_co xm"
proof (induction xm rule: rev_induct)
  case (snoc c xm)
  have nb: "\<not> rm_bad (fold rx_modifier (xm @ [c]) rx_mods_init)"
    using snoc.prems by (simp only: rx_modifiers_bad not_not)
  have IH: "rm_co (fold rx_modifier xm rx_mods_init) = mods_co xm"
    using snoc by (simp add: mods_ok_snoc)
  show ?case
    using snoc.prems nb rx_modifier_co [of c "fold rx_modifier xm rx_mods_init"] IH
    by (auto simp: mods_ok_snoc mods_co_def flag_simps)
qed (simp add: rx_mods_init_def mods_co_def)

section \<open>The context invariant\<close>

definition cmd_consistent :: "str_lst list \<Rightarrow> bool" where
  "cmd_consistent cs \<longleftrightarrow> (\<forall>a \<in> set cs. \<forall>b \<in> set cs. sl_str a = sl_str b \<longrightarrow> sl_x a = sl_x b)"

definition cmd_ok :: "lsof_context \<Rightarrow> bool" where
  "cmd_ok ctx \<longleftrightarrow>
    cmdni ctx = int (length (filter (\<lambda>e. \<not> sl_x e) (cmdl ctx))) \<and>
    cmdnx ctx = int (length (filter sl_x (cmdl ctx))) \<and>
    (\<forall>a \<in> set (cmdl ctx). sl_len a = length (sl_str a) \<and> length (sl_str a) \<le> MAXSYSCMDL) \<and>
    cmd_consistent (cmdl ctx)"

definition wants_some :: "lsof_context \<Rightarrow> bool" where
  "wants_some ctx \<longleftrightarrow> 0 < st_incl (spid ctx) \<or> 0 < st_incl (spgid ctx) \<or> 0 < st_incl (suid ctx)
    \<or> 0 < cmdni ctx \<or> cmdrx ctx \<noteq> []"

definition flags_ok :: "lsof_context \<Rightarrow> bool" where
  "flags_ok ctx \<longleftrightarrow>
    (0 < st_incl (spid ctx) \<longrightarrow> has_flag (selflags ctx) SELPID) \<and>
    (0 < st_incl (spgid ctx) \<longrightarrow> has_flag (selflags ctx) SELPGID) \<and>
    (0 < st_incl (suid ctx) \<longrightarrow> has_flag (selflags ctx) SELUID) \<and>
    (0 < cmdni ctx \<or> cmdrx ctx \<noteq> [] \<longrightarrow> has_flag (selflags ctx) SELCMD)"

definition sel_ok :: "lsof_context \<Rightarrow> bool" where
  "sel_ok ctx \<longleftrightarrow>
    tab_ok il_i il_x (spid ctx) \<and> tab_ok il_i il_x (spgid ctx) \<and> tab_ok su_uid su_excl (suid ctx) \<and>
    cmd_ok ctx \<and> flags_ok ctx \<and> (frozen ctx \<longrightarrow> wants_some ctx \<longrightarrow> \<not> allproc ctx)"

lemmas sel_ok_defs = sel_ok_def cmd_ok_def flags_ok_def wants_some_def

lemma cmd_consistent_Nil [simp]: "cmd_consistent []"
  by (simp add: cmd_consistent_def)

lemma cmd_consistent_Cons:
  "cmd_consistent cs \<Longrightarrow> \<not> list_ex (\<lambda>e. sl_x e \<noteq> sl_x n \<and> sl_str e = sl_str n) cs \<Longrightarrow> cmd_consistent (n # cs)"
  unfolding cmd_consistent_def list_ex_iff list.set by (metis insert_iff)

lemma sel_ok_new: "sel_ok lsof_new"
  by (simp add: sel_ok_defs lsof_new_def) (simp add: empty_tab_def)

lemma sel_ok_frame [simp]:
  "sel_ok (ctx\<lparr> fblock := a \<rparr>) = sel_ok ctx" "sel_ok (ctx\<lparr> fovhd := a \<rparr>) = sel_ok ctx"
  "sel_ok (ctx\<lparr> fand := a \<rparr>) = sel_ok ctx" "sel_ok (ctx\<lparr> npuns := n \<rparr>) = sel_ok ctx"
  "sel_ok (ctx\<lparr> ncmdrxa := n \<rparr>) = sel_ok ctx" "sel_ok (ctx\<lparr> selinet := a \<rparr>) = sel_ok ctx"
  by (simp_all add: sel_ok_defs)

lemma sel_ok_switches:
  "sel_ok ctx \<Longrightarrow> lsof_avoid_blocking a ctx = (e, ctx') \<Longrightarrow> sel_ok ctx'"
  "sel_ok ctx \<Longrightarrow> lsof_avoid_forking a ctx = (e, ctx') \<Longrightarrow> sel_ok ctx'"
  "sel_ok ctx \<Longrightarrow> lsof_logic_and ctx = (e, ctx') \<Longrightarrow> sel_ok ctx'"
  by (auto simp: lsof_avoid_blocking_def lsof_avoid_forking_def lsof_logic_and_def split: if_splits)

lemma cmd_ok_cons:
  assumes "cmd_ok ctx" and "\<not> list_ex (\<lambda>e. sl_x e \<noteq> x \<and> sl_str e = c) (cmdl ctx)" and "length c \<le> MAXSYSCMDL"
  shows "cmd_ok (ctx\<lparr> cmdni := cmdni ctx + (if x then 0 else 1), cmdnx := cmdnx ctx + (if x then 1 else 0),
    cmdl := \<lparr> sl_str = c, sl_len = length c, sl_f = False, sl_x = x \<rparr> # cmdl ctx \<rparr>)"
  using assms cmd_consistent_Cons [of "cmdl ctx" "\<lparr> sl_str = c, sl_len = length c, sl_f = False, sl_x = x \<rparr>"]
  by (simp add: cmd_ok_def)

lemma sel_ok_process:
  assumes "sel_ok ctx" and "lsof_select_process c x ctx = (e, ctx')"
  shows "sel_ok ctx'"
proof (cases "ctx' = ctx")
  case False
  then have fr: "\<not> frozen ctx"
    and g: "\<not> list_ex (\<lambda>e. sl_x e \<noteq> x \<and> sl_str e = c) (cmdl ctx)" "length c \<le> MAXSYSCMDL"
    and new: "ctx' = ctx\<lparr> cmdni := cmdni ctx + (if x then 0 else 1), cmdnx := cmdnx ctx + (if x then 1 else 0),
      cmdl := \<lparr> sl_str = c, sl_len = length c, sl_f = False, sl_x = x \<rparr> # cmdl ctx,
      selflags := (if x then selflags ctx else selflags ctx OR SELCMD) \<rparr>"
    using assms(2)
    by (auto simp: lsof_select_process_def mkstrcpy_def Let_def split: if_splits)
  have ok: "cmd_ok ctx" "flags_ok ctx" using assms(1) by (simp_all add: sel_ok_def)
  have "cmd_ok ctx'"
    using cmd_ok_cons [OF ok(1) g] by (simp add: cmd_ok_def new)
  moreover have "flags_ok ctx'"
    using ok(2) by (cases x) (simp_all add: flags_ok_def new has_flag_or flag_simps)
  moreover have "tab_ok il_i il_x (spid ctx')" "tab_ok il_i il_x (spgid ctx')" "tab_ok su_uid su_excl (suid ctx')"
    using assms(1) by (simp_all add: sel_ok_def new)
  moreover have "\<not> frozen ctx'" using fr by (simp add: new)
  ultimately show ?thesis by (simp add: sel_ok_def)
qed (use assms in simp)

lemma sel_ok_regex:
  assumes "sel_ok ctx" and "lsof_select_process_regex regcomp x ctx = Done (e, ctx')"
  shows "sel_ok ctx'"
proof -
  have grow: "sel_ok ctx1 \<and> frozen ctx1 = frozen ctx" if "rx_grow ctx = Done ctx1" for ctx1
    using that assms(1) by (auto simp: rx_grow_def split: if_splits option.splits)
  have enter: "sel_ok (c\<lparr> cmdrx := rxs, selflags := selflags c OR SELCMD \<rparr>)"
    if "sel_ok c" "\<not> frozen c" for c rxs
    using that by (simp add: sel_ok_defs has_flag_or flag_simps)
  show ?thesis
    using assms(2) grow enter assms(1)
    by (auto simp: lsof_select_process_regex_def rx_enter_def Let_def
        split: if_splits list.splits run.splits)
qed

lemma sel_flag_has: "has_flag (sel_flag b x f w) g \<longleftrightarrow> has_flag w g \<or> b \<and> \<not> x \<and> has_flag f g"
  by (auto simp: sel_flag_def has_flag_or)

lemma id_incl_step:
  assumes "tab_ok il_i il_x t" and "select_pid_pgid i x t = Done (r, b, t')"
  shows "0 < st_incl t' \<longleftrightarrow> 0 < st_incl t \<or> b \<and> \<not> x"
  using assms
  by (auto simp: select_pid_pgid_def tab_ok_def split: option.splits run.splits dest!: tab_grow_Done)

lemma uid_incl_step:
  assumes "tab_ok su_uid su_excl t" and "select_uid_login i l x t = Done (r, b, t')"
  shows "0 < st_incl t' \<longleftrightarrow> 0 < st_incl t \<or> b \<and> \<not> x"
  using assms
  by (auto simp: select_uid_login_def tab_ok_def split: option.splits run.splits dest!: tab_grow_Done)

lemma sel_ok_pid_pgid:
  assumes "sel_ok ctx" and "lsof_select_pid_pgid p i x ctx = Done (e, ctx')"
  shows "sel_ok ctx'"
proof (cases "frozen ctx")
  case False
  then obtain b t where t: "select_pid_pgid i x (if p then spid ctx else spgid ctx) = Done (e, b, t)"
    and new: "ctx' = (if p
         then ctx\<lparr> spid := t, selflags := sel_flag b x SELPID (selflags ctx) \<rparr>
         else ctx\<lparr> spgid := t, selflags := sel_flag b x SELPGID (selflags ctx) \<rparr>)"
    using assms(2) by (auto simp: lsof_select_pid_pgid_def split: run.splits)
  have old: "tab_ok il_i il_x (if p then spid ctx else spgid ctx)" using assms(1) by (simp add: sel_ok_def)
  have "tab_ok il_i il_x t" by (rule id_tab.keeps_ok [OF old t])
  moreover have "flags_ok ctx'"
    using assms(1) id_incl_step [OF old t]
    by (cases p) (simp_all add: new sel_ok_def flags_ok_def sel_flag_has flag_simps)
  ultimately show ?thesis
    using assms(1) False by (cases p) (simp_all add: new sel_ok_def cmd_ok_def)
qed (use assms in \<open>simp add: lsof_select_pid_pgid_def\<close>)

lemma sel_ok_uid_login:
  assumes "sel_ok ctx" and "lsof_select_uid_login uid l x ctx = Done (e, ctx')"
  shows "sel_ok ctx'"
proof (cases "frozen ctx")
  case False
  then obtain b t where t: "select_uid_login uid l x (suid ctx) = Done (e, b, t)"
    and new: "ctx' = ctx\<lparr> suid := t, selflags := sel_flag b x SELUID (selflags ctx) \<rparr>"
    using assms(2) by (auto simp: lsof_select_uid_login_def split: run.splits)
  have old: "tab_ok su_uid su_excl (suid ctx)" using assms(1) by (simp add: sel_ok_def)
  have "tab_ok su_uid su_excl t" by (rule uid_tab.keeps_ok [OF old t])
  moreover have "flags_ok ctx'"
    using assms(1) uid_incl_step [OF old t]
    by (simp add: new sel_ok_def flags_ok_def sel_flag_has flag_simps)
  ultimately show ?thesis
    using assms(1) False by (simp add: new sel_ok_def cmd_ok_def)
qed (use assms in \<open>simp add: lsof_select_uid_login_def\<close>)

lemma sel_ok_pid: "sel_ok ctx \<Longrightarrow> lsof_select_pid i x ctx = Done (e, ctx') \<Longrightarrow> sel_ok ctx'"
  by (auto simp: lsof_select_pid_def split: run.splits dest: sel_ok_pid_pgid)

lemma sel_ok_pgid: "sel_ok ctx \<Longrightarrow> lsof_select_pgid i x ctx = Done (e, ctx') \<Longrightarrow> sel_ok ctx'"
  by (auto simp: lsof_select_pgid_def dest: sel_ok_pid_pgid)

lemma sel_ok_uid: "sel_ok ctx \<Longrightarrow> lsof_select_uid i x ctx = Done (e, ctx') \<Longrightarrow> sel_ok ctx'"
  by (auto simp: lsof_select_uid_def dest: sel_ok_uid_login)

lemma sel_ok_login: "sel_ok ctx \<Longrightarrow> lsof_select_login g l x ctx = Done (e, ctx') \<Longrightarrow> sel_ok ctx'"
  by (auto simp: lsof_select_login_def split: if_splits option.splits dest: sel_ok_uid_login)

lemma hash_entry_sel:
  "sel_ok ((hash_sfile_entry e ctx)\<lparr> frozen := f \<rparr>) = sel_ok (ctx\<lparr> frozen := f \<rparr>)"
  "selflags (hash_sfile_entry e ctx) = selflags ctx" "selall (hash_sfile_entry e ctx) = selall ctx"
  "allproc (hash_sfile_entry e ctx) = allproc ctx" "frozen (hash_sfile_entry e ctx) = frozen ctx"
  by (simp_all add: hash_entry_defs sel_ok_defs split: prod.split option.split)

lemma hash_fold_sel:
  "sel_ok ((fold hash_sfile_entry xs ctx)\<lparr> frozen := f \<rparr>) = sel_ok (ctx\<lparr> frozen := f \<rparr>)"
  "selflags (fold hash_sfile_entry xs ctx) = selflags ctx"
  "selall (fold hash_sfile_entry xs ctx) = selall ctx"
  "allproc (fold hash_sfile_entry xs ctx) = allproc ctx"
  "frozen (fold hash_sfile_entry xs ctx) = frozen ctx"
  by (induction xs arbitrary: ctx) (simp_all add: hash_entry_sel)

lemma hashSfile_sel [simp]:
  "sel_ok ((hashSfile ctx)\<lparr> frozen := f \<rparr>) = sel_ok (ctx\<lparr> frozen := f \<rparr>)"
  "selflags (hashSfile ctx) = selflags ctx" "selall (hashSfile ctx) = selall ctx"
  "allproc (hashSfile ctx) = allproc ctx" "frozen (hashSfile ctx) = frozen ctx"
  by (simp_all add: hashSfile_def hash_fold_sel) (simp add: sel_ok_defs)

lemma ok_frame [simp]:
  "cmd_ok (c\<lparr> frozen := f \<rparr>) = cmd_ok c" "cmd_ok (c\<lparr> allproc := f \<rparr>) = cmd_ok c"
  "cmd_ok (c\<lparr> selinet := f \<rparr>) = cmd_ok c" "cmd_ok (c\<lparr> selflags := w \<rparr>) = cmd_ok c"
  "flags_ok (c\<lparr> frozen := f \<rparr>) = flags_ok c" "flags_ok (c\<lparr> allproc := f \<rparr>) = flags_ok c"
  "flags_ok (c\<lparr> selinet := f \<rparr>) = flags_ok c"
  "wants_some (c\<lparr> frozen := f \<rparr>) = wants_some c" "wants_some (c\<lparr> selflags := w \<rparr>) = wants_some c"
  by (simp_all add: cmd_ok_def flags_ok_def wants_some_def)

lemma flags_ok_unwanted: "\<not> wants_some c \<Longrightarrow> flags_ok c"
  by (simp add: flags_ok_def wants_some_def)

lemma sel_ok_freeze_flags:
  assumes "sel_ok ctx" and "\<not> frozen ctx"
  shows "sel_ok ((freeze_flags ctx)\<lparr> frozen := True \<rparr>)"
proof (cases "selflags ctx = 0")
  case True
  then have "\<not> wants_some ctx"
    using assms(1) by (auto simp: sel_ok_def flags_ok_def wants_some_def)
  then show ?thesis using assms True
    by (simp add: freeze_flags_def sel_ok_def flags_ok_unwanted)
next
  case False
  then show ?thesis using assms
    by (simp add: freeze_flags_def sel_ok_def)
qed

lemma sel_ok_freeze:
  assumes "sel_ok ctx" and "lsof_freeze ctx = Done (e, ctx')"
  shows "sel_ok ctx'"
proof (cases "frozen ctx")
  case False
  then have new: "ctx' = (hashSfile (freeze_flags ctx))\<lparr> frozen := True \<rparr>"
    using assms(2) by (auto simp: lsof_freeze_def initialize_def split: if_splits)
  show ?thesis using sel_ok_freeze_flags [OF assms(1) False] by (simp add: new)
qed (use assms in \<open>simp add: lsof_freeze_def\<close>)

section \<open>The interface as a state machine\<close>

inductive api_call ::
  "(cstring \<Rightarrow> flags32 \<Rightarrow> bool) \<Rightarrow> (cstring \<Rightarrow> int option) \<Rightarrow> lsof_context \<Rightarrow> lsof_error \<Rightarrow> lsof_context \<Rightarrow> bool"
  for regcomp getpwnam where
  blocking: "lsof_avoid_blocking a ctx = (e, ctx') \<Longrightarrow> api_call regcomp getpwnam ctx e ctx'"
| forking: "lsof_avoid_forking a ctx = (e, ctx') \<Longrightarrow> api_call regcomp getpwnam ctx e ctx'"
| logic_and: "lsof_logic_and ctx = (e, ctx') \<Longrightarrow> api_call regcomp getpwnam ctx e ctx'"
| process: "lsof_select_process c x ctx = (e, ctx') \<Longrightarrow> api_call regcomp getpwnam ctx e ctx'"
| regex: "lsof_select_process_regex regcomp c ctx = Done (e, ctx') \<Longrightarrow> api_call regcomp getpwnam ctx e ctx'"
| pid: "lsof_select_pid i x ctx = Done (e, ctx') \<Longrightarrow> api_call regcomp getpwnam ctx e ctx'"
| pgid: "lsof_select_pgid i x ctx = Done (e, ctx') \<Longrightarrow> api_call regcomp getpwnam ctx e ctx'"
| uid: "lsof_select_uid i x ctx = Done (e, ctx') \<Longrightarrow> api_call regcomp getpwnam ctx e ctx'"
| login: "lsof_select_login getpwnam l x ctx = Done (e, ctx') \<Longrightarrow> api_call regcomp getpwnam ctx e ctx'"
| freeze: "lsof_freeze ctx = Done (e, ctx') \<Longrightarrow> api_call regcomp getpwnam ctx e ctx'"

inductive api_reach ::
  "(cstring \<Rightarrow> flags32 \<Rightarrow> bool) \<Rightarrow> (cstring \<Rightarrow> int option) \<Rightarrow> lsof_context \<Rightarrow> bool"
  for regcomp getpwnam where
  new: "api_reach regcomp getpwnam lsof_new"
| step: "api_reach regcomp getpwnam ctx \<Longrightarrow> api_call regcomp getpwnam ctx e ctx'
    \<Longrightarrow> api_reach regcomp getpwnam ctx'"

inductive_cases api_callE: "api_call regcomp getpwnam ctx e ctx'"

lemmas sel_ok_calls = sel_ok_switches sel_ok_process sel_ok_regex sel_ok_pid sel_ok_pgid
  sel_ok_uid sel_ok_login sel_ok_freeze

lemma api_call_sel_ok: "api_call rc gp ctx e ctx' \<Longrightarrow> sel_ok ctx \<Longrightarrow> sel_ok ctx'"
  by (erule api_callE) (erule (1) sel_ok_calls)+

lemma lsof_select_pid_lookup:
  assumes "sel_ok ctx" and "\<not> frozen ctx" and "lsof_select_pid pid x ctx = Done (e, ctx')"
  shows "tab_lookup il_i il_x (spid ctx') =
      (if tab_lookup il_i il_x (spid ctx) (s32 pid) = Some (\<not> x) then tab_lookup il_i il_x (spid ctx)
       else (tab_lookup il_i il_x (spid ctx))(s32 pid \<mapsto> x))
    \<and> e = (if tab_lookup il_i il_x (spid ctx) (s32 pid) = Some (\<not> x)
           then LSOF_ERROR_INVALID_ARGUMENT else LSOF_SUCCESS)"
proof -
  obtain b t where t: "select_pid_pgid (s32 pid) x (spid ctx) = Done (e, b, t)" and new: "spid ctx' = t"
    using assms(2,3) by (auto simp: lsof_select_pid_def lsof_select_pid_pgid_def split: run.splits)
  have "tab_ok il_i il_x (spid ctx)" using assms(1) by (simp add: sel_ok_def)
  then show ?thesis using id_tab.lookup_select [OF _ t] id_tab.error_iff_conflict [OF t] new by simp
qed

section \<open>Properties\<close>

text \<open>
  C11: whatever sequence of interface calls a program makes on a fresh context, with whatever
  results of \<open>getpwnam\<close> and \<open>regcomp\<close>, the selection tables stay well formed: no identifier is
  both included and excluded or entered twice, the inclusion and exclusion counters are exact,
  capacities are respected, every inclusion raises its selection flag, and a frozen context that
  asks for some process does not list all processes.
\<close>

theorem api_reach_sel_ok:
  assumes "api_reach regcomp getpwnam ctx"
  shows "sel_ok ctx"
  using assms by induction (auto intro: sel_ok_new api_call_sel_ok)

theorem api_reach_sel_ok_witness:
  "sel_ok (snd (lsof_avoid_blocking True lsof_new))"
  by (rule api_reach_sel_ok [OF api_reach.step [OF api_reach.new api_call.blocking]])
     (simp add: prod_eq_iff)

text \<open>
  On a frozen context every interface call fails with an invalid-argument error and leaves the
  request as it is.  The one trace a call can leave is the counter of unmatched process identifiers,
  which \<open>lsof_select_pid\<close> resets even when it rejects the call.
\<close>

theorem frozen_call_rejected:
  assumes "api_call regcomp getpwnam ctx e ctx'" and "frozen ctx"
  shows "e = LSOF_ERROR_INVALID_ARGUMENT
    \<and> ctx' \<in> {ctx, ctx\<lparr> npuns := int (length (st_ents (spid ctx))) \<rparr>}"
  using assms(1)
proof cases
  case (pid i x)
  then show ?thesis using assms(2) by (auto simp: lsof_select_pid_def lsof_select_pid_pgid_def)
qed (use assms(2) in \<open>auto simp: lsof_avoid_blocking_def lsof_avoid_forking_def lsof_logic_and_def
    lsof_select_process_def lsof_select_process_regex_def lsof_select_pgid_def lsof_select_pid_pgid_def
    lsof_select_uid_def lsof_select_uid_login_def lsof_select_login_def lsof_freeze_def\<close>)

theorem frozen_call_rejected_witness:
  "fst (lsof_logic_and (lsof_new\<lparr> frozen := True \<rparr>)) = LSOF_ERROR_INVALID_ARGUMENT"
  using frozen_call_rejected [OF api_call.logic_and [of "lsof_new\<lparr> frozen := True \<rparr>"
      "fst (lsof_logic_and (lsof_new\<lparr> frozen := True \<rparr>))" "snd (lsof_logic_and (lsof_new\<lparr> frozen := True \<rparr>))"]]
  by simp

text \<open>
  C27: \<open>lsof_select_pid\<close> implements an update of a finite map from process identifiers to their
  inclusion or exclusion: a new identifier is entered, entering it again changes nothing, and an
  identifier entered with the opposite sense is reported as an error and keeps its sense.
\<close>

theorem lsof_select_pid_refines:
  assumes "sel_ok ctx" and "\<not> frozen ctx" and "lsof_select_pid pid x ctx = Done (e, ctx')"
  shows "tab_lookup il_i il_x (spid ctx') =
      (if tab_lookup il_i il_x (spid ctx) (s32 pid) = Some (\<not> x) then tab_lookup il_i il_x (spid ctx)
       else (tab_lookup il_i il_x (spid ctx))(s32 pid \<mapsto> x))
    \<and> e = (if tab_lookup il_i il_x (spid ctx) (s32 pid) = Some (\<not> x)
           then LSOF_ERROR_INVALID_ARGUMENT else LSOF_SUCCESS)"
  using assms by (rule lsof_select_pid_lookup)

theorem lsof_select_pid_refines_witness:
  "tab_lookup il_i il_x (spid (case lsof_select_pid 42 False lsof_new of Done r \<Rightarrow> snd r)) = [42 \<mapsto> False]"
proof -
  have "lsof_select_pid 42 False lsof_new = Done (LSOF_SUCCESS,
      case lsof_select_pid 42 False lsof_new of Done r \<Rightarrow> snd r)"
    by (simp add: lsof_select_pid_def lsof_select_pid_pgid_def select_pid_pgid_def tab_grow_def empty_tab_def
        grow_array_def s32_def)
  moreover have "s32 42 = 42" by (simp add: in_s32_def)
  ultimately show ?thesis using lsof_select_pid_refines [OF sel_ok_new, of 42 False] by simp
qed

text \<open>
  C30: a command expression is entered exactly when it has the form \<open>/body/modifiers\<close>, the modifiers
  are distinct letters of \<open>b\<close>, \<open>i\<close>, \<open>x\<close> without both \<open>b\<close> and \<open>x\<close>, and \<open>regcomp\<close> accepts the body
  under the flags these modifiers stand for.
\<close>

theorem lsof_select_process_regex_accepts:
  assumes "\<not> frozen ctx" and "rx_grow ctx = Done ctx1"
  shows "(\<exists>ctx'. lsof_select_process_regex regcomp x ctx = Done (LSOF_SUCCESS, ctx')) \<longleftrightarrow>
    (\<exists>body xm. x = [CHR ''/''] @ body @ [CHR ''/''] @ xm \<and> CHR ''/'' \<notin> set body \<and> mods_ok xm
       \<and> regcomp body (mods_co xm))"
proof (cases x)
  case (Cons c xb)
  let ?body = "takeWhile (\<lambda>d. d \<noteq> CHR ''/'') xb"
  have "(\<exists>ctx'. lsof_select_process_regex regcomp x ctx = Done (LSOF_SUCCESS, ctx')) \<longleftrightarrow>
      c = CHR ''/'' \<and> (\<exists>xm. dropWhile (\<lambda>d. d \<noteq> CHR ''/'') xb = CHR ''/'' # xm
        \<and> mods_ok xm \<and> regcomp ?body (mods_co xm))"
  proof (cases "dropWhile (\<lambda>d. d \<noteq> CHR ''/'') xb")
    case (Cons d xm)
    then show ?thesis
      using assms \<open>x = c # xb\<close> dropWhile_neq_head [OF Cons]
      by (simp add: lsof_select_process_regex_def rx_enter_def rx_modifiers_bad rx_modifiers_co Let_def)
  next
    case Nil
    then show ?thesis
      using assms \<open>x = c # xb\<close>
      by (simp add: lsof_select_process_regex_def del: dropWhile_eq_Nil_conv)
  qed
  also have "\<dots> \<longleftrightarrow> (\<exists>body xm. c = CHR ''/'' \<and> (xb = body @ [CHR ''/''] @ xm \<and> CHR ''/'' \<notin> set body)
      \<and> mods_ok xm \<and> regcomp body (mods_co xm))"
    unfolding split_at_char by blast
  finally show ?thesis by (simp add: Cons)
qed (use assms in \<open>simp add: lsof_select_process_regex_def\<close>)

theorem lsof_select_process_regex_accepts_witness:
  "\<exists>ctx'. lsof_select_process_regex (\<lambda>_ _. True) ''/ssh.*/i'' lsof_new = Done (LSOF_SUCCESS, ctx')"
proof -
  have "rx_grow lsof_new = Done (lsof_new\<lparr> ncmdrxa := 32 \<rparr>)"
    by (simp add: rx_grow_def grow_array_def s32_def)
  moreover have "''/ssh.*/i'' = [CHR ''/''] @ ''ssh.*'' @ [CHR ''/''] @ ''i''
      \<and> CHR ''/'' \<notin> set ''ssh.*'' \<and> mods_ok ''i''"
    by (simp add: mods_ok_def)
  ultimately show ?thesis
    using lsof_select_process_regex_accepts [of lsof_new _ "\<lambda>_ _. True" "''/ssh.*/i''"]
    by (metis lsof_new_simps(1))
qed

end
