(* ===== verification/Proc_Select.thy ===== *)
theory Proc_Select
  imports Selection
begin

text \<open>
  The process and file filters of \<open>lib/proc.c\<close>: \<open>is_proc_excl\<close> and \<open>is_cmd_excl\<close> decide whether a
  process is examined and which selections it meets, \<open>alloc_lproc\<close> and \<open>alloc_lfile\<close> start its
  records, \<open>ck_fd_status\<close> applies the descriptor list, \<open>link_lfile\<close> adds a finished file,
  \<open>examine_lproc\<close> drops unselected processes and detects the last one, and \<open>is_file_sel\<close> decides
  what is listed.  The Linux caller is \<open>process_id\<close> in \<open>lib/dialects/linux/dproc.c\<close>.
\<close>

section \<open>Process exclusion\<close>

fun excl_scan :: "('e \<Rightarrow> bool) \<Rightarrow> ('e \<Rightarrow> bool) \<Rightarrow> int \<Rightarrow> int \<Rightarrow> 'e list \<Rightarrow> bool" where
  "excl_scan xf hit n j [] = False"
| "excl_scan xf hit n j (e # es) =
    (if \<not> j < n then False
     else if \<not> xf e then excl_scan xf hit n j es
     else if hit e then True
     else excl_scan xf hit n (j + 1) es)"

fun incl_scan ::
  "('e \<Rightarrow> bool) \<Rightarrow> ('e \<Rightarrow> bool) \<Rightarrow> ('e \<Rightarrow> 'e) \<Rightarrow> int \<Rightarrow> int \<Rightarrow> 'e list \<Rightarrow> bool \<times> 'e list" where
  "incl_scan xf hit mark n j [] = (False, [])"
| "incl_scan xf hit mark n j (e # es) =
    (if \<not> j < n then (False, e # es)
     else if xf e then (let (b, es') = incl_scan xf hit mark n j es in (b, e # es'))
     else if hit e then (True, mark e # es)
     else (let (b, es') = incl_scan xf hit mark n (j + 1) es in (b, e # es')))"

definition pe_excluded :: "lsof_context \<Rightarrow> int \<Rightarrow> int \<Rightarrow> int \<Rightarrow> bool" where
  "pe_excluded ctx pid pgid uid =
    (if st_excl (suid ctx) \<noteq> 0
        \<and> excl_scan su_excl (\<lambda>e. su_uid e = uid) (st_excl (suid ctx)) 0 (st_ents (suid ctx)) then True
     else if st_excl (spgid ctx) \<noteq> 0
        \<and> excl_scan il_x (\<lambda>e. il_i e = pgid) (st_excl (spgid ctx)) 0 (st_ents (spgid ctx)) then True
     else st_excl (spid ctx) \<noteq> 0
        \<and> excl_scan il_x (\<lambda>e. il_i e = pid) (st_excl (spid ctx)) 0 (st_ents (spid ctx)))"

text \<open>
  One inclusion test: \<open>Some r\<close> as first component when the function returns there, then the process
  state, the select flags and the context with the entry's find state set.
\<close>

type_synonym pe_state = "bool option \<times> flags32 \<times> flags32 \<times> lsof_context"

definition pe_pgid :: "int \<Rightarrow> flags32 \<Rightarrow> flags32 \<Rightarrow> lsof_context \<Rightarrow> pe_state" where
  "pe_pgid pgid pss sf ctx =
    (if st_incl (spgid ctx) \<noteq> 0 \<and> has_flag (selflags ctx) SELPGID then
       let (hit, es) = incl_scan il_x (\<lambda>e. il_i e = pgid) (\<lambda>e. e\<lparr> il_f := True \<rparr>)
                         (st_incl (spgid ctx)) 0 (st_ents (spgid ctx));
           ctx1 = ctx\<lparr> spgid := (spgid ctx)\<lparr> st_ents := es \<rparr> \<rparr>;
           pss1 = (if hit then PS_PRI else pss);
           sf1 = (if hit then SELPGID else sf) in
       (if hit \<and> selflags ctx = SELPGID then Some False
        else if selflags ctx = SELPGID \<and> sf1 = 0 then Some True else None, pss1, sf1, ctx1)
     else (None, pss, sf, ctx))"

definition pe_pid :: "int \<Rightarrow> flags32 \<Rightarrow> flags32 \<Rightarrow> lsof_context \<Rightarrow> pe_state" where
  "pe_pid pid pss sf ctx =
    (if st_incl (spid ctx) \<noteq> 0 \<and> has_flag (selflags ctx) SELPID then
       let (hit, es) = incl_scan il_x (\<lambda>e. il_i e = pid) (\<lambda>e. e\<lparr> il_f := True \<rparr>)
                         (st_incl (spid ctx)) 0 (st_ents (spid ctx));
           ctx1 = ctx\<lparr> spid := (spid ctx)\<lparr> st_ents := es \<rparr> \<rparr>;
           pss1 = (if hit then PS_PRI else pss);
           sf1 = (if hit then sf OR SELPID else sf) in
       (if hit \<and> selflags ctx = SELPID then Some False
        else if selflags ctx = SELPID \<and> sf1 = 0 then Some True else None, pss1, sf1, ctx1)
     else (None, pss, sf, ctx))"

definition pe_uid :: "int \<Rightarrow> flags32 \<Rightarrow> flags32 \<Rightarrow> lsof_context \<Rightarrow> pe_state" where
  "pe_uid uid pss sf ctx =
    (if st_incl (suid ctx) \<noteq> 0 \<and> has_flag (selflags ctx) SELUID then
       let (hit, es) = incl_scan su_excl (\<lambda>e. su_uid e = uid) (\<lambda>e. e\<lparr> su_f := True \<rparr>)
                         (st_incl (suid ctx)) 0 (st_ents (suid ctx));
           ctx1 = ctx\<lparr> suid := (suid ctx)\<lparr> st_ents := es \<rparr> \<rparr>;
           pss1 = (if hit then PS_PRI else pss);
           sf1 = (if hit then sf OR SELUID else sf) in
       (if hit \<and> selflags ctx = SELUID then Some False
        else if selflags ctx = SELUID \<and> sf1 AND SELUID = 0 then Some True else None, pss1, sf1, ctx1)
     else (None, pss, sf, ctx))"

definition pe_task :: "int \<Rightarrow> flags32 \<Rightarrow> flags32 \<Rightarrow> lsof_context \<Rightarrow> pe_state" where
  "pe_task tid pss sf ctx =
    (if has_flag (selflags ctx) SELTASK \<and> tid \<noteq> 0 then
       let sf1 = sf OR SELTASK in
       (if selflags ctx = SELTASK \<or> fand ctx \<and> sf1 AND selflags ctx = selflags ctx
        then Some False else None, PS_PRI, sf1, ctx)
     else (None, pss, sf, ctx))"

definition SELIDS :: flags32 where
  [flag_simps]: "SELIDS = SELPGID OR SELPID OR SELUID OR SELTASK"

definition pe_final :: "flags32 \<Rightarrow> flags32 \<Rightarrow> lsof_context \<Rightarrow> bool \<times> flags32 \<times> flags32 \<times> lsof_context" where
  "pe_final pss sf ctx =
    (if sf = 0 then fand ctx \<and> has_flag (selflags ctx) SELIDS
     else if has_flag (selflags ctx) SELIDS then fand ctx \<and> selflags ctx AND SELIDS \<noteq> sf
     else fand ctx, pss, sf, ctx)"

definition pe_then ::
  "pe_state \<Rightarrow> (flags32 \<Rightarrow> flags32 \<Rightarrow> lsof_context \<Rightarrow> bool \<times> flags32 \<times> flags32 \<times> lsof_context)
    \<Rightarrow> bool \<times> flags32 \<times> flags32 \<times> lsof_context" where
  "pe_then st k = (case st of (Some r, pss, sf, ctx) \<Rightarrow> (r, pss, sf, ctx) | (None, pss, sf, ctx) \<Rightarrow> k pss sf ctx)"

definition is_proc_excl ::
  "lsof_context \<Rightarrow> int \<Rightarrow> int \<Rightarrow> int \<Rightarrow> int \<Rightarrow> bool \<times> flags32 \<times> flags32 \<times> lsof_context" where
  "is_proc_excl ctx pid pgid uid tid =
    (if pe_excluded ctx pid pgid uid then (True, 0, 0, ctx)
     else if allproc ctx then (False, PS_PRI, selall ctx, ctx)
     else pe_then (pe_pgid pgid 0 0 ctx) (\<lambda>pss sf ctx.
            pe_then (pe_pid pid pss sf ctx) (\<lambda>pss sf ctx.
              pe_then (pe_uid uid pss sf ctx) (\<lambda>pss sf ctx.
                pe_then (pe_task tid pss sf ctx) pe_final))))"

section \<open>Command exclusion\<close>

definition cmd_hit :: "cstring \<Rightarrow> str_lst \<Rightarrow> bool" where
  "cmd_hit cmd sp \<longleftrightarrow> take (sl_len sp) (sl_str sp) = take (sl_len sp) cmd"

fun mark_cmd :: "cstring \<Rightarrow> str_lst list \<Rightarrow> bool \<times> str_lst list" where
  "mark_cmd cmd [] = (False, [])"
| "mark_cmd cmd (sp # sps) =
    (if \<not> sl_x sp \<and> cmd_hit cmd sp then (True, sp\<lparr> sl_f := True \<rparr> # sps)
     else (let (b, sps') = mark_cmd cmd sps in (b, sp # sps')))"

fun mark_rx :: "(lsof_rx \<Rightarrow> cstring \<Rightarrow> bool) \<Rightarrow> cstring \<Rightarrow> lsof_rx list \<Rightarrow> bool \<times> lsof_rx list" where
  "mark_rx regexec cmd [] = (False, [])"
| "mark_rx regexec cmd (r # rs) =
    (if regexec r cmd then (True, r\<lparr> rx_mc := True \<rparr> # rs)
     else (let (b, rs') = mark_rx regexec cmd rs in (b, r # rs')))"

definition is_cmd_excl ::
  "(lsof_rx \<Rightarrow> cstring \<Rightarrow> bool) \<Rightarrow> lsof_context \<Rightarrow> cstring \<Rightarrow> flags32 \<Rightarrow> flags32
    \<Rightarrow> bool \<times> flags32 \<times> flags32 \<times> lsof_context" where
  "is_cmd_excl regexec ctx cmd pss sf =
    (if cmdl ctx \<noteq> [] \<and> cmdnx ctx \<noteq> 0 \<and> list_ex (\<lambda>sp. sl_x sp \<and> cmd_hit cmd sp) (cmdl ctx)
     then (True, pss, sf, ctx)
     else if selflags ctx AND SELCMD = 0 then (False, pss, sf, ctx)
     else let (b, sps) = mark_cmd cmd (cmdl ctx) in
       if b then (False, pss OR PS_PRI, sf OR SELCMD, ctx\<lparr> cmdl := sps \<rparr>)
       else let (c, rs) = mark_rx regexec cmd (cmdrx ctx) in
         if c then (False, pss OR PS_PRI, sf OR SELCMD, ctx\<lparr> cmdrx := rs \<rparr>)
         else (selflags ctx = SELCMD \<or> fand ctx, pss, sf, ctx))"

section \<open>Process and file records\<close>

definition LPROCINCR :: int where "LPROCINCR = 128"

text \<open>\<open>alloc_lproc\<close>: the new process is the last of the table (\<open>Lp\<close>); 72 is the size of \<open>struct lproc\<close>.\<close>

definition alloc_lproc ::
  "int \<Rightarrow> int \<Rightarrow> int \<Rightarrow> int \<Rightarrow> cstring \<Rightarrow> flags32 \<Rightarrow> flags32 \<Rightarrow> lsof_context \<Rightarrow> lsof_context run" where
  "alloc_lproc pid pgid ppid uid cmd pss sf ctx =
    (let grown = (if mxlproc ctx < int (length (lprocs ctx)) + 1 then
                    (case grow_array (mxlproc ctx) 72 LPROCINCR of
                       None \<Rightarrow> Exited LSOF_EXIT_ERROR
                     | Some (cap, _) \<Rightarrow> Done (ctx\<lparr> mxlproc := cap \<rparr>))
                  else Done ctx) in
     case grown of
       Exited v \<Rightarrow> Exited v
     | Done ctx1 \<Rightarrow> Done (ctx1\<lparr> lprocs := lprocs ctx1 @
         [\<lparr> lp_cmd = cmd, lp_sf = sf, lp_pss = pss, lp_ept = 0, lp_pid = pid, lp_tid = 0,
            lp_tcmd = None, lp_pgid = pgid, lp_ppid = ppid, lp_uid = uid, lp_file = [] \<rparr>] \<rparr>))"

definition ck_fd_status :: "lsof_context \<Rightarrow> lsof_fd_type \<Rightarrow> int \<Rightarrow> nat" where
  "ck_fd_status ctx fd_type num =
    (if fdl ctx = [] \<or> fd_type = LSOF_FD_NUMERIC \<and> num < 0 then 0
     else let hit = list_ex (\<lambda>fp. fl_type fp = fd_type
               \<and> (if fl_type fp = LSOF_FD_NUMERIC then fl_lo fp \<le> num \<and> num \<le> fl_hi fp else True)) (fdl ctx) in
       if fdlty ctx = 1 then (if hit then 1 else 0)
       else (if hit then 2 else 0))"

text \<open>
  \<open>alloc_lfile\<close>: \<open>mem\<close> is what the reused or newly allocated memory holds; the members the code
  does not initialise (size, device numbers, addresses, connection state) keep that value.
\<close>

definition init_lts :: "ltstate \<Rightarrow> ltstate" where
  "init_lts t = t\<lparr> lt_type := - 1, lt_kai := 0, lt_ltm := 0, lt_opt := 0, lt_qlen := 0, lt_qlim := 0,
    lt_pqlen := 0, lt_rbsz := 0, lt_sbsz := 0, lt_qlens := False, lt_qlims := False, lt_pqlens := False,
    lt_rbszs := False, lt_sbszs := False, lt_ss := 0, lt_rqs := False, lt_sqs := False \<rparr>"

definition init_lfile :: "lproc \<Rightarrow> lsof_fd_type \<Rightarrow> int \<Rightarrow> lfile \<Rightarrow> lfile" where
  "init_lfile lp fd_type num m = m\<lparr>
    lf_access := LSOF_FILE_ACCESS_NONE, lf_lock := LSOF_LOCK_NONE, lf_dev_def := False, lf_inp_ty := 0,
    lf_is_com := False, lf_is_nfs := False, lf_is_stream := False, lf_lmi_srch := False,
    lf_nlink_def := False, lf_off_def := False, lf_sz_def := False, lf_rdev_def := False,
    lf_li0 := (lf_li0 m)\<lparr> li_af := 0 \<rparr>, lf_li1 := (lf_li1 m)\<lparr> li_af := 0 \<rparr>,
    lf_lts := init_lts (lf_lts m), lf_nlink := 0, lf_chend := 0, lf_eventfd_id := - 1,
    lf_tty_index := - 1, lf_inode := 0, lf_off := 0,
    lf_sf := (if has_flag (lp_pss lp) PS_PRI then lp_sf lp else 0), lf_iproto := [], lf_type := 0,
    lf_unk_type := 0, lf_fd_type := fd_type, lf_fd_num := num, lf_dev_ch := None, lf_fsdir := None,
    lf_fsdev := None, lf_nm := None, lf_nma := None, lf_ch := - 1, lf_ntype := N_REGLR,
    lf_fct := 0, lf_ffg := 0, lf_pof := 0, lf_fsv := 0 \<rparr>"

definition fd_select :: "lsof_context \<Rightarrow> lsof_fd_type \<Rightarrow> int \<Rightarrow> lfile \<Rightarrow> lfile" where
  "fd_select ctx fd_type num l =
    (if fdl ctx = [] \<or> fd_type = LSOF_FD_NUMERIC \<and> num < 0 then l
     else let fds = ck_fd_status ctx fd_type num in
       if fdlty ctx = 0 \<and> fds = 2 \<or> fdlty ctx = 1 \<and> fds \<noteq> 1 then l\<lparr> lf_sf := lf_sf l OR SELFD \<rparr> else l)"

definition alloc_lfile :: "lfile \<Rightarrow> lproc \<Rightarrow> lsof_fd_type \<Rightarrow> int \<Rightarrow> lsof_context \<Rightarrow> lsof_context" where
  "alloc_lfile mem lp fd_type num ctx =
    (let m = (case lf ctx of None \<Rightarrow> mem | Some old \<Rightarrow> old) in
     ctx\<lparr> lf := Some (fd_select ctx fd_type num (init_lfile lp fd_type num m)), namech := [] \<rparr>)"

definition is_file_sel :: "lsof_context \<Rightarrow> lfile option \<Rightarrow> bool" where
  "is_file_sel ctx l =
    (case l of
       None \<Rightarrow> False
     | Some l \<Rightarrow>
        if lf_sf l = 0 then False
        else if has_flag (lf_sf l) SELEXCLF then False
        else if allproc ctx then True
        else if fand ctx \<and> lf_sf l AND selflags ctx \<noteq> selflags ctx then False
        else True)"

definition add_nma :: "cstring \<Rightarrow> lfile \<Rightarrow> lfile" where
  "add_nma cp l =
    (if cp = [] then l
     else case lf_nma l of
       None \<Rightarrow> l\<lparr> lf_nma := Some cp \<rparr>
     | Some s \<Rightarrow> l\<lparr> lf_nma := Some (if s \<noteq> [] then s @ '' '' @ cp else cp) \<rparr>)"

definition comppid :: "lproc \<Rightarrow> lproc \<Rightarrow> int" where
  "comppid p1 p2 =
    (if lp_pid p1 < lp_pid p2 then - 1
     else if lp_pid p1 > lp_pid p2 then 1
     else if lp_tid p1 < lp_tid p2 then - 1
     else if lp_tid p1 > lp_tid p2 then 1
     else 0)"

section \<open>Linking files and finishing a process\<close>

definition ept_move :: "flags32 \<Rightarrow> flags32 \<Rightarrow> lfile \<times> lproc \<Rightarrow> lfile \<times> lproc" where
  "ept_move info ept s = (case s of (l, p) \<Rightarrow>
    if has_flag (lf_sf l) info
    then (l\<lparr> lf_sf := lf_sf l AND NOT info \<rparr>, p\<lparr> lp_ept := lp_ept p OR ept \<rparr>) else (l, p))"

definition ept_moves :: "lfile \<times> lproc \<Rightarrow> lfile \<times> lproc" where
  "ept_moves s =
    ept_move SELEVTFDINFO EPT_EVTFD (ept_move SELNETS6INFO EPT_NETS6 (ept_move SELNETSINFO EPT_NETS
      (ept_move SELPTYINFO EPT_PTY (ept_move SELUXSINFO EPT_UXS (ept_move SELPSXMQINFO EPT_PSXMQ
        (ept_move SELPINFO EPT_PIPE s))))))"

definition link_lfile :: "lsof_context \<Rightarrow> lsof_context" where
  "link_lfile ctx =
    (case lf ctx of
       None \<Rightarrow> ctx
     | Some l \<Rightarrow>
        if has_flag (lf_sf l) SELEXCLF \<or> lprocs ctx = [] then ctx
        else
          (let (l1, p1) = (if fepte ctx \<noteq> 0 then ept_moves (l, last (lprocs ctx)) else (l, last (lprocs ctx)));
               p2 = (if lf_sf l1 \<noteq> 0 then p1\<lparr> lp_pss := lp_pss p1 OR PS_SEC \<rparr> else p1);
               p3 = p2\<lparr> lp_file := (if plf ctx then lp_file p2 @ [l1] else [l1]) \<rparr> in
           ctx\<lparr> lprocs := butlast (lprocs ctx) @ [p3], plf := True,
                fnet := (if fnet ctx \<noteq> 0 \<and> has_flag (lf_sf l1) SELNET then 2 else fnet ctx),
                fnfs := (if fnfs ctx \<noteq> 0 \<and> has_flag (lf_sf l1) SELNFS then 2 else fnfs ctx),
                ftask := (if ftask ctx \<noteq> 0 \<and> has_flag (lf_sf l1) SELTASK then 2 else ftask ctx),
                lf := None \<rparr>))"

text \<open>\<open>free_lproc\<close> releases what the process owns; the table entry itself is dropped by the caller.\<close>

definition free_lproc :: "lproc \<Rightarrow> lproc" where
  "free_lproc p = p\<lparr> lp_file := [], lp_cmd := [], lp_tcmd := None \<rparr>"

definition examine_lproc :: "lsof_context \<Rightarrow> bool \<times> lsof_context" where
  "examine_lproc ctx =
    (if rpttm ctx \<noteq> 0 \<or> lprocs ctx = [] then (False, ctx)
     else
       (let p = last (lprocs ctx);
            sbp = (has_flag (lp_sf p) SELPID \<and> \<not> allproc ctx
                   \<and> (selflags ctx = SELPID \<or> fand ctx \<and> has_flag (selflags ctx) SELPID));
            ctx1 = (if sbp then ctx\<lparr> npuns := npuns ctx - 1 \<rparr> else ctx);
            ctx2 = (if lp_pss p = 0 then ctx1\<lparr> lprocs := butlast (lprocs ctx1) \<rparr> else ctx1) in
        (sbp \<and> npuns ctx2 = 0, ctx2)))"

section \<open>The Linux caller\<close>

text \<open>
  The start of \<open>process_id\<close>: a process that is excluded is skipped, unless endpoint information was
  requested; otherwise its record is allocated and the previous file pointer cleared.
\<close>

definition process_id_start ::
  "(lsof_rx \<Rightarrow> cstring \<Rightarrow> bool) \<Rightarrow> int \<Rightarrow> int \<Rightarrow> int \<Rightarrow> int \<Rightarrow> cstring \<Rightarrow> int \<Rightarrow> cstring option
    \<Rightarrow> lsof_context \<Rightarrow> (bool \<times> lsof_context) run" where
  "process_id_start regexec pid pgid ppid uid cmd tid tcmd ctx =
    (let (x1, pss1, sf1, ctx1) = is_proc_excl ctx pid pgid uid tid;
         (x2, pss, sf, ctx2) = (if x1 then (True, pss1, sf1, ctx1) else is_cmd_excl regexec ctx1 cmd pss1 sf1) in
     if x2 \<and> fepte ctx2 = 0 then Done (True, ctx2)
     else case alloc_lproc pid pgid ppid uid cmd pss sf ctx2 of
       Exited v \<Rightarrow> Exited v
     | Done ctx3 \<Rightarrow> Done (False, ctx3\<lparr> plf := False,
         lprocs := butlast (lprocs ctx3) @ [(last (lprocs ctx3))\<lparr> lp_tid := tid,
           lp_tcmd := (if tid \<noteq> 0 then tcmd else None) \<rparr>] \<rparr>))"

section \<open>Counted loops are membership tests\<close>

lemma excl_scan_counted:
  "n - j = int (length (filter xf es)) \<Longrightarrow> excl_scan xf hit n j es \<longleftrightarrow> (\<exists>e \<in> set es. xf e \<and> hit e)"
proof (induction es arbitrary: j)
  case (Cons e es)
  show ?case
  proof (cases "xf e")
    case True
    then show ?thesis using Cons.prems Cons.IH [of "j + 1"] by simp
  next
    case False
    then have "\<not> j < n \<Longrightarrow> int (length (filter xf es)) \<le> 0" using Cons.prems by (simp del: of_nat_le_0_iff)
    then have "\<not> j < n \<Longrightarrow> filter xf es = []" by simp
    then show ?thesis using False Cons.prems Cons.IH [of j] by (auto simp: filter_empty_conv)
  qed
qed simp

lemma incl_scan_counted:
  "n - j = int (length (filter (\<lambda>e. \<not> xf e) es)) \<Longrightarrow>
    fst (incl_scan xf hit mark n j es) \<longleftrightarrow> (\<exists>e \<in> set es. \<not> xf e \<and> hit e)"
proof (induction es arbitrary: j)
  case (Cons e es)
  show ?case
  proof (cases "xf e")
    case False
    then show ?thesis using Cons.prems Cons.IH [of "j + 1"] by (simp add: case_prod_beta)
  next
    case True
    then have "\<not> j < n \<Longrightarrow> int (length (filter (\<lambda>e. \<not> xf e) es)) \<le> 0"
      using Cons.prems by (simp del: of_nat_le_0_iff)
    then have "\<not> j < n \<Longrightarrow> filter (\<lambda>e. \<not> xf e) es = []" by simp
    then show ?thesis using True Cons.prems Cons.IH [of j] by (auto simp: filter_empty_conv case_prod_beta)
  qed
qed simp

lemma lookup_Some_iff:
  assumes "distinct (map ident (st_ents t))"
  shows "tab_lookup ident excl t i = Some b \<longleftrightarrow> (\<exists>e \<in> set (st_ents t). excl e = b \<and> ident e = i)"
proof
  assume "tab_lookup ident excl t i = Some b"
  then obtain e where "find (\<lambda>e. i = ident e) (st_ents t) = Some e" "excl e = b"
    by (auto simp: tab_lookup_def)
  then show "\<exists>e \<in> set (st_ents t). excl e = b \<and> ident e = i" by (auto simp: find_Some_iff)
next
  assume "\<exists>e \<in> set (st_ents t). excl e = b \<and> ident e = i"
  then obtain e where e: "e \<in> set (st_ents t)" "excl e = b" "ident e = i" by blast
  then obtain d where d: "find (\<lambda>e. i = ident e) (st_ents t) = Some d"
    by (cases "find (\<lambda>e. i = ident e) (st_ents t)") (auto simp: find_None_iff)
  then have "d \<in> set (st_ents t)" "ident d = ident e" using e by (auto simp: find_Some_iff)
  then have "d = e" using assms e(1) by (meson distinct_map inj_onD)
  then show "tab_lookup ident excl t i = Some b" using d e by (simp add: tab_lookup_def)
qed

lemma tab_excl_scan:
  "tab_ok ident excl t \<Longrightarrow>
    st_excl t \<noteq> 0 \<and> excl_scan excl (\<lambda>e. ident e = i) (st_excl t) 0 (st_ents t)
      \<longleftrightarrow> tab_lookup ident excl t i = Some True"
  by (subst excl_scan_counted) (auto simp: tab_ok_def lookup_Some_iff filter_empty_conv)

lemma tab_incl_scan:
  "tab_ok ident excl t \<Longrightarrow>
    st_incl t \<noteq> 0 \<and> fst (incl_scan excl (\<lambda>e. ident e = i) mark (st_incl t) 0 (st_ents t))
      \<longleftrightarrow> tab_lookup ident excl t i = Some False"
  by (subst incl_scan_counted) (auto simp: tab_ok_def lookup_Some_iff filter_empty_conv)

section \<open>What the filters promise\<close>

text \<open>
  The reading of the selection tables: an identifier entered with the exclusion sense excludes the
  process; \<open>got_ids\<close> are the identifier selections that the process meets among those requested.
\<close>

definition id_excluded :: "lsof_context \<Rightarrow> int \<Rightarrow> int \<Rightarrow> int \<Rightarrow> bool" where
  "id_excluded ctx pid pgid uid \<longleftrightarrow>
    tab_lookup su_uid su_excl (suid ctx) uid = Some True
    \<or> tab_lookup il_i il_x (spgid ctx) pgid = Some True
    \<or> tab_lookup il_i il_x (spid ctx) pid = Some True"

definition flag_if :: "bool \<Rightarrow> flags32 \<Rightarrow> flags32" where
  "flag_if b f = (if b then f else 0)"

definition ids :: "bool \<Rightarrow> bool \<Rightarrow> bool \<Rightarrow> bool \<Rightarrow> flags32" where
  "ids g p u t = flag_if g SELPGID OR flag_if p SELPID OR flag_if u SELUID OR flag_if t SELTASK"

definition got_ids :: "lsof_context \<Rightarrow> int \<Rightarrow> int \<Rightarrow> int \<Rightarrow> int \<Rightarrow> flags32" where
  "got_ids ctx pid pgid uid tid = ids
    (has_flag (selflags ctx) SELPGID \<and> tab_lookup il_i il_x (spgid ctx) pgid = Some False)
    (has_flag (selflags ctx) SELPID \<and> tab_lookup il_i il_x (spid ctx) pid = Some False)
    (has_flag (selflags ctx) SELUID \<and> tab_lookup su_uid su_excl (suid ctx) uid = Some False)
    (has_flag (selflags ctx) SELTASK \<and> tid \<noteq> 0)"

definition only_ids :: "lsof_context \<Rightarrow> bool" where
  "only_ids ctx \<longleftrightarrow> selflags ctx = SELPGID \<and> st_incl (spgid ctx) \<noteq> 0
    \<or> selflags ctx = SELPID \<and> st_incl (spid ctx) \<noteq> 0 \<or> selflags ctx = SELUID \<and> st_incl (suid ctx) \<noteq> 0"

lemma pe_excluded_iff: "sel_ok ctx \<Longrightarrow> pe_excluded ctx pid pgid uid \<longleftrightarrow> id_excluded ctx pid pgid uid"
  by (auto simp: pe_excluded_def id_excluded_def sel_ok_def tab_excl_scan [symmetric])

section \<open>Flag algebra\<close>

lemma flag_if_simps [simp]: "flag_if True f = f" "flag_if False f = 0"
  by (simp_all add: flag_if_def)

lemma has_flag_andD: "has_flag (x AND y) b \<Longrightarrow> has_flag x b"
  by (metis (no_types, lifting) and.assoc and.commute and_zero_eq)

lemma ids_has [simp]:
  "has_flag (ids g p u t) SELPGID = g" "has_flag (ids g p u t) SELPID = p"
  "has_flag (ids g p u t) SELUID = u" "has_flag (ids g p u t) SELTASK = t"
  by (simp_all add: ids_def has_flag_or flag_if_def flag_simps)

lemma ids_eq [simp]: "ids g p u t = ids g' p' u' t' \<longleftrightarrow> g = g' \<and> p = p' \<and> u = u' \<and> t = t'"
proof
  assume e: "ids g p u t = ids g' p' u' t'"
  show "g = g' \<and> p = p' \<and> u = u' \<and> t = t'"
    using ids_has [of g p u t] ids_has [of g' p' u' t'] unfolding e by blast
qed simp

lemma ids_zero: "ids False False False False = 0"
  by (simp add: ids_def)

lemma ids_eq_zero [simp]: "ids g p u t = 0 \<longleftrightarrow> \<not> g \<and> \<not> p \<and> \<not> u \<and> \<not> t"
  using ids_eq [of g p u t False False False False] by (simp add: ids_zero)

lemma and_bit: "w AND (2 :: 32 word) ^ n = flag_if (has_flag w (2 ^ n)) (2 ^ n)"
proof (cases "bit w n")
  case True
  then have "w AND 2 ^ n = 2 ^ n"
    by (intro bit_eqI) (auto simp: bit_simps)
  then show ?thesis using True by (auto simp: flag_if_def)
next
  case False
  then have "w AND 2 ^ n = 0" by (intro bit_eqI) (auto simp: bit_simps)
  then show ?thesis by simp
qed

lemma and_id_bits:
  "w AND SELPGID = flag_if (has_flag w SELPGID) SELPGID"
  "w AND SELPID = flag_if (has_flag w SELPID) SELPID"
  "w AND SELUID = flag_if (has_flag w SELUID) SELUID"
  "w AND SELTASK = flag_if (has_flag w SELTASK) SELTASK"
  using and_bit [of w 8] and_bit [of w 9] and_bit [of w 10] and_bit [of w 14]
  by (simp_all add: flag_simps)

lemma and_SELIDS:
  "w AND SELIDS = ids (has_flag w SELPGID) (has_flag w SELPID) (has_flag w SELUID) (has_flag w SELTASK)"
  unfolding SELIDS_def bit.conj_disj_distrib ids_def by (intro arg_cong2 [where f = "(OR)"] and_id_bits)

lemma and_id_flag:
  "b = SELPGID \<or> b = SELPID \<or> b = SELUID \<or> b = SELTASK \<Longrightarrow> x AND b = flag_if (has_flag x b) b"
  by (elim disjE; hypsubst; rule and_id_bits)

lemma ids_mask: "(ids g p u t AND w) AND SELIDS = ids (g \<and> has_flag w SELPGID) (p \<and> has_flag w SELPID)
    (u \<and> has_flag w SELUID) (t \<and> has_flag w SELTASK)"
proof -
  have "has_flag (ids g p u t AND w) b \<longleftrightarrow> has_flag (ids g p u t) b \<and> has_flag w b"
    if "b = SELPGID \<or> b = SELPID \<or> b = SELUID \<or> b = SELTASK" for b
  proof -
    have "(ids g p u t AND w) AND b = (ids g p u t AND b) AND (w AND b)"
      by (simp add: ac_simps)
    also have "\<dots> = flag_if (has_flag (ids g p u t) b) b AND flag_if (has_flag w b) b"
      by (rule arg_cong2 [where f = "(AND)", OF and_id_flag [OF that] and_id_flag [OF that]])
    finally show ?thesis using that by (auto simp: flag_if_def flag_simps)
  qed
  then show ?thesis unfolding and_SELIDS by simp
qed

lemma ids_in_SELIDS: "ids g p u t AND SELIDS = ids g p u t"
  by (simp add: and_SELIDS)

section \<open>The inclusion tests\<close>

definition same_request :: "lsof_context \<Rightarrow> lsof_context \<Rightarrow> bool" where
  "same_request c d \<longleftrightarrow> selflags c = selflags d \<and> fand c = fand d \<and> allproc c = allproc d
    \<and> cmdl c = cmdl d \<and> cmdrx c = cmdrx d \<and> cmdni c = cmdni d \<and> cmdnx c = cmdnx d \<and> fdl c = fdl d \<and> fdlty c = fdlty d
    \<and> fepte c = fepte d \<and> lf c = lf d"

definition pgid_marked :: "int \<Rightarrow> lsof_context \<Rightarrow> lsof_context" where
  "pgid_marked pgid ctx = (if st_incl (spgid ctx) \<noteq> 0 \<and> has_flag (selflags ctx) SELPGID
    then ctx\<lparr> spgid := (spgid ctx)\<lparr> st_ents := snd (incl_scan il_x (\<lambda>e. il_i e = pgid) (\<lambda>e. e\<lparr> il_f := True \<rparr>)
      (st_incl (spgid ctx)) 0 (st_ents (spgid ctx))) \<rparr> \<rparr> else ctx)"

definition pid_marked :: "int \<Rightarrow> lsof_context \<Rightarrow> lsof_context" where
  "pid_marked pid ctx = (if st_incl (spid ctx) \<noteq> 0 \<and> has_flag (selflags ctx) SELPID
    then ctx\<lparr> spid := (spid ctx)\<lparr> st_ents := snd (incl_scan il_x (\<lambda>e. il_i e = pid) (\<lambda>e. e\<lparr> il_f := True \<rparr>)
      (st_incl (spid ctx)) 0 (st_ents (spid ctx))) \<rparr> \<rparr> else ctx)"

definition uid_marked :: "int \<Rightarrow> lsof_context \<Rightarrow> lsof_context" where
  "uid_marked uid ctx = (if st_incl (suid ctx) \<noteq> 0 \<and> has_flag (selflags ctx) SELUID
    then ctx\<lparr> suid := (suid ctx)\<lparr> st_ents := snd (incl_scan su_excl (\<lambda>e. su_uid e = uid) (\<lambda>e. e\<lparr> su_f := True \<rparr>)
      (st_incl (suid ctx)) 0 (st_ents (suid ctx))) \<rparr> \<rparr> else ctx)"

lemma marked_frame [simp]:
  "selflags (pgid_marked i c) = selflags c" "fand (pgid_marked i c) = fand c"
  "spid (pgid_marked i c) = spid c" "suid (pgid_marked i c) = suid c"
  "selflags (pid_marked i c) = selflags c" "fand (pid_marked i c) = fand c" "suid (pid_marked i c) = suid c"
  "selflags (uid_marked i c) = selflags c" "fand (uid_marked i c) = fand c"
  by (simp_all add: pgid_marked_def pid_marked_def uid_marked_def)

lemma marked_same [simp]:
  "same_request (pgid_marked i c) d = same_request c d"
  "same_request (pid_marked i c) d = same_request c d"
  "same_request (uid_marked i c) d = same_request c d"
  by (simp_all add: pgid_marked_def pid_marked_def uid_marked_def same_request_def)

lemma same_request_refl [simp]: "same_request c c"
  by (simp add: same_request_def)

lemma pe_pgid_stage:
  assumes "tab_ok il_i il_x (spgid ctx)" and "h = (tab_lookup il_i il_x (spgid ctx) pgid = Some False)"
  shows "pe_pgid pgid 0 0 ctx =
    (if st_incl (spgid ctx) \<noteq> 0 \<and> selflags ctx = SELPGID then Some (\<not> h) else None,
     flag_if (has_flag (selflags ctx) SELPGID \<and> h) PS_PRI,
     flag_if (has_flag (selflags ctx) SELPGID \<and> h) SELPGID, pgid_marked pgid ctx)"
  using tab_incl_scan [OF assms(1), of pgid "\<lambda>e. e\<lparr> il_f := True \<rparr>"] unfolding assms(2) [symmetric]
  by (auto simp: pe_pgid_def pgid_marked_def case_prod_beta Let_def flag_simps)

lemma pe_pid_stage:
  assumes "tab_ok il_i il_x (spid ctx)" and "h = (tab_lookup il_i il_x (spid ctx) pid = Some False)"
  shows "pe_pid pid pss sf ctx =
    (if st_incl (spid ctx) \<noteq> 0 \<and> selflags ctx = SELPID
     then (if h then Some False else if sf = 0 then Some True else None) else None,
     if has_flag (selflags ctx) SELPID \<and> h then PS_PRI else pss,
     sf OR flag_if (has_flag (selflags ctx) SELPID \<and> h) SELPID, pid_marked pid ctx)"
  using tab_incl_scan [OF assms(1), of pid "\<lambda>e. e\<lparr> il_f := True \<rparr>"] unfolding assms(2) [symmetric]
  by (auto simp: pe_pid_def pid_marked_def case_prod_beta Let_def flag_simps)

lemma pe_uid_stage:
  assumes "tab_ok su_uid su_excl (suid ctx)" and "h = (tab_lookup su_uid su_excl (suid ctx) uid = Some False)"
  shows "pe_uid uid pss sf ctx =
    (if st_incl (suid ctx) \<noteq> 0 \<and> selflags ctx = SELUID
     then (if h then Some False else if sf AND SELUID = 0 then Some True else None) else None,
     if has_flag (selflags ctx) SELUID \<and> h then PS_PRI else pss,
     sf OR flag_if (has_flag (selflags ctx) SELUID \<and> h) SELUID, uid_marked uid ctx)"
  using tab_incl_scan [OF assms(1), of uid "\<lambda>e. e\<lparr> su_f := True \<rparr>"] unfolding assms(2) [symmetric]
  by (auto simp: pe_uid_def uid_marked_def case_prod_beta Let_def flag_simps)

lemma lookup_incl_pos:
  "tab_ok ident excl t \<Longrightarrow> tab_lookup ident excl t i = Some False \<Longrightarrow> st_incl t \<noteq> 0"
  using tab_incl_scan [of ident excl t i] by blast

lemma pe_task_final:
  assumes "fl = selflags c" and "T = has_flag fl SELTASK" and "g \<longrightarrow> has_flag fl SELPGID"
    and "p \<longrightarrow> has_flag fl SELPID" and "u \<longrightarrow> has_flag fl SELUID"
    and "t = (T \<and> tid \<noteq> 0)"
  shows "pe_then (pe_task tid (flag_if (g \<or> p \<or> u) PS_PRI) (ids g p u False) c) pe_final =
    (fand c \<and> ids g p u t \<noteq> fl AND SELIDS, flag_if (ids g p u t \<noteq> 0) PS_PRI, ids g p u t, c)"
proof (cases t)
  case False
  then have "pe_task tid (flag_if (g \<or> p \<or> u) PS_PRI) (ids g p u False) c =
      (None, flag_if (g \<or> p \<or> u) PS_PRI, ids g p u False, c)"
    using assms by (auto simp: pe_task_def)
  then show ?thesis
    using False assms(1,3-5) by (auto simp: pe_then_def pe_final_def and_SELIDS)
next
  case True
  have or: "ids g p u False OR SELTASK = ids g p u True"
    by (simp add: ids_def or.assoc)
  have early: "ids g p u True = fl AND SELIDS" if "fl = SELTASK \<or> ids g p u True AND fl = fl"
    using that
  proof
    assume "fl = SELTASK"
    then show ?thesis using assms(3-5) by (simp add: ids_def flag_simps)
  next
    assume "ids g p u True AND fl = fl"
    then have "fl AND SELIDS = (ids g p u True AND fl) AND SELIDS" by simp
    also have "\<dots> = ids g p u True"
      unfolding ids_mask using assms(2-6) True by auto
    finally show ?thesis by simp
  qed
  have has: "has_flag fl SELIDS" using True assms by (simp add: and_SELIDS)
  have task: "pe_task tid (flag_if (g \<or> p \<or> u) PS_PRI) (ids g p u False) c =
      (if fl = SELTASK \<or> fand c \<and> ids g p u True AND fl = fl then Some False else None, PS_PRI, ids g p u True, c)"
    using True assms(1,2,6) by (simp add: pe_task_def or Let_def)
  show ?thesis
  proof (cases "fl = SELTASK \<or> fand c \<and> ids g p u True AND fl = fl")
    case eq: True
    then have "ids g p u True = fl AND SELIDS" using early by blast
    then show ?thesis unfolding task pe_then_def using eq True has by simp
  next
    case False
    then show ?thesis unfolding task pe_then_def pe_final_def using True has assms(1) by auto
  qed
qed

text \<open>
  The decision of \<open>is_proc_excl\<close> after the exclusion tests, over the truth values of the three
  inclusion matches \<open>hg\<close>, \<open>hp\<close>, \<open>hu\<close>.
\<close>

lemma is_proc_excl_stages:
  fixes tid :: int
  assumes ok: "sel_ok ctx" and "\<not> id_excluded ctx pid pgid uid" and "\<not> allproc ctx"
    and hg: "hg = (tab_lookup il_i il_x (spgid ctx) pgid = Some False)"
    and hp: "hp = (tab_lookup il_i il_x (spid ctx) pid = Some False)"
    and hu: "hu = (tab_lookup su_uid su_excl (suid ctx) uid = Some False)"
    and fl: "fl = selflags ctx"
  defines "g \<equiv> has_flag fl SELPGID \<and> hg" and "p \<equiv> has_flag fl SELPID \<and> hp" and "u \<equiv> has_flag fl SELUID \<and> hu"
    and "t \<equiv> has_flag fl SELTASK \<and> tid \<noteq> 0"
  defines "c \<equiv> uid_marked uid (pid_marked pid (pgid_marked pgid ctx))"
  shows "is_proc_excl ctx pid pgid uid tid =
    (if st_incl (spgid ctx) \<noteq> 0 \<and> fl = SELPGID
     then (\<not> hg, flag_if g PS_PRI, flag_if g SELPGID, pgid_marked pgid ctx)
     else if st_incl (spid ctx) \<noteq> 0 \<and> fl = SELPID \<and> (hp \<or> \<not> g)
     then (\<not> hp, flag_if (g \<or> p) PS_PRI, ids g p False False, pid_marked pid (pgid_marked pgid ctx))
     else if st_incl (suid ctx) \<noteq> 0 \<and> fl = SELUID
     then (\<not> hu, flag_if (g \<or> p \<or> u) PS_PRI, ids g p u False, c)
     else (fand ctx \<and> ids g p u t \<noteq> fl AND SELIDS, flag_if (ids g p u t \<noteq> 0) PS_PRI, ids g p u t, c))"
proof -
  have tabs: "tab_ok il_i il_x (spgid ctx)" "tab_ok il_i il_x (spid ctx)" "tab_ok su_uid su_excl (suid ctx)"
    using ok by (simp_all add: sel_ok_def)
  have eq: "is_proc_excl ctx pid pgid uid tid =
      pe_then (pe_pgid pgid 0 0 ctx) (\<lambda>pss sf ctx. pe_then (pe_pid pid pss sf ctx) (\<lambda>pss sf ctx.
        pe_then (pe_uid uid pss sf ctx) (\<lambda>pss sf ctx. pe_then (pe_task tid pss sf ctx) pe_final)))"
    using assms(1-3) by (simp add: is_proc_excl_def pe_excluded_iff)
  have s1: "pe_pgid pgid 0 0 ctx = (if st_incl (spgid ctx) \<noteq> 0 \<and> fl = SELPGID then Some (\<not> hg) else None,
      flag_if g PS_PRI, flag_if g SELPGID, pgid_marked pgid ctx)"
    unfolding g_def fl by (rule pe_pgid_stage [OF tabs(1) hg])
  have s2: "pe_pid pid pss sf (pgid_marked pgid ctx) =
      (if st_incl (spid ctx) \<noteq> 0 \<and> fl = SELPID
       then (if hp then Some False else if sf = 0 then Some True else None) else None,
       if p then PS_PRI else pss, sf OR flag_if p SELPID, pid_marked pid (pgid_marked pgid ctx))" for pss sf
    using pe_pid_stage [of "pgid_marked pgid ctx" hp pid pss sf] tabs(2) hp by (simp add: p_def fl)
  have s3: "pe_uid uid pss sf (pid_marked pid (pgid_marked pgid ctx)) =
      (if st_incl (suid ctx) \<noteq> 0 \<and> fl = SELUID
       then (if hu then Some False else if sf AND SELUID = 0 then Some True else None) else None,
       if u then PS_PRI else pss, sf OR flag_if u SELUID, c)" for pss sf
    using pe_uid_stage [of "pid_marked pid (pgid_marked pgid ctx)" hu uid pss sf] tabs(3) hu
    by (simp add: u_def fl c_def)
  have sf2: "flag_if g SELPGID OR flag_if p SELPID = ids g p False False"
    and sf3: "ids g p False False OR flag_if u SELUID = ids g p u False"
    and sf1: "flag_if g SELPGID = 0 \<longleftrightarrow> \<not> g"
    by (simp_all add: ids_def or.assoc flag_if_def flag_simps)
  have pss: "(if p then PS_PRI else flag_if g PS_PRI) = flag_if (g \<or> p) PS_PRI"
    "(if u then PS_PRI else flag_if (g \<or> p) PS_PRI) = flag_if (g \<or> p \<or> u) PS_PRI"
    by (simp_all add: flag_if_def)
  have no_uid: "ids g p False False AND SELUID = 0" using ids_has(3) [of g p False False] by blast
  have tail: "pe_then (pe_task tid (flag_if (g \<or> p \<or> u) PS_PRI) (ids g p u False) c) pe_final =
      (fand ctx \<and> ids g p u t \<noteq> fl AND SELIDS, flag_if (ids g p u t \<noteq> 0) PS_PRI, ids g p u t, c)"
    using pe_task_final [of fl c "has_flag fl SELTASK" g p u t tid]
    by (simp add: g_def p_def u_def t_def c_def fl)
  have step1: "is_proc_excl ctx pid pgid uid tid =
      (if st_incl (spgid ctx) \<noteq> 0 \<and> fl = SELPGID
       then (\<not> hg, flag_if g PS_PRI, flag_if g SELPGID, pgid_marked pgid ctx)
       else pe_then (pe_pid pid (flag_if g PS_PRI) (flag_if g SELPGID) (pgid_marked pgid ctx)) (\<lambda>pss sf ctx.
        pe_then (pe_uid uid pss sf ctx) (\<lambda>pss sf ctx. pe_then (pe_task tid pss sf ctx) pe_final)))"
    unfolding eq s1 by (simp add: pe_then_def)
  have step2: "pe_then (pe_pid pid (flag_if g PS_PRI) (flag_if g SELPGID) (pgid_marked pgid ctx)) (\<lambda>pss sf ctx.
        pe_then (pe_uid uid pss sf ctx) (\<lambda>pss sf ctx. pe_then (pe_task tid pss sf ctx) pe_final)) =
      (if st_incl (spid ctx) \<noteq> 0 \<and> fl = SELPID \<and> (hp \<or> \<not> g)
       then (\<not> hp, flag_if (g \<or> p) PS_PRI, ids g p False False, pid_marked pid (pgid_marked pgid ctx))
       else pe_then (pe_uid uid (flag_if (g \<or> p) PS_PRI) (ids g p False False) (pid_marked pid (pgid_marked pgid ctx)))
         (\<lambda>pss sf ctx. pe_then (pe_task tid pss sf ctx) pe_final))"
    unfolding s2 sf2 pss sf1 by (simp add: pe_then_def)
  have step3: "pe_then (pe_uid uid (flag_if (g \<or> p) PS_PRI) (ids g p False False) (pid_marked pid (pgid_marked pgid ctx)))
         (\<lambda>pss sf ctx. pe_then (pe_task tid pss sf ctx) pe_final) =
      (if st_incl (suid ctx) \<noteq> 0 \<and> fl = SELUID
       then (\<not> hu, flag_if (g \<or> p \<or> u) PS_PRI, ids g p u False, c)
       else pe_then (pe_task tid (flag_if (g \<or> p \<or> u) PS_PRI) (ids g p u False) c) pe_final)"
    unfolding s3 sf3 pss no_uid by (simp add: pe_then_def)
  show ?thesis unfolding step1 step2 step3 tail ..
qed

lemma is_proc_excl_ids:
  assumes ok: "sel_ok ctx" and "\<not> id_excluded ctx pid pgid uid" and "\<not> allproc ctx"
  shows "\<exists>c. is_proc_excl ctx pid pgid uid tid =
      (if fand ctx then got_ids ctx pid pgid uid tid \<noteq> selflags ctx AND SELIDS
       else only_ids ctx \<and> got_ids ctx pid pgid uid tid = 0,
       flag_if (got_ids ctx pid pgid uid tid \<noteq> 0) PS_PRI, got_ids ctx pid pgid uid tid, c)
    \<and> same_request c ctx"
proof -
  define fl where "fl = selflags ctx"
  define hg where "hg = (tab_lookup il_i il_x (spgid ctx) pgid = Some False)"
  define hp where "hp = (tab_lookup il_i il_x (spid ctx) pid = Some False)"
  define hu where "hu = (tab_lookup su_uid su_excl (suid ctx) uid = Some False)"
  have pos: "hg \<Longrightarrow> st_incl (spgid ctx) \<noteq> 0" "hp \<Longrightarrow> st_incl (spid ctx) \<noteq> 0" "hu \<Longrightarrow> st_incl (suid ctx) \<noteq> 0"
    using ok lookup_incl_pos [of il_i il_x "spgid ctx" pgid] lookup_incl_pos [of il_i il_x "spid ctx" pid]
      lookup_incl_pos [of su_uid su_excl "suid ctx" uid]
    by (simp_all add: sel_ok_def hg_def hp_def hu_def)
  have got: "got_ids ctx pid pgid uid tid =
      ids (has_flag fl SELPGID \<and> hg) (has_flag fl SELPID \<and> hp) (has_flag fl SELUID \<and> hu) (has_flag fl SELTASK \<and> tid \<noteq> 0)"
    by (simp add: got_ids_def hg_def hp_def hu_def fl_def)
  note stages = is_proc_excl_stages [OF assms hg_def hp_def hu_def fl_def, of tid]
  have only: "only_ids ctx \<longleftrightarrow> fl = SELPGID \<and> st_incl (spgid ctx) \<noteq> 0
      \<or> fl = SELPID \<and> st_incl (spid ctx) \<noteq> 0 \<or> fl = SELUID \<and> st_incl (suid ctx) \<noteq> 0"
    by (simp add: only_ids_def fl_def)
  have want: "fl AND SELIDS =
      ids (has_flag fl SELPGID) (has_flag fl SELPID) (has_flag fl SELUID) (has_flag fl SELTASK)"
    by (simp add: and_SELIDS)
  have eq: "fst (is_proc_excl ctx pid pgid uid tid) =
        (if fand ctx then got_ids ctx pid pgid uid tid \<noteq> selflags ctx AND SELIDS
         else only_ids ctx \<and> got_ids ctx pid pgid uid tid = 0)
      \<and> fst (snd (is_proc_excl ctx pid pgid uid tid)) = flag_if (got_ids ctx pid pgid uid tid \<noteq> 0) PS_PRI
      \<and> fst (snd (snd (is_proc_excl ctx pid pgid uid tid))) = got_ids ctx pid pgid uid tid"
  proof -
    consider "fl = SELPGID" | "fl = SELPID" | "fl = SELUID" | "fl \<noteq> SELPGID" "fl \<noteq> SELPID" "fl \<noteq> SELUID" by blast
    then show ?thesis
    proof cases
      case 1
      then have "has_flag fl SELPGID" "\<not> has_flag fl SELPID" "\<not> has_flag fl SELUID" "\<not> has_flag fl SELTASK"
        "fl \<noteq> SELPID" "fl \<noteq> SELUID" by (simp_all add: flag_simps)
      moreover have "flag_if hg SELPGID = ids hg False False False" by (simp add: ids_def)
      ultimately show ?thesis unfolding stages got want only fl_def [symmetric] using 1 pos by auto
    next
      case 2
      then have "\<not> has_flag fl SELPGID" "has_flag fl SELPID" "\<not> has_flag fl SELUID" "\<not> has_flag fl SELTASK"
        "fl \<noteq> SELPGID" "fl \<noteq> SELUID" by (simp_all add: flag_simps)
      then show ?thesis unfolding stages got want only fl_def [symmetric] using 2 pos by auto
    next
      case 3
      then have "\<not> has_flag fl SELPGID" "\<not> has_flag fl SELPID" "has_flag fl SELUID" "\<not> has_flag fl SELTASK"
        "fl \<noteq> SELPGID" "fl \<noteq> SELPID" by (simp_all add: flag_simps)
      then show ?thesis unfolding stages got want only fl_def [symmetric] using 3 pos by auto
    next
      case 4
      then show ?thesis unfolding stages got want only fl_def [symmetric] by simp
    qed
  qed
  have same: "same_request (snd (snd (snd (is_proc_excl ctx pid pgid uid tid)))) ctx"
    unfolding stages by simp
  obtain r pss sf c where "is_proc_excl ctx pid pgid uid tid = (r, pss, sf, c)" by (metis prod_cases4)
  then show ?thesis using eq same by (intro exI [of _ c]) simp
qed


section \<open>Command and descriptor selections\<close>

definition cmd_begins :: "cstring \<Rightarrow> str_lst \<Rightarrow> bool" where
  "cmd_begins cmd sp \<longleftrightarrow> (\<exists>rest. cmd = sl_str sp @ rest)"

definition cmd_excluded :: "lsof_context \<Rightarrow> cstring \<Rightarrow> bool" where
  "cmd_excluded ctx cmd \<longleftrightarrow> (\<exists>sp \<in> set (cmdl ctx). sl_x sp \<and> cmd_begins cmd sp)"

definition got_cmd :: "(lsof_rx \<Rightarrow> cstring \<Rightarrow> bool) \<Rightarrow> lsof_context \<Rightarrow> cstring \<Rightarrow> bool" where
  "got_cmd regexec ctx cmd \<longleftrightarrow> has_flag (selflags ctx) SELCMD \<and>
    ((\<exists>sp \<in> set (cmdl ctx). \<not> sl_x sp \<and> cmd_begins cmd sp) \<or> (\<exists>r \<in> set (cmdrx ctx). regexec r cmd))"

definition fd_listed :: "lsof_context \<Rightarrow> lsof_fd_type \<Rightarrow> int \<Rightarrow> bool" where
  "fd_listed ctx fd_type num \<longleftrightarrow> (\<exists>fp \<in> set (fdl ctx). fl_type fp = fd_type
    \<and> (fd_type = LSOF_FD_NUMERIC \<longrightarrow> fl_lo fp \<le> num \<and> num \<le> fl_hi fp))"

definition got_fd :: "lsof_context \<Rightarrow> lsof_fd_type \<Rightarrow> int \<Rightarrow> bool" where
  "got_fd ctx fd_type num \<longleftrightarrow> fdl ctx \<noteq> [] \<and> \<not> (fd_type = LSOF_FD_NUMERIC \<and> num < 0)
    \<and> (fdlty ctx = 0 \<and> fd_listed ctx fd_type num \<or> fdlty ctx = 1 \<and> \<not> fd_listed ctx fd_type num)"

lemma cmd_hit_begins: "sl_len sp = length (sl_str sp) \<Longrightarrow> cmd_hit cmd sp \<longleftrightarrow> cmd_begins cmd sp"
  by (auto simp: cmd_hit_def cmd_begins_def) (metis append_take_drop_id)

lemma mark_cmd_found: "fst (mark_cmd cmd sps) \<longleftrightarrow> (\<exists>sp \<in> set sps. \<not> sl_x sp \<and> cmd_hit cmd sp)"
  by (induction sps) (auto split: prod.split)

lemma mark_rx_found: "fst (mark_rx regexec cmd rs) \<longleftrightarrow> (\<exists>r \<in> set rs. regexec r cmd)"
  by (induction rs) (auto split: prod.split)

lemma is_cmd_excl_spec:
  assumes "cmd_ok ctx" and "is_cmd_excl regexec ctx cmd pss sf = (x, pss', sf', c)"
  shows "x = (cmd_excluded ctx cmd \<or> has_flag (selflags ctx) SELCMD \<and> \<not> got_cmd regexec ctx cmd
      \<and> (selflags ctx = SELCMD \<or> fand ctx))"
    and "\<not> x \<Longrightarrow> pss' = pss OR flag_if (got_cmd regexec ctx cmd) PS_PRI
      \<and> sf' = sf OR flag_if (got_cmd regexec ctx cmd) SELCMD"
    and "selflags c = selflags ctx \<and> fand c = fand ctx \<and> allproc c = allproc ctx
      \<and> fdl c = fdl ctx \<and> fdlty c = fdlty ctx \<and> fepte c = fepte ctx"
proof -
  have len: "sp \<in> set (cmdl ctx) \<Longrightarrow> cmd_hit cmd sp \<longleftrightarrow> cmd_begins cmd sp" for sp
    using assms(1) by (auto simp: cmd_ok_def cmd_hit_begins)
  have excl: "cmdl ctx \<noteq> [] \<and> cmdnx ctx \<noteq> 0 \<and> list_ex (\<lambda>sp. sl_x sp \<and> cmd_hit cmd sp) (cmdl ctx)
      \<longleftrightarrow> cmd_excluded ctx cmd"
    using assms(1) len by (auto simp: cmd_excluded_def cmd_ok_def list_ex_iff filter_empty_conv)
  have inc: "fst (mark_cmd cmd (cmdl ctx)) \<longleftrightarrow> (\<exists>sp \<in> set (cmdl ctx). \<not> sl_x sp \<and> cmd_begins cmd sp)"
    using len by (auto simp: mark_cmd_found)
  have got: "has_flag (selflags ctx) SELCMD \<Longrightarrow> got_cmd regexec ctx cmd \<longleftrightarrow>
      fst (mark_cmd cmd (cmdl ctx)) \<or> fst (mark_rx regexec cmd (cmdrx ctx))"
    by (simp add: got_cmd_def inc mark_rx_found)
  have nogot: "selflags ctx AND SELCMD = 0 \<Longrightarrow> \<not> got_cmd regexec ctx cmd" by (simp add: got_cmd_def)
  note r = assms(2) [unfolded is_cmd_excl_def excl case_prod_beta Let_def]
  show "x = (cmd_excluded ctx cmd \<or> has_flag (selflags ctx) SELCMD \<and> \<not> got_cmd regexec ctx cmd
      \<and> (selflags ctx = SELCMD \<or> fand ctx))"
    using r got nogot by (auto split: if_splits)
  show "\<not> x \<Longrightarrow> pss' = pss OR flag_if (got_cmd regexec ctx cmd) PS_PRI
      \<and> sf' = sf OR flag_if (got_cmd regexec ctx cmd) SELCMD"
    using r got nogot by (auto split: if_splits)
  show "selflags c = selflags ctx \<and> fand c = fand ctx \<and> allproc c = allproc ctx
      \<and> fdl c = fdl ctx \<and> fdlty c = fdlty ctx \<and> fepte c = fepte ctx"
    using r by (auto split: if_splits)
qed

lemma ck_fd_hit:
  "list_ex (\<lambda>fp. fl_type fp = fd_type
     \<and> (if fl_type fp = LSOF_FD_NUMERIC then fl_lo fp \<le> num \<and> num \<le> fl_hi fp else True)) (fdl ctx)
   \<longleftrightarrow> fd_listed ctx fd_type num"
  unfolding fd_listed_def list_ex_iff by (intro bex_cong) auto

lemma fd_select_sf:
  "lf_sf (fd_select ctx fd_type num l) = lf_sf l OR flag_if (got_fd ctx fd_type num) SELFD"
  by (auto simp: fd_select_def got_fd_def ck_fd_status_def ck_fd_hit Let_def)

lemma alloc_lfile_sf:
  "lf (alloc_lfile mem lp fd_type num ctx) = Some l \<Longrightarrow>
    lf_sf l = (if has_flag (lp_pss lp) PS_PRI then lp_sf lp else 0) OR flag_if (got_fd ctx fd_type num) SELFD"
  by (auto simp: alloc_lfile_def Let_def fd_select_sf init_lfile_def)

section \<open>What is listed\<close>

text \<open>
  The pipeline of a descriptor file: the process is examined, its record allocated, the file
  allocated for the descriptor, and the listing decision taken on it.
\<close>

definition fd_file_listed ::
  "(lsof_rx \<Rightarrow> cstring \<Rightarrow> bool) \<Rightarrow> lfile \<Rightarrow> int \<Rightarrow> int \<Rightarrow> int \<Rightarrow> int \<Rightarrow> cstring \<Rightarrow> int \<Rightarrow> cstring option
    \<Rightarrow> lsof_fd_type \<Rightarrow> int \<Rightarrow> lsof_context \<Rightarrow> bool run" where
  "fd_file_listed regexec mem pid pgid ppid uid cmd tid tcmd fd_type num ctx =
    (case process_id_start regexec pid pgid ppid uid cmd tid tcmd ctx of
       Exited v \<Rightarrow> Exited v
     | Done (True, c) \<Rightarrow> Done False
     | Done (False, c) \<Rightarrow>
         (let c1 = alloc_lfile mem (last (lprocs c)) fd_type num c in Done (is_file_sel c1 (lf c1))))"

definition met :: "(lsof_rx \<Rightarrow> cstring \<Rightarrow> bool) \<Rightarrow> lsof_context \<Rightarrow> int \<Rightarrow> int \<Rightarrow> int \<Rightarrow> cstring \<Rightarrow> int
    \<Rightarrow> lsof_fd_type \<Rightarrow> int \<Rightarrow> flags32" where
  "met regexec ctx pid pgid uid cmd tid fd_type num =
    got_ids ctx pid pgid uid tid OR flag_if (got_cmd regexec ctx cmd) SELCMD
    OR flag_if (got_fd ctx fd_type num) SELFD"

lemma alloc_lproc_last:
  assumes "alloc_lproc pid pgid ppid uid cmd pss sf ctx = Done c"
  shows "lprocs c \<noteq> [] \<and> lp_pss (last (lprocs c)) = pss \<and> lp_sf (last (lprocs c)) = sf
    \<and> selflags c = selflags ctx \<and> fand c = fand ctx \<and> allproc c = allproc ctx
    \<and> fdl c = fdl ctx \<and> fdlty c = fdlty ctx"
  using assms by (auto simp: alloc_lproc_def Let_def split: if_splits option.splits)

lemma alloc_lfile_frame [simp]:
  "selflags (alloc_lfile m p t n c) = selflags c" "fand (alloc_lfile m p t n c) = fand c"
  "allproc (alloc_lfile m p t n c) = allproc c"
  by (simp_all add: alloc_lfile_def Let_def)

lemma met_bits:
  assumes "w = ids g p u t OR flag_if c SELCMD OR flag_if f SELFD"
  shows "\<not> has_flag w SELEXCLF" and "w = 0 \<longleftrightarrow> \<not> (g \<or> p \<or> u \<or> t \<or> c \<or> f)"
    and "has_flag w SELCMD \<longleftrightarrow> c" and "(w AND fl) AND SELIDS = (ids g p u t AND fl) AND SELIDS"
proof -
  have parts: "ids g p u t AND SELEXCLF = 0" "ids g p u t AND SELCMD = 0" "ids g p u t AND SELFD = 0"
    by (cases g; cases p; cases u; cases t; simp add: ids_def flag_simps)+
  show "\<not> has_flag w SELEXCLF" and c: "has_flag w SELCMD \<longleftrightarrow> c"
    unfolding assms has_flag_or using parts by (simp_all add: flag_if_def flag_simps)
  have f: "has_flag w SELFD \<longleftrightarrow> f"
    unfolding assms has_flag_or using parts by (simp add: flag_if_def flag_simps)
  have i: "w AND SELIDS = ids g p u t"
    unfolding assms bit.conj_disj_distrib2 ids_in_SELIDS by (simp add: flag_if_def flag_simps)
  show "(w AND fl) AND SELIDS = (ids g p u t AND fl) AND SELIDS"
    by (metis (no_types, lifting) and.assoc and.commute i ids_in_SELIDS)
  show "w = 0 \<longleftrightarrow> \<not> (g \<or> p \<or> u \<or> t \<or> c \<or> f)"
  proof
    assume "w = 0"
    then show "\<not> (g \<or> p \<or> u \<or> t \<or> c \<or> f)" using c f i ids_eq_zero [of g p u t] by simp
  next
    assume "\<not> (g \<or> p \<or> u \<or> t \<or> c \<or> f)"
    then show "w = 0" using assms ids_zero by simp
  qed
qed

lemma got_ids_part:
  "(got_ids ctx pid pgid uid tid AND selflags ctx) AND SELIDS = got_ids ctx pid pgid uid tid"
  by (simp add: got_ids_def ids_mask) blast

text \<open>Where a process is skipped, the selections that its files meet do not suffice either.\<close>

lemma met_insufficient_ids:
  assumes "if fand ctx then got_ids ctx pid pgid uid tid \<noteq> selflags ctx AND SELIDS
       else only_ids ctx \<and> got_ids ctx pid pgid uid tid = 0"
    and "fdl ctx \<noteq> [] \<longrightarrow> has_flag (selflags ctx) SELFD"
  shows "\<not> (met regexec ctx pid pgid uid cmd tid fd_type num \<noteq> 0
    \<and> (fand ctx \<longrightarrow> met regexec ctx pid pgid uid cmd tid fd_type num AND selflags ctx = selflags ctx))"
proof (cases "fand ctx")
  case True
  have "selflags ctx AND SELIDS = got_ids ctx pid pgid uid tid"
    if "met regexec ctx pid pgid uid cmd tid fd_type num AND selflags ctx = selflags ctx"
    using met_bits(4) [OF met_def [of regexec ctx pid pgid uid cmd tid fd_type num, unfolded got_ids_def], of "selflags ctx"]
      got_ids_part [of ctx pid pgid uid tid] that by (simp add: got_ids_def)
  then show ?thesis using assms(1) True by auto
next
  case False
  then have o: "only_ids ctx" "got_ids ctx pid pgid uid tid = 0" using assms(1) by simp_all
  then have "\<not> has_flag (selflags ctx) SELCMD" "\<not> has_flag (selflags ctx) SELFD"
    by (auto simp: only_ids_def flag_simps)
  then show ?thesis using o assms(2) by (simp add: met_def got_cmd_def got_fd_def)
qed

lemma met_insufficient_cmd:
  assumes "has_flag (selflags ctx) SELCMD" and "\<not> got_cmd regexec ctx cmd" and "selflags ctx = SELCMD \<or> fand ctx"
    and "fdl ctx \<noteq> [] \<longrightarrow> has_flag (selflags ctx) SELFD"
  shows "\<not> (met regexec ctx pid pgid uid cmd tid fd_type num \<noteq> 0
    \<and> (fand ctx \<longrightarrow> met regexec ctx pid pgid uid cmd tid fd_type num AND selflags ctx = selflags ctx))"
proof (cases "fand ctx")
  case True
  have "\<not> has_flag (met regexec ctx pid pgid uid cmd tid fd_type num) SELCMD"
    using met_bits(3) [OF met_def [of regexec ctx pid pgid uid cmd tid fd_type num, unfolded got_ids_def]] assms(2)
    by simp
  then show ?thesis
    using True assms(1) has_flag_andD [of "met regexec ctx pid pgid uid cmd tid fd_type num" "selflags ctx" SELCMD]
    by auto
next
  case False
  then have "selflags ctx = SELCMD" using assms(3) by simp
  then show ?thesis
    using assms(2,4) by (simp add: met_def got_ids_def got_fd_def flag_simps ids_zero)
qed

lemma process_id_start_cases:
  assumes "process_id_start regexec pid pgid ppid uid cmd tid tcmd ctx = Done (skip, c)"
    and ok: "sel_ok ctx" and "\<not> allproc ctx" and ept: "fepte ctx = 0" and idx: "\<not> id_excluded ctx pid pgid uid"
  shows "skip = ((if fand ctx then got_ids ctx pid pgid uid tid \<noteq> selflags ctx AND SELIDS
         else only_ids ctx \<and> got_ids ctx pid pgid uid tid = 0)
      \<or> cmd_excluded ctx cmd \<or> has_flag (selflags ctx) SELCMD \<and> \<not> got_cmd regexec ctx cmd
        \<and> (selflags ctx = SELCMD \<or> fand ctx))"
    and "\<not> skip \<Longrightarrow>
      lp_pss (last (lprocs c)) = flag_if (got_ids ctx pid pgid uid tid \<noteq> 0 \<or> got_cmd regexec ctx cmd) PS_PRI
      \<and> lp_sf (last (lprocs c)) = got_ids ctx pid pgid uid tid OR flag_if (got_cmd regexec ctx cmd) SELCMD
      \<and> selflags c = selflags ctx \<and> fand c = fand ctx \<and> allproc c = allproc ctx
      \<and> fdl c = fdl ctx \<and> fdlty c = fdlty ctx"
proof -
  let ?x1 = "if fand ctx then got_ids ctx pid pgid uid tid \<noteq> selflags ctx AND SELIDS
         else only_ids ctx \<and> got_ids ctx pid pgid uid tid = 0"
  obtain c1 where e1: "is_proc_excl ctx pid pgid uid tid = (?x1, flag_if (got_ids ctx pid pgid uid tid \<noteq> 0) PS_PRI,
      got_ids ctx pid pgid uid tid, c1)" and s1: "same_request c1 ctx"
    using is_proc_excl_ids [OF ok idx assms(3), of tid] by blast
  have ok1: "cmd_ok c1" using ok s1 by (simp add: sel_ok_def cmd_ok_def same_request_def)
  have same: "cmd_excluded c1 cmd = cmd_excluded ctx cmd" "got_cmd regexec c1 cmd = got_cmd regexec ctx cmd"
    "selflags c1 = selflags ctx" "fand c1 = fand ctx" "fepte c1 = 0" "allproc c1 = allproc ctx"
    "fdl c1 = fdl ctx" "fdlty c1 = fdlty ctx"
    using s1 ept by (simp_all add: same_request_def cmd_excluded_def got_cmd_def)
  obtain x2 pss sf c2 where e2: "is_cmd_excl regexec c1 cmd (flag_if (got_ids ctx pid pgid uid tid \<noteq> 0) PS_PRI)
      (got_ids ctx pid pgid uid tid) = (x2, pss, sf, c2)" by (metis prod_cases4)
  note spec = is_cmd_excl_spec [OF ok1 e2, unfolded same]
  have start: "process_id_start regexec pid pgid ppid uid cmd tid tcmd ctx =
      (if ?x1 then Done (True, c1) else if x2 then Done (True, c2)
       else case alloc_lproc pid pgid ppid uid cmd pss sf c2 of
         Exited v \<Rightarrow> Exited v
       | Done ctx3 \<Rightarrow> Done (False, ctx3\<lparr> plf := False,
         lprocs := butlast (lprocs ctx3) @ [(last (lprocs ctx3))\<lparr> lp_tid := tid,
           lp_tcmd := (if tid \<noteq> 0 then tcmd else None) \<rparr>] \<rparr>))"
    unfolding process_id_start_def e1 using same(5) e2 spec(3) by (simp add: Let_def)
  show "skip = (?x1 \<or> cmd_excluded ctx cmd \<or> has_flag (selflags ctx) SELCMD \<and> \<not> got_cmd regexec ctx cmd
        \<and> (selflags ctx = SELCMD \<or> fand ctx))"
    using assms(1) spec(1) unfolding start by (auto split: if_splits run.splits)
  assume "\<not> skip"
  then obtain c3 where c3: "alloc_lproc pid pgid ppid uid cmd pss sf c2 = Done c3" "\<not> x2"
    and c: "c = c3\<lparr> plf := False, lprocs := butlast (lprocs c3) @ [(last (lprocs c3))\<lparr> lp_tid := tid,
           lp_tcmd := (if tid \<noteq> 0 then tcmd else None) \<rparr>] \<rparr>"
    using assms(1) unfolding start by (auto split: if_splits run.splits)
  show "lp_pss (last (lprocs c)) = flag_if (got_ids ctx pid pgid uid tid \<noteq> 0 \<or> got_cmd regexec ctx cmd) PS_PRI
      \<and> lp_sf (last (lprocs c)) = got_ids ctx pid pgid uid tid OR flag_if (got_cmd regexec ctx cmd) SELCMD
      \<and> selflags c = selflags ctx \<and> fand c = fand ctx \<and> allproc c = allproc ctx
      \<and> fdl c = fdl ctx \<and> fdlty c = fdlty ctx"
    using alloc_lproc_last [OF c3(1)] spec(2) [OF c3(2)] spec(3)
    by (simp add: c) (simp add: flag_if_def)
qed

lemma fd_file_listed_iff:
  assumes "fd_file_listed regexec mem pid pgid ppid uid cmd tid tcmd fd_type num ctx = Done b"
    and ok: "sel_ok ctx" and ap: "\<not> allproc ctx" and ept: "fepte ctx = 0"
    and fd: "fdl ctx \<noteq> [] \<longrightarrow> has_flag (selflags ctx) SELFD"
  shows "b \<longleftrightarrow> \<not> id_excluded ctx pid pgid uid \<and> \<not> cmd_excluded ctx cmd
    \<and> met regexec ctx pid pgid uid cmd tid fd_type num \<noteq> 0
    \<and> (fand ctx \<longrightarrow> met regexec ctx pid pgid uid cmd tid fd_type num AND selflags ctx = selflags ctx)"
proof (cases "id_excluded ctx pid pgid uid")
  case True
  then have "process_id_start regexec pid pgid ppid uid cmd tid tcmd ctx = Done (True, ctx)"
    using ok ept by (simp add: process_id_start_def is_proc_excl_def pe_excluded_iff)
  then show ?thesis using assms(1) True by (simp add: fd_file_listed_def)
next
  case idx: False
  obtain skip c where st: "process_id_start regexec pid pgid ppid uid cmd tid tcmd ctx = Done (skip, c)"
    using assms(1) by (auto simp: fd_file_listed_def split: run.splits)
  note start = process_id_start_cases [OF st ok ap ept idx]
  show ?thesis
  proof (cases skip)
    case True
    then have nb: "\<not> b" using assms(1) st by (simp add: fd_file_listed_def)
    show ?thesis
      using start(1) True nb met_insufficient_ids [OF _ fd, of pid pgid uid tid regexec cmd fd_type num]
        met_insufficient_cmd [OF _ _ _ fd, of regexec cmd pid pgid uid tid fd_type num]
      by blast
  next
    case False
    note s = start(2) [OF False]
    let ?m = "met regexec ctx pid pgid uid cmd tid fd_type num"
    define c1 where "c1 = alloc_lfile mem (last (lprocs c)) fd_type num c"
    have gf: "got_fd c fd_type num = got_fd ctx fd_type num" using s by (simp add: got_fd_def fd_listed_def)
    obtain l where l: "lf c1 = Some l" by (auto simp: c1_def alloc_lfile_def Let_def)
    have pri: "has_flag (flag_if q PS_PRI) PS_PRI \<longleftrightarrow> q" for q by (simp add: flag_if_def flag_simps)
    have "lf_sf l = (if got_ids ctx pid pgid uid tid \<noteq> 0 \<or> got_cmd regexec ctx cmd
        then got_ids ctx pid pgid uid tid OR flag_if (got_cmd regexec ctx cmd) SELCMD else 0)
        OR flag_if (got_fd ctx fd_type num) SELFD"
      using alloc_lfile_sf [OF l [unfolded c1_def]] s unfolding gf by (simp only: pri)
    then have "lf_sf l = ?m" by (cases "got_cmd regexec ctx cmd") (simp_all add: met_def or.assoc)
    moreover have "\<not> has_flag ?m SELEXCLF"
      using met_bits(1) [OF met_def [of regexec ctx pid pgid uid cmd tid fd_type num, unfolded got_ids_def]] .
    moreover have "b = is_file_sel c1 (lf c1)"
      using assms(1) st False by (simp add: fd_file_listed_def c1_def Let_def)
    ultimately have "b \<longleftrightarrow> ?m \<noteq> 0 \<and> (fand ctx \<longrightarrow> ?m AND selflags ctx = selflags ctx)"
      using s ap l by (auto simp: is_file_sel_def c1_def)
    then show ?thesis using start(1) False idx by blast
  qed
qed

lemma library_default_lists_nothing:
  assumes "lsof_freeze lsof_new = Done (LSOF_SUCCESS, ctx)"
    and "fd_file_listed regexec mem pid pgid ppid uid cmd tid tcmd fd_type num ctx = Done b"
  shows "\<not> b"
proof -
  have ctx: "ctx = (freeze_flags lsof_new)\<lparr> frozen := True \<rparr>"
    using assms(1) by (simp add: lsof_freeze_def initialize_def freeze_flags_def hashSfile_def)
  have f: "suid ctx = empty_tab" "spgid ctx = empty_tab" "spid ctx = empty_tab" "allproc ctx" "selall ctx = 0"
    "cmdl ctx = []" "selflags ctx = 0" "fdl ctx = []"
    by (simp_all add: ctx freeze_flags_def)
  have "is_proc_excl ctx pid pgid uid tid = (False, PS_PRI, 0, ctx)"
    using f by (simp add: is_proc_excl_def pe_excluded_def) (simp add: empty_tab_def)
  moreover have "is_cmd_excl regexec ctx cmd PS_PRI 0 = (False, PS_PRI, 0, ctx)"
    using f by (simp add: is_cmd_excl_def)
  ultimately have start: "process_id_start regexec pid pgid ppid uid cmd tid tcmd ctx =
      (case alloc_lproc pid pgid ppid uid cmd PS_PRI 0 ctx of
         Exited v \<Rightarrow> Exited v
       | Done ctx3 \<Rightarrow> Done (False, ctx3\<lparr> plf := False,
         lprocs := butlast (lprocs ctx3) @ [(last (lprocs ctx3))\<lparr> lp_tid := tid,
           lp_tcmd := (if tid \<noteq> 0 then tcmd else None) \<rparr>] \<rparr>))"
    by (simp add: process_id_start_def)
  obtain c3 where c3: "alloc_lproc pid pgid ppid uid cmd PS_PRI 0 ctx = Done c3"
    using assms(2) start by (cases "alloc_lproc pid pgid ppid uid cmd PS_PRI 0 ctx") (simp_all add: fd_file_listed_def)
  obtain c where c: "process_id_start regexec pid pgid ppid uid cmd tid tcmd ctx = Done (False, c)"
      "lp_sf (last (lprocs c)) = 0" "fdl c = []"
    using start alloc_lproc_last [OF c3] f c3 by simp
  have "lf_sf l = 0" if "lf (alloc_lfile mem (last (lprocs c)) fd_type num c) = Some l" for l
    using alloc_lfile_sf [OF that] c by (simp add: got_fd_def)
  then show ?thesis using assms(2) c(1) by (auto simp: fd_file_listed_def Let_def is_file_sel_def split: option.splits)
qed

section \<open>Linking\<close>

definition EPTINFO :: flags32 where
  [flag_simps]: "EPTINFO = SELPINFO OR SELPSXMQINFO OR SELUXSINFO OR SELPTYINFO OR SELNETSINFO
    OR SELNETS6INFO OR SELEVTFDINFO"

lemma and_not_id: "w AND NOT b = w" if "w AND b = 0" for w b :: flags32
proof (rule bit_word_eqI)
  fix n
  have "\<not> bit (w AND b) n" using that by simp
  then show "bit (w AND NOT b) n = bit w n" if "n < LENGTH(32)"
    using that by (auto simp: bit_and_iff bit_not_iff)
qed

lemma ept_move_sf: "lf_sf (fst (ept_move info ept s)) = lf_sf (fst s) AND NOT info"
  by (auto simp: ept_move_def and_not_id split: prod.split)

lemma ept_move_file:
  "fst (ept_move info ept s) = (fst s)\<lparr> lf_sf := lf_sf (fst s) AND NOT info \<rparr>"
  by (auto simp: ept_move_def and_not_id split: prod.split)

lemma ept_moves_file: "fst (ept_moves s) = (fst s)\<lparr> lf_sf := lf_sf (fst s) AND NOT EPTINFO \<rparr>"
  by (simp add: ept_moves_def ept_move_file EPTINFO_def bit.de_Morgan_disj ac_simps)

lemma ept_move_lproc:
  "\<exists>e. snd (ept_move info ept s) = (snd s)\<lparr> lp_ept := e \<rparr>"
  by (cases s; cases "snd s") (auto simp: ept_move_def)

lemma ept_moves_lp_file [simp]: "lp_file (snd (ept_moves s)) = lp_file (snd s)"
proof -
  have "lp_file (snd (ept_move i e s)) = lp_file (snd s)" for i e s
    by (auto simp: ept_move_def split: prod.split)
  then show ?thesis by (simp add: ept_moves_def)
qed

section \<open>Properties\<close>


definition pid42 :: lsof_context where
  "pid42 = lsof_new\<lparr> frozen := True, selflags := SELPID, allproc := False,
    spid := \<lparr> st_ents = [\<lparr> il_i = 42, il_f = False, il_x = False \<rparr>], st_cap = 10, st_incl = 1, st_excl = 0 \<rparr> \<rparr>"

lemma pid42_ok: "sel_ok pid42" "\<not> allproc pid42" "fepte pid42 = 0" "fdl pid42 = []"
  by (simp_all add: pid42_def sel_ok_defs tab_ok_def flag_simps) (simp_all add: empty_tab_def lsof_new_def)

lemma pid42_listed:
  "fd_file_listed (\<lambda>_ _. False) mem 42 7 1 0 ''sh'' 0 None LSOF_FD_NUMERIC 3 pid42 = Done True"
  by (simp add: fd_file_listed_def process_id_start_def is_proc_excl_def pe_excluded_def pe_pgid_def pe_pid_def
      pe_then_def is_cmd_excl_def alloc_lproc_def pid42_def lsof_new_def empty_tab_def flag_simps grow_array_def
      s32_def LPROCINCR_def alloc_lfile_def fd_select_def init_lfile_def is_file_sel_def Let_def)


text \<open>
  C24: the verdict of \<open>is_proc_excl\<close>.  On a well-formed context that does not list everything, a
  process that no exclusion names is rejected in AND mode exactly when it misses one of the
  requested identifier selections, and in OR mode exactly when the only request is one identifier
  list that does not name it; the flags and state it returns are those of the selections it meets.
\<close>

theorem is_proc_excl_semantics:
  assumes "sel_ok ctx" and "\<not> allproc ctx"
  shows "(fst (is_proc_excl ctx pid pgid uid tid) \<longleftrightarrow>
      id_excluded ctx pid pgid uid
      \<or> (if fand ctx then got_ids ctx pid pgid uid tid \<noteq> selflags ctx AND SELIDS
         else only_ids ctx \<and> got_ids ctx pid pgid uid tid = 0))
    \<and> (\<not> id_excluded ctx pid pgid uid \<longrightarrow>
        fst (snd (snd (is_proc_excl ctx pid pgid uid tid))) = got_ids ctx pid pgid uid tid
      \<and> fst (snd (is_proc_excl ctx pid pgid uid tid)) = flag_if (got_ids ctx pid pgid uid tid \<noteq> 0) PS_PRI)"
proof (cases "id_excluded ctx pid pgid uid")
  case True
  then show ?thesis using assms by (simp add: is_proc_excl_def pe_excluded_iff)
next
  case False
  then show ?thesis using is_proc_excl_ids [OF assms(1) False assms(2), of tid] by auto
qed

theorem is_proc_excl_semantics_witness:
  "fst (is_proc_excl pid42 42 7 0 0) \<longleftrightarrow>
    id_excluded pid42 42 7 0 \<or> only_ids pid42 \<and> got_ids pid42 42 7 0 0 = 0"
  using is_proc_excl_semantics [OF pid42_ok(1,2), of 42 7 0 0] by (simp add: pid42_def)



text \<open>
  Linking a file appends it, at the end of the list of the current process only, with the
  endpoint flags cleared when endpoint information is requested and every other flag kept; the
  first file of a process replaces what the table entry held, and a file marked for exclusion
  stays where it is.
\<close>

theorem link_lfile_appends:
  assumes "lf ctx = Some l" and "lprocs ctx \<noteq> []"
  shows "if has_flag (lf_sf l) SELEXCLF then link_lfile ctx = ctx
    else butlast (lprocs (link_lfile ctx)) = butlast (lprocs ctx)
      \<and> lp_file (last (lprocs (link_lfile ctx))) =
          (if plf ctx then lp_file (last (lprocs ctx)) else [])
          @ [if fepte ctx \<noteq> 0 then l\<lparr> lf_sf := lf_sf l AND NOT EPTINFO \<rparr> else l]
      \<and> lf (link_lfile ctx) = None \<and> plf (link_lfile ctx)"
  using assms ept_moves_file [of "(l, last (lprocs ctx))"] ept_moves_lp_file [of "(l, last (lprocs ctx))"]
  by (auto simp: link_lfile_def case_prod_beta Let_def)

theorem link_lfile_appends_witness:
  "\<forall>l p. lp_file (last (lprocs (link_lfile (lsof_new\<lparr> lf := Some (l\<lparr> lf_sf := SELPID OR SELPINFO \<rparr>),
      lprocs := [p\<lparr> lp_file := [] \<rparr>], fepte := 1, plf := True \<rparr>)))) = [l\<lparr> lf_sf := SELPID \<rparr>]"
proof (intro allI)
  fix l :: lfile and p :: lproc
  show "lp_file (last (lprocs (link_lfile (lsof_new\<lparr> lf := Some (l\<lparr> lf_sf := SELPID OR SELPINFO \<rparr>),
      lprocs := [p\<lparr> lp_file := [] \<rparr>], fepte := 1, plf := True \<rparr>)))) = [l\<lparr> lf_sf := SELPID \<rparr>]"
    using link_lfile_appends [of "lsof_new\<lparr> lf := Some (l\<lparr> lf_sf := SELPID OR SELPINFO \<rparr>),
      lprocs := [p\<lparr> lp_file := [] \<rparr>], fepte := 1, plf := True \<rparr>" "l\<lparr> lf_sf := SELPID OR SELPINFO \<rparr>"]
    by (simp add: flag_simps split: if_splits)
qed

end
