(* ===== verification/Option_Args.thy ===== *)
theory Option_Args
  imports Decimal Proc_Select
begin

text \<open>
  The values of the selection options, from \<open>src/src/arg.c\<close>: descriptor lists (\<open>enter_fd\<close>,
  \<open>enter_fd_lst\<close>, \<open>ckfd_range\<close>), process and process group identifiers (\<open>enter_id\<close>), users
  (\<open>enter_uid\<close>), commands (\<open>enter_cmd\<close>) and numeric host addresses (\<open>isIPv4addr\<close>), with the
  descriptor names \<open>fd_to_string\<close> of \<open>src/lib/proc.c\<close> prints.  A pointer walking over an argument is
  the rest of the string; numbers are accumulated in an \<open>int\<close> that wraps.
\<close>

section \<open>Descriptor lists\<close>

definition INT_MAX :: int where "INT_MAX = 2147483647"

fun scan_digits :: "int \<Rightarrow> cstring \<Rightarrow> int option" where
  "scan_digits n [] = Some n"
| "scan_digits n (c # cp) = (if \<not> isdigit_c c then None else scan_digits (acc_digit n c) cp)"

text \<open>
  \<open>ckfd_range\<close> gets the text before and after the dash.  The caller passes the end of the element
  as the last character, which always follows the dash, so only the first comparison of pointers
  can fail.
\<close>

definition ckfd_range :: "cstring \<Rightarrow> cstring \<Rightarrow> (int \<times> int) option" where
  "ckfd_range first final =
    (if first = [] then None
     else case scan_digits 0 first of
       None \<Rightarrow> None
     | Some lo \<Rightarrow>
        (case scan_digits 0 final of
           None \<Rightarrow> None
         | Some hi \<Rightarrow> if lo \<ge> hi then None else Some (lo, hi)))"

definition fd_name_type :: "cstring \<Rightarrow> (lsof_fd_type \<times> int \<times> int) option" where
  "fd_name_type nm =
    (if nm = ''unk'' then Some (LSOF_FD_UNKNOWN, 1, 0)
     else if nm = ''cwd'' then Some (LSOF_FD_CWD, 1, 0)
     else if nm = ''err'' then Some (LSOF_FD_ERROR, 1, 0)
     else if nm = ''NOFD'' then Some (LSOF_FD_NOFD, 1, 0)
     else if nm = ''rtd'' then Some (LSOF_FD_ROOT_DIR, 1, 0)
     else if nm = ''pd'' then Some (LSOF_FD_PARENT_DIR, 1, 0)
     else if nm = ''txt'' then Some (LSOF_FD_PROGRAM_TEXT, 1, 0)
     else if nm = ''ltx'' then Some (LSOF_FD_LIBRARY_TEXT, 1, 0)
     else if nm = ''mem'' then Some (LSOF_FD_MEMORY, 1, 0)
     else if nm = ''DEL'' then Some (LSOF_FD_DELETED, 1, 0)
     else if nm = ''fp'' then Some (LSOF_FD_FILEPORT, 1, 0)
     else if nm = ''twd'' then Some (LSOF_FD_TASK_CWD, 1, 0)
     else if nm = ''ctty'' then Some (LSOF_FD_CTTY, 1, 0)
     else if nm = ''jd.'' then Some (LSOF_FD_JAIL_DIR, 1, 0)
     else if nm = ''v86'' then Some (LSOF_FD_VIRTUAL_8086, 1, 0)
     else if nm = ''m86'' then Some (LSOF_FD_MERGE_386, 1, 0)
     else if nm = ''mmap'' then Some (LSOF_FD_MMAP_DEVICE, 1, 0)
     else if nm = ''fd'' then Some (LSOF_FD_NUMERIC, 0, INT_MAX)
     else None)"

definition fd_dup :: "lsof_fd_type \<Rightarrow> int \<Rightarrow> int \<Rightarrow> fd_lst \<Rightarrow> bool" where
  "fd_dup ty lo hi ft \<longleftrightarrow> fl_type ft = ty \<and> (fl_type ft = LSOF_FD_NUMERIC \<longrightarrow> lo = fl_lo ft \<and> hi = fl_hi ft)"

definition fd_link :: "lsof_fd_type \<Rightarrow> int \<Rightarrow> int \<Rightarrow> bool \<Rightarrow> lsof_context \<Rightarrow> lsof_context" where
  "fd_link ty lo hi excl ctx =
    (if list_ex (fd_dup ty lo hi) (fdl ctx) then ctx
     else ctx\<lparr> fdl := \<lparr> fl_type = ty, fl_lo = lo, fl_hi = hi \<rparr> # fdl ctx, fdlty := of_bool excl \<rparr>)"

definition enter_fd_lst ::
  "cstring option \<Rightarrow> int \<Rightarrow> int \<Rightarrow> bool \<Rightarrow> lsof_context \<Rightarrow> (bool \<times> lsof_context) run" where
  "enter_fd_lst nm lo hi excl ctx =
    (if fdlty ctx \<ge> 0 \<and> fdlty ctx \<noteq> of_bool excl then Done (True, ctx)
     else case nm of
       None \<Rightarrow> Done (False, fd_link LSOF_FD_NUMERIC lo hi excl ctx)
     | Some s \<Rightarrow>
        (case scan_digits 0 s of
           Some n \<Rightarrow> Done (False, fd_link LSOF_FD_NUMERIC n n excl ctx)
         | None \<Rightarrow>
            (case fd_name_type s of
               None \<Rightarrow> Exited LSOF_EXIT_ERROR
             | Some (ty, lo', hi') \<Rightarrow> Done (False, fd_link ty lo' hi' excl ctx))))"

definition enter_fd_elem :: "cstring \<Rightarrow> bool \<Rightarrow> bool \<Rightarrow> lsof_context \<Rightarrow> (bool \<times> lsof_context) run" where
  "enter_fd_elem tok excl err ctx =
    (let r = (if CHR ''-'' \<in> set tok then
                (case ckfd_range (rev (tl (dropWhile (\<lambda>c. c \<noteq> CHR ''-'') (rev tok))))
                        (rev (takeWhile (\<lambda>c. c \<noteq> CHR ''-'') (rev tok))) of
                   None \<Rightarrow> Done (True, ctx)
                 | Some (lo, hi) \<Rightarrow> enter_fd_lst None lo hi excl ctx)
              else enter_fd_lst (Some tok) 0 0 excl ctx) in
     case r of
       Exited v \<Rightarrow> Exited v
     | Done (e, ctx') \<Rightarrow> Done (err \<or> e, ctx'))"

function (sequential) enter_fd_loop :: "cstring \<Rightarrow> bool \<Rightarrow> lsof_context \<Rightarrow> (bool \<times> lsof_context) run" where
  "enter_fd_loop [] err ctx = Done (err, ctx)"
| "enter_fd_loop (c # cp) err ctx =
    (let excl = (c = CHR ''^'');
         cp1 = (if excl then cp else c # cp);
         tok = takeWhile (\<lambda>c. c \<noteq> CHR '','') cp1;
         r = (if tok = [] then Done (err, ctx) else enter_fd_elem tok excl err ctx) in
     case r of
       Exited v \<Rightarrow> Exited v
     | Done (err', ctx') \<Rightarrow>
        (case dropWhile (\<lambda>c. c \<noteq> CHR '','') cp1 of
           [] \<Rightarrow> Done (err', ctx')
         | _ # cp2 \<Rightarrow> enter_fd_loop cp2 err' ctx'))"
  by pat_completeness auto

termination
proof (relation "measure (\<lambda>(s, _, _). length s)", goal_cases)
  case (2 c cp err ctx excl cp1 tok r p err' ctx' d cp2)
  have "length (dropWhile (\<lambda>c. c \<noteq> CHR '','') cp1) \<le> length cp1" by (rule length_dropWhile_le)
  with 2 show ?case by (auto split: if_splits)
qed simp

definition enter_fd :: "cstring option \<Rightarrow> lsof_context \<Rightarrow> (bool \<times> lsof_context) run" where
  "enter_fd f ctx =
    (case f of
       None \<Rightarrow> Done (True, ctx)
     | Some s \<Rightarrow> if length s + 1 < 2 then Done (True, ctx) else enter_fd_loop s False ctx)"

text \<open>\<open>fd_to_string\<close>: the buffer holds FDLEN bytes, so at most seven characters are kept.\<close>

definition FDLEN :: nat where "FDLEN = 8"

fun hex_lower :: "nat \<Rightarrow> cstring" where
  "hex_lower n = (if n < 16 then [''0123456789abcdef'' ! n] else hex_lower (n div 16) @ [''0123456789abcdef'' ! (n mod 16)])"

declare hex_lower.simps [simp del]

definition fmt_2d :: "int \<Rightarrow> cstring" where
  "fmt_2d i = (if i < 0 then CHR ''-'' # dec_pad 1 (nat (- i)) else dec_pad 2 (nat i))"

definition fd_to_string :: "lsof_fd_type \<Rightarrow> int \<Rightarrow> cstring" where
  "fd_to_string fd_type fd_num = take (FDLEN - 1)
    (case fd_type of
       LSOF_FD_NUMERIC \<Rightarrow> if fd_num < 10000 then dec_int fd_num else CHR ''*'' # dec_pad 3 (nat (fd_num mod 1000))
     | LSOF_FD_UNKNOWN \<Rightarrow> ''unk'' | LSOF_FD_CWD \<Rightarrow> ''cwd'' | LSOF_FD_ERROR \<Rightarrow> ''err''
     | LSOF_FD_NOFD \<Rightarrow> ''NOFD'' | LSOF_FD_ROOT_DIR \<Rightarrow> ''rtd'' | LSOF_FD_PARENT_DIR \<Rightarrow> ''pd''
     | LSOF_FD_PROGRAM_TEXT \<Rightarrow> ''txt'' | LSOF_FD_LIBRARY_TEXT \<Rightarrow> ''ltx'' | LSOF_FD_MEMORY \<Rightarrow> ''mem''
     | LSOF_FD_DELETED \<Rightarrow> ''DEL'' | LSOF_FD_FILEPORT \<Rightarrow> ''fp.'' | LSOF_FD_TASK_CWD \<Rightarrow> ''twd''
     | LSOF_FD_CTTY \<Rightarrow> ''ctty'' | LSOF_FD_JAIL_DIR \<Rightarrow> ''jld'' | LSOF_FD_VIRTUAL_8086 \<Rightarrow> ''v86''
     | LSOF_FD_MERGE_386 \<Rightarrow> ''m86'' | LSOF_FD_MMAP_DEVICE \<Rightarrow> ''mmap''
     | LSOF_FD_LIBRARY_REF \<Rightarrow> CHR ''L'' # fmt_2d fd_num
     | LSOF_FD_MMAP_UNKNOWN \<Rightarrow>
         CHR ''M'' # (let h = hex_lower (nat (fd_num mod 4294967296)) in replicate (2 - length h) (CHR ''0'') @ h)
     | LSOF_FD_PREGION_UNKNOWN \<Rightarrow> CHR ''R'' # fmt_2d fd_num)"

section \<open>Process identifiers\<close>

datatype IDType = PGID | PID

text \<open>
  One identifier: the loop up to a comma or the end, whose flag \<open>i\<close> is only clear for the first
  character.  \<open>None\<close> is the return on an illegal character.
\<close>

fun id_elem :: "bool \<Rightarrow> int \<Rightarrow> bool \<Rightarrow> cstring \<Rightarrow> (int \<times> bool \<times> cstring) option" where
  "id_elem i n x [] = Some (n, x, [])"
| "id_elem i n x (c # cp) =
    (if c = CHR '','' then Some (n, x, c # cp)
     else if \<not> i \<and> c = CHR ''^'' then id_elem True n True cp
     else if \<not> isdigit_c c then None
     else id_elem True (acc_digit n c) x cp)"

lemma id_elem_rest: "id_elem i n x cp = Some (m, y, rest) \<Longrightarrow> length rest \<le> length cp"
  by (induction i n x cp rule: id_elem.induct) (auto split: if_splits)

lemma id_elem_consumes: "id_elem i n x cp = Some (m, y, rest) \<Longrightarrow> cp \<noteq> [] \<Longrightarrow> length (tl rest) < length cp"
  by (cases cp) (auto dest!: id_elem_rest split: if_splits)

definition select_id :: "IDType \<Rightarrow> int \<Rightarrow> bool \<Rightarrow> lsof_context \<Rightarrow> (lsof_error \<times> lsof_context) run" where
  "select_id ty i x ctx = (case ty of PGID \<Rightarrow> lsof_select_pgid i x ctx | PID \<Rightarrow> lsof_select_pid i x ctx)"

function (sequential) enter_id_loop :: "IDType \<Rightarrow> cstring \<Rightarrow> bool \<Rightarrow> lsof_context \<Rightarrow> (bool \<times> lsof_context) run" where
  "enter_id_loop ty [] err ctx = Done (err, ctx)"
| "enter_id_loop ty (c # cp) err ctx =
    (case id_elem False 0 False (c # cp) of
       None \<Rightarrow> Done (True, ctx)
     | Some (i, x, rest) \<Rightarrow>
        (case select_id ty i x ctx of
           Exited v \<Rightarrow> Exited v
         | Done (e, ctx') \<Rightarrow> enter_id_loop ty (tl rest) (err \<or> e \<noteq> LSOF_SUCCESS) ctx'))"
  by pat_completeness auto

termination
  by (relation "measure (\<lambda>(_, s, _, _). length s)") (auto dest: id_elem_consumes simp del: id_elem.simps)

definition enter_id :: "IDType \<Rightarrow> cstring option \<Rightarrow> lsof_context \<Rightarrow> (bool \<times> lsof_context) run" where
  "enter_id ty p ctx = (case p of None \<Rightarrow> Done (True, ctx) | Some s \<Rightarrow> enter_id_loop ty s False ctx)"

section \<open>Commands\<close>

definition enter_cmd :: "cstring option \<Rightarrow> lsof_context \<Rightarrow> bool \<times> lsof_context" where
  "enter_cmd s ctx =
    (case s of
       None \<Rightarrow> (True, ctx)
     | Some cmd \<Rightarrow>
        if cmd \<noteq> [] \<and> (hd cmd = CHR ''-'' \<or> hd cmd = CHR ''+'') then (True, ctx)
        else
          (let x = (cmd \<noteq> [] \<and> hd cmd = CHR ''^'');
               (e, ctx') = lsof_select_process (if x then tl cmd else cmd) x ctx in
           (e \<noteq> LSOF_SUCCESS, ctx')))"

section \<open>Users\<close>

text \<open>
  \<open>LOGINML\<close> is the size of the user name in glibc's \<open>struct utmpx\<close>.  The assembly loop keeps the login
  name \<open>lnm\<close>, the note \<open>nn\<close> that a character is not a digit, and the number, an unsigned \<open>uid_t\<close>.
  Its result is \<open>None\<close> for a name that is too long.
\<close>

definition LOGINML :: nat where "LOGINML = 32"

fun uid_elem :: "nat \<Rightarrow> bool \<Rightarrow> cstring \<Rightarrow> bool \<Rightarrow> int \<Rightarrow> cstring \<Rightarrow> (bool \<times> cstring \<times> bool \<times> int) option \<times> cstring" where
  "uid_elem i excl lnm nn uid [] = (Some (excl, lnm, nn, uid), [])"
| "uid_elem i excl lnm nn uid (c # s) =
    (if c = CHR '','' then (Some (excl, lnm, nn, uid), c # s)
     else if LOGINML \<le> length lnm then (None, dropWhile (\<lambda>c. c \<noteq> CHR '','') (c # s))
     else if i = 0 \<and> c = CHR ''^'' then uid_elem (i + 1) True lnm nn uid s
     else if nn then uid_elem (i + 1) excl (lnm @ [c]) nn uid s
     else if isdigit_c c then
       uid_elem (i + 1) excl (lnm @ [c]) nn ((uid * 10 + digit_val c) mod 4294967296) s
     else uid_elem (i + 1) excl (lnm @ [c]) True uid s)"

lemma uid_elem_rest: "length (snd (uid_elem i excl lnm nn uid s)) \<le> length s"
proof (induction i excl lnm nn uid s rule: uid_elem.induct)
  case (2 i excl lnm nn uid c s)
  have "length (dropWhile (\<lambda>c. c \<noteq> CHR '','') s) \<le> length s" by (rule length_dropWhile_le)
  with 2 show ?case by auto
qed simp

lemma uid_elem_consumes:
  "uid_elem i excl lnm nn uid (c # s) = (r, rest) \<Longrightarrow> length (tl rest) < Suc (length s)"
  using uid_elem_rest [of i excl lnm nn uid "c # s"] by (cases rest) auto

function (sequential) enter_uid_loop ::
  "(cstring \<Rightarrow> int option) \<Rightarrow> cstring \<Rightarrow> bool \<Rightarrow> lsof_context \<Rightarrow> (bool \<times> lsof_context) run" where
  "enter_uid_loop getpwnam [] err ctx = Done (err, ctx)"
| "enter_uid_loop getpwnam (c # s) err ctx =
    (case uid_elem 0 False [] False 0 (c # s) of
       (None, rest) \<Rightarrow> enter_uid_loop getpwnam (tl rest) True ctx
     | (Some (excl, lnm, nn, uid), rest) \<Rightarrow>
        if nn \<and> getpwnam lnm = None then enter_uid_loop getpwnam (tl rest) True ctx
        else
          (case (if nn then lsof_select_login getpwnam lnm excl ctx else lsof_select_uid uid excl ctx) of
             Exited v \<Rightarrow> Exited v
           | Done (e, ctx') \<Rightarrow>
              if e \<noteq> LSOF_SUCCESS then Exited LSOF_EXIT_ERROR
              else enter_uid_loop getpwnam (tl rest) err ctx'))"
  by pat_completeness auto

termination
  by (relation "measure (\<lambda>(_, s, _, _). length s)") (auto dest: uid_elem_consumes uid_elem_consumes [OF sym] simp del: uid_elem.simps)

definition enter_uid :: "(cstring \<Rightarrow> int option) \<Rightarrow> cstring option \<Rightarrow> lsof_context \<Rightarrow> (bool \<times> lsof_context) run" where
  "enter_uid getpwnam us ctx = (case us of None \<Rightarrow> Done (True, ctx) | Some s \<Rightarrow> enter_uid_loop getpwnam s False ctx)"

section \<open>Numeric host addresses\<close>

text \<open>\<open>ov\<close> holds the octets up to the current one, which is last; \<open>- 1\<close> stands for no digit yet.\<close>

definition MIN_AF_ADDR :: nat where "MIN_AF_ADDR = 4"

fun ipv4_loop :: "nat \<Rightarrow> int list \<Rightarrow> cstring \<Rightarrow> (nat \<times> int list \<times> cstring) option" where
  "ipv4_loop dc ov [] = Some (dc, ov, [])"
| "ipv4_loop dc ov (c # hn) =
    (if c = CHR '':'' then Some (dc, ov, c # hn)
     else if c = CHR ''.'' then
       (if last ov < 0 \<or> last ov > 255 then None
        else if length ov > MIN_AF_ADDR - 1 then None
        else ipv4_loop (dc + 1) (ov @ [- 1]) hn)
     else if isdigit_c c then
       ipv4_loop dc (butlast ov @ [if last ov < 0 then digit_val c else acc_digit (last ov) c]) hn
     else None)"

definition isIPv4addr :: "cstring \<Rightarrow> nat \<Rightarrow> (8 word list \<times> cstring) option" where
  "isIPv4addr hn al =
    (if hn = [] \<or> \<not> isdigit_c (hd hn) then None
     else if al < MIN_AF_ADDR then None
     else case ipv4_loop 0 [digit_val (hd hn)] (tl hn) of
       None \<Rightarrow> None
     | Some (dc, ov, rest) \<Rightarrow>
        if dc \<noteq> 3 \<or> length ov - 1 \<noteq> MIN_AF_ADDR - 1 \<or> last ov < 0 \<or> last ov > 255 then None
        else Some (map of_int ov, rest))"

section \<open>Comma-separated lists\<close>

fun commas :: "cstring list \<Rightarrow> cstring" where
  "commas [] = []"
| "commas [t] = t"
| "commas (t # u # ts) = t @ CHR '','' # commas (u # ts)"

lemma commas_Cons: "commas (t # ts) = t @ (if ts = [] then [] else CHR '','' # commas ts)"
  by (cases ts) auto

lemma commas_split:
  assumes "CHR '','' \<notin> set t"
  shows "takeWhile (\<lambda>c. c \<noteq> CHR '','') (commas (t # ts)) = t"
    and "dropWhile (\<lambda>c. c \<noteq> CHR '','') (commas (t # ts)) = (if ts = [] then [] else CHR '','' # commas ts)"
  using assms unfolding commas_Cons
  by (auto simp: list_all_iff intro!: takeWhile_sep dropWhile_sep)

section \<open>What a descriptor list means\<close>

datatype fd_spec = FdNum nat | FdRange nat nat | FdName cstring

fun fd_spec_text :: "fd_spec \<Rightarrow> cstring" where
  "fd_spec_text (FdNum n) = dec_str n"
| "fd_spec_text (FdRange a b) = dec_str a @ CHR ''-'' # dec_str b"
| "fd_spec_text (FdName nm) = nm"

fun fd_spec_ok :: "fd_spec \<Rightarrow> bool" where
  "fd_spec_ok (FdNum n) \<longleftrightarrow> int n \<le> INT_MAX"
| "fd_spec_ok (FdRange a b) \<longleftrightarrow> a < b \<and> int b \<le> INT_MAX"
| "fd_spec_ok (FdName nm) \<longleftrightarrow> fd_name_type nm \<noteq> None"

fun fd_spec_entry :: "fd_spec \<Rightarrow> lsof_fd_type \<times> int \<times> int" where
  "fd_spec_entry (FdNum n) = (LSOF_FD_NUMERIC, int n, int n)"
| "fd_spec_entry (FdRange a b) = (LSOF_FD_NUMERIC, int a, int b)"
| "fd_spec_entry (FdName nm) = the (fd_name_type nm)"

definition fd_spec_covers :: "fd_spec \<Rightarrow> lsof_fd_type \<Rightarrow> int \<Rightarrow> bool" where
  "fd_spec_covers sp t n = (case fd_spec_entry sp of (ty, lo, hi) \<Rightarrow> t = ty \<and> (t = LSOF_FD_NUMERIC \<longrightarrow> lo \<le> n \<and> n \<le> hi))"

definition caret :: "bool \<Rightarrow> cstring" where
  "caret excl = (if excl then ''^'' else [])"

definition fd_list_text :: "bool \<Rightarrow> fd_spec list \<Rightarrow> cstring" where
  "fd_list_text excl specs = commas (map (\<lambda>sp. caret excl @ fd_spec_text sp) specs)"

lemma scan_digits_digits: "list_all isdigit_c s \<Longrightarrow> scan_digits n s = Some (foldl acc_digit n s)"
  by (induction s arbitrary: n) auto

lemma scan_digits_other: "\<not> list_all isdigit_c s \<Longrightarrow> scan_digits n s = None"
  by (induction s arbitrary: n) auto

lemma scan_digits_dec_str [simp]: "int n \<le> INT_MAX \<Longrightarrow> scan_digits 0 (dec_str n) = Some (int n)"
  by (simp add: scan_digits_digits dec_str_digits INT_MAX_def in_s32_def)

lemma fd_name_cases:
  assumes "fd_name_type nm = Some e"
  shows "CHR '','' \<notin> set nm" "CHR ''-'' \<notin> set nm" "nm \<noteq> []" "hd nm \<noteq> CHR ''^''" "scan_digits 0 nm = None"
  using assms by (auto simp: fd_name_type_def scan_digits_other isdigit_c_def split: if_splits)

lemma fd_spec_text_form:
  assumes "fd_spec_ok sp"
  shows "CHR '','' \<notin> set (fd_spec_text sp)" "fd_spec_text sp \<noteq> []" "hd (fd_spec_text sp) \<noteq> CHR ''^''"
proof -
  have "hd (dec_str n) \<noteq> CHR ''^''" for n using dec_str_hd [of n] by (auto simp: isdigit_c_def)
  then show "hd (fd_spec_text sp) \<noteq> CHR ''^''" using assms by (cases sp) (auto dest: fd_name_cases)
  show "CHR '','' \<notin> set (fd_spec_text sp)" "fd_spec_text sp \<noteq> []"
    using assms by (cases sp; auto dest: fd_name_cases)+
qed

lemma split_last_dash:
  assumes "CHR ''-'' \<notin> set b"
  shows "rev (takeWhile (\<lambda>c. c \<noteq> CHR ''-'') (rev (a @ CHR ''-'' # b))) = b"
    and "rev (tl (dropWhile (\<lambda>c. c \<noteq> CHR ''-'') (rev (a @ CHR ''-'' # b)))) = a"
proof -
  have *: "list_all (\<lambda>c. c \<noteq> CHR ''-'') (rev b)" using assms by (auto simp: list_all_iff)
  show "rev (takeWhile (\<lambda>c. c \<noteq> CHR ''-'') (rev (a @ CHR ''-'' # b))) = b"
    "rev (tl (dropWhile (\<lambda>c. c \<noteq> CHR ''-'') (rev (a @ CHR ''-'' # b)))) = a"
    using takeWhile_sep [OF *, of "CHR ''-'' # rev a"] dropWhile_sep [OF *, of "CHR ''-'' # rev a"] by auto
qed

definition fd_enter :: "bool \<Rightarrow> fd_spec \<Rightarrow> lsof_context \<Rightarrow> lsof_context" where
  "fd_enter excl sp ctx = (case fd_spec_entry sp of (ty, lo, hi) \<Rightarrow> fd_link ty lo hi excl ctx)"

definition fd_mixed :: "bool \<Rightarrow> lsof_context \<Rightarrow> bool" where
  "fd_mixed excl ctx \<longleftrightarrow> fdlty ctx \<ge> 0 \<and> fdlty ctx \<noteq> of_bool excl"

lemma enter_fd_elem_spec:
  assumes "fd_spec_ok sp"
  shows "enter_fd_elem (fd_spec_text sp) excl err ctx =
    (if fd_mixed excl ctx then Done (True, ctx) else Done (err, fd_enter excl sp ctx))"
proof (cases sp)
  case (FdNum n)
  then show ?thesis using assms by (simp add: enter_fd_elem_def enter_fd_lst_def fd_enter_def fd_mixed_def)
next
  case (FdRange a b)
  then have "scan_digits 0 (dec_str a) = Some (int a)" "scan_digits 0 (dec_str b) = Some (int b)"
    using assms by auto
  then show ?thesis using FdRange assms
    by (simp add: enter_fd_elem_def split_last_dash ckfd_range_def enter_fd_lst_def fd_enter_def fd_mixed_def
        del: rev_append)
next
  case (FdName nm)
  then obtain ty lo hi where "fd_name_type nm = Some (ty, lo, hi)" using assms by auto
  then show ?thesis using FdName
    by (simp add: enter_fd_elem_def enter_fd_lst_def fd_name_cases fd_enter_def fd_mixed_def)
qed

lemma enter_fd_loop_item:
  assumes "fd_spec_ok sp"
  shows "enter_fd_loop (commas ((caret excl @ fd_spec_text sp) # ts)) err ctx =
    (if fd_mixed excl ctx then enter_fd_loop (commas ts) True ctx
     else enter_fd_loop (commas ts) err (fd_enter excl sp ctx))"
proof -
  note form = fd_spec_text_form [OF assms]
  obtain c cp where t: "fd_spec_text sp = c # cp" "c \<noteq> CHR ''^''" using form by (cases "fd_spec_text sp") auto
  let ?s = "commas ((caret excl @ fd_spec_text sp) # ts)"
  let ?cp1 = "commas (fd_spec_text sp # ts)"
  have s: "?s = caret excl @ ?cp1" by (simp add: commas_Cons)
  have "enter_fd_loop ?s err ctx =
    (case enter_fd_elem (fd_spec_text sp) excl err ctx of
       Exited v \<Rightarrow> Exited v
     | Done (err', ctx') \<Rightarrow>
        (case dropWhile (\<lambda>c. c \<noteq> CHR '','') ?cp1 of [] \<Rightarrow> Done (err', ctx') | _ # cp2 \<Rightarrow> enter_fd_loop cp2 err' ctx'))"
  proof (cases excl)
    case True
    then show ?thesis unfolding s using commas_split(1) [OF form(1), of ts] form(2) by (simp add: caret_def Let_def)
  next
    case False
    have step: "enter_fd_loop q err ctx =
      (let tok = takeWhile (\<lambda>c. c \<noteq> CHR '','') q in
       case (if tok = [] then Done (err, ctx) else enter_fd_elem tok False err ctx) of
         Exited v \<Rightarrow> Exited v
       | Done (err', ctx') \<Rightarrow>
          (case dropWhile (\<lambda>c. c \<noteq> CHR '','') q of [] \<Rightarrow> Done (err', ctx') | _ # cp2 \<Rightarrow> enter_fd_loop cp2 err' ctx'))"
      if "q = c # cp'" for q cp'
      unfolding that using t(2) by (simp add: Let_def)
    have "?cp1 = c # (cp @ (if ts = [] then [] else CHR '','' # commas ts))" using t by (simp add: commas_Cons)
    from step [OF this] show ?thesis
      using False commas_split(1) [OF form(1), of ts] form(2) unfolding s by (simp add: caret_def Let_def)
  qed
  then show ?thesis
    using assms commas_split(2) [OF form(1), of ts] by (simp add: enter_fd_elem_spec)
qed

lemma fd_enter_keeps: "\<not> fd_mixed excl ctx \<Longrightarrow> \<not> fd_mixed excl (fd_enter excl sp ctx)"
  by (auto simp: fd_mixed_def fd_enter_def fd_link_def split: prod.split)

lemma enter_fd_loop_list:
  assumes "list_all fd_spec_ok specs" and "\<not> fd_mixed excl ctx"
  shows "enter_fd_loop (fd_list_text excl specs) err ctx = Done (err, fold (fd_enter excl) specs ctx)"
  using assms
proof (induction specs arbitrary: ctx)
  case (Cons sp specs)
  then show ?case
    using enter_fd_loop_item [of sp excl _ err ctx] fd_enter_keeps [of excl ctx sp]
    by (simp add: fd_list_text_def)
qed (simp add: fd_list_text_def)

lemma enter_fd_loop_mixed:
  assumes "list_all fd_spec_ok specs" and "fd_mixed excl ctx" and "err \<or> specs \<noteq> []"
  shows "enter_fd_loop (fd_list_text excl specs) err ctx = Done (True, ctx)"
  using assms
proof (induction specs arbitrary: err)
  case (Cons sp specs)
  then show ?case using enter_fd_loop_item [of sp excl _ err ctx] by (simp add: fd_list_text_def)
qed (simp add: fd_list_text_def)

lemma fd_list_text_nonempty: "list_all fd_spec_ok specs \<Longrightarrow> specs \<noteq> [] \<Longrightarrow> fd_list_text excl specs \<noteq> []"
  by (cases specs) (auto simp: fd_list_text_def commas_Cons fd_spec_text_form)

lemma fd_listed_link:
  "fd_listed (fd_link ty lo hi excl ctx) t n \<longleftrightarrow>
    fd_listed ctx t n \<or> t = ty \<and> (t = LSOF_FD_NUMERIC \<longrightarrow> lo \<le> n \<and> n \<le> hi)"
  by (auto simp: fd_link_def fd_listed_def fd_dup_def list_ex_iff)

lemma fd_listed_fold:
  "fd_listed (fold (fd_enter excl) specs ctx) t n \<longleftrightarrow> fd_listed ctx t n \<or> (\<exists>sp \<in> set specs. fd_spec_covers sp t n)"
  by (induction specs arbitrary: ctx)
     (auto simp: fd_enter_def fd_spec_covers_def fd_listed_link split: prod.split)

lemma fd_fold_type:
  "fdl ctx \<noteq> [] \<longrightarrow> fdlty ctx = of_bool excl \<Longrightarrow>
    (fdl (fold (fd_enter excl) specs ctx) = [] \<longleftrightarrow> fdl ctx = [] \<and> specs = [])
    \<and> (fdl (fold (fd_enter excl) specs ctx) \<noteq> [] \<longrightarrow> fdlty (fold (fd_enter excl) specs ctx) = of_bool excl)"
proof (induction specs arbitrary: ctx)
  case (Cons sp specs)
  have "fdl (fd_enter excl sp ctx) \<noteq> []" "fdlty (fd_enter excl sp ctx) = of_bool excl"
    using Cons.prems by (auto simp: fd_enter_def fd_link_def split: prod.split)
  then show ?case using Cons.IH [of "fd_enter excl sp ctx"] by simp
qed simp

section \<open>Properties of descriptor lists\<close>

text \<open>
  C17: a well-formed \<open>-d\<close> list of numbers, ascending ranges and descriptor names, all with or all
  without the exclusion mark, is accepted on a context without a descriptor list, and afterwards
  \<open>ck_fd_status\<close> classifies a descriptor as listed exactly when some element of the list covers it.
\<close>

theorem enter_fd_list:
  assumes "fdl ctx = []" and "fdlty ctx = - 1" and "specs \<noteq> []" and "list_all fd_spec_ok specs"
  shows "\<exists>ctx'. enter_fd (Some (fd_list_text excl specs)) ctx = Done (False, ctx')
    \<and> (\<forall>t n. (t = LSOF_FD_NUMERIC \<longrightarrow> 0 \<le> n) \<longrightarrow> ck_fd_status ctx' t n =
        (if \<exists>sp \<in> set specs. fd_spec_covers sp t n then if excl then 1 else 2 else 0))"
proof -
  let ?c = "fold (fd_enter excl) specs ctx"
  have "\<not> fd_mixed excl ctx" using assms(2) by (simp add: fd_mixed_def)
  from enter_fd_loop_list [OF assms(4) this]
  have e: "enter_fd (Some (fd_list_text excl specs)) ctx = Done (False, ?c)"
    using fd_list_text_nonempty [OF assms(4,3), of excl]
    by (cases "fd_list_text excl specs") (auto simp: enter_fd_def)
  have ty: "fdl ?c \<noteq> []" "fdlty ?c = of_bool excl" using fd_fold_type [of ctx excl specs] assms(1,3) by auto
  have l: "fd_listed ?c t n \<longleftrightarrow> (\<exists>sp \<in> set specs. fd_spec_covers sp t n)" for t n
    using assms(1) by (simp add: fd_listed_fold) (simp add: fd_listed_def)
  have "ck_fd_status ?c t n = (if \<exists>sp \<in> set specs. fd_spec_covers sp t n then if excl then 1 else 2 else 0)"
    if "t = LSOF_FD_NUMERIC \<longrightarrow> 0 \<le> n" for t n
    using ty that unfolding ck_fd_status_def ck_fd_hit l by (auto simp: Let_def)
  then show ?thesis using e by blast
qed

theorem enter_fd_list_witness:
  "\<exists>ctx'. enter_fd (Some (fd_list_text False [FdName ''cwd'', FdRange 3 7])) lsof_new = Done (False, ctx')
    \<and> ck_fd_status ctx' LSOF_FD_NUMERIC 5 = 2 \<and> ck_fd_status ctx' LSOF_FD_NUMERIC 8 = 0
    \<and> ck_fd_status ctx' LSOF_FD_CWD (- 1) = 2"
proof -
  have "fdl lsof_new = []" "fdlty lsof_new = - 1" by (simp_all add: lsof_new_def)
  moreover have "list_all fd_spec_ok [FdName ''cwd'', FdRange 3 7]" by (simp add: fd_name_type_def INT_MAX_def)
  ultimately obtain ctx' where c: "enter_fd (Some (fd_list_text False [FdName ''cwd'', FdRange 3 7])) lsof_new = Done (False, ctx')"
    and s: "\<And>t n. (t = LSOF_FD_NUMERIC \<longrightarrow> 0 \<le> n) \<Longrightarrow> ck_fd_status ctx' t n =
      (if \<exists>sp \<in> set [FdName ''cwd'', FdRange 3 7]. fd_spec_covers sp t n then if False then 1 else 2 else 0)"
    using enter_fd_list [of lsof_new "[FdName ''cwd'', FdRange 3 7]" False] by blast
  show ?thesis
    using c s [of LSOF_FD_NUMERIC 5] s [of LSOF_FD_NUMERIC 8] s [of LSOF_FD_CWD "- 1"]
    by (simp add: fd_spec_covers_def fd_name_type_def)
qed

text \<open>
  A \<open>-d\<close> list cannot mix inclusions and exclusions: once a list of one kind has been entered,
  a well-formed list of the other kind is reported as an error and changes nothing.
\<close>

theorem enter_fd_no_mix:
  assumes "fdlty ctx = of_bool (\<not> excl)" and "specs \<noteq> []" and "list_all fd_spec_ok specs"
  shows "enter_fd (Some (fd_list_text excl specs)) ctx = Done (True, ctx)"
proof -
  have "fd_mixed excl ctx" using assms(1) by (auto simp: fd_mixed_def)
  then show ?thesis
    using enter_fd_loop_mixed [OF assms(3), of excl ctx False] assms(2) fd_list_text_nonempty [OF assms(3,2), of excl]
    by (cases "fd_list_text excl specs") (auto simp: enter_fd_def)
qed

theorem enter_fd_no_mix_witness:
  "enter_fd (Some (fd_list_text True [FdNum 2])) (lsof_new\<lparr> fdlty := 0 \<rparr>) = Done (True, lsof_new\<lparr> fdlty := 0 \<rparr>)"
  by (rule enter_fd_no_mix) (simp_all add: INT_MAX_def)



section \<open>What an identifier list means\<close>

text \<open>
  The abstract effect of entering identifiers on a map from identifiers to their sense, and whether
  some identifier was entered with both senses.
\<close>

fun ids_apply :: "(int \<times> bool) list \<Rightarrow> (int \<rightharpoonup> bool) \<Rightarrow> bool \<Rightarrow> (int \<rightharpoonup> bool) \<times> bool" where
  "ids_apply [] m err = (m, err)"
| "ids_apply ((i, x) # es) m err =
    (if m i = Some (\<not> x) then ids_apply es m True else ids_apply es (m(i \<mapsto> x)) err)"

definition id_text :: "nat \<times> bool \<Rightarrow> cstring" where
  "id_text e = caret (snd e) @ dec_str (fst e)"

lemma id_elem_digits:
  assumes "list_all isdigit_c ds" and "rest = [] \<or> hd rest = CHR '',''" and "i \<or> ds \<noteq> []"
  shows "id_elem i n x (ds @ rest) = Some (foldl acc_digit n ds, x, rest)"
  using assms
proof (induction ds arbitrary: i n)
  case Nil
  then show ?case by (cases rest) auto
next
  case (Cons c ds)
  then have "c \<noteq> CHR '',''" "c \<noteq> CHR ''^''" by (auto simp: isdigit_c_def)
  then show ?case using Cons by simp
qed

lemma id_elem_text:
  assumes "rest = [] \<or> hd rest = CHR '',''"
  shows "id_elem False 0 False (id_text (n, x) @ rest) = Some (s32 (int n), x, rest)"
  using id_elem_digits [OF dec_str_digits assms, of _ n 0 x]
  by (cases x) (auto simp: id_text_def caret_def)

lemma enter_id_loop_item:
  "enter_id_loop ty (commas (id_text (n, x) # ts)) err ctx =
    (case select_id ty (s32 (int n)) x ctx of
       Exited v \<Rightarrow> Exited v
     | Done (e, ctx') \<Rightarrow> enter_id_loop ty (commas ts) (err \<or> e \<noteq> LSOF_SUCCESS) ctx')"
proof -
  let ?rest = "if ts = [] then [] else CHR '','' # commas ts"
  obtain c cp where s: "id_text (n, x) @ ?rest = c # cp" by (cases "id_text (n, x) @ ?rest") (auto simp: id_text_def)
  have e: "id_elem False 0 False (c # cp) = Some (s32 (int n), x, ?rest)"
    unfolding s [symmetric] by (rule id_elem_text) simp
  show ?thesis unfolding commas_Cons s enter_id_loop.simps(2) e
    by (auto simp: if_distrib [of tl] split: run.split)
qed

lemma select_pid_pgid_Done:
  assumes "tab_ok il_i il_x t" and "length (st_ents t) < 1000000"
  shows "\<exists>e b t'. select_pid_pgid i x t = Done (e, b, t') \<and> length (st_ents t') \<le> Suc (length (st_ents t))"
proof (cases "st_cap t \<le> int (length (st_ents t))")
  case True
  then have c: "0 \<le> st_cap t" "st_cap t < 1000000" using assms by (auto simp: tab_ok_def)
  then have "grow_array (st_cap t) 12 10 = Some (st_cap t + 10, nat (st_cap t + 10) * 12)"
    by (subst grow_array_value) auto
  then show ?thesis using True
    by (cases "find (\<lambda>e. i = il_i e) (st_ents t)") (auto simp: select_pid_pgid_def tab_grow_def)
next
  case False
  then show ?thesis
    by (cases "find (\<lambda>e. i = il_i e) (st_ents t)") (auto simp: select_pid_pgid_def tab_grow_def)
qed

lemma lsof_select_pid_Done:
  assumes "sel_ok ctx" and "\<not> frozen ctx" and "length (st_ents (spid ctx)) < 1000000"
  obtains e ctx' where "lsof_select_pid i x ctx = Done (e, ctx')" "\<not> frozen ctx'"
    "length (st_ents (spid ctx')) \<le> Suc (length (st_ents (spid ctx)))"
proof -
  have "tab_ok il_i il_x (spid ctx)" using assms(1) by (simp add: sel_ok_def)
  from select_pid_pgid_Done [OF this assms(3)] obtain e b t' where
    "select_pid_pgid (s32 i) x (spid ctx) = Done (e, b, t')" "length (st_ents t') \<le> Suc (length (st_ents (spid ctx)))"
    by blast
  then show ?thesis
    using assms(2) that [of e "ctx\<lparr> spid := t', selflags := sel_flag b x SELPID (selflags ctx),
      npuns := int (length (st_ents t')) \<rparr>"]
    by (simp add: lsof_select_pid_def lsof_select_pid_pgid_def)
qed

lemma enter_id_loop_list:
  assumes "sel_ok ctx" and "\<not> frozen ctx" and "length (st_ents (spid ctx)) + length es \<le> 1000000"
  shows "\<exists>err' ctx'. enter_id_loop PID (commas (map id_text es)) err ctx = Done (err', ctx') \<and> sel_ok ctx'
    \<and> ids_apply (map (\<lambda>(n, x). (s32 (int n), x)) es) (tab_lookup il_i il_x (spid ctx)) err
      = (tab_lookup il_i il_x (spid ctx'), err')"
  using assms
proof (induction es arbitrary: err ctx)
  case (Cons e es)
  obtain n x where [simp]: "e = (n, x)" by (cases e)
  have lt: "length (st_ents (spid ctx)) < 1000000" using Cons.prems(3) by simp
  obtain r ctx1 where c1: "lsof_select_pid (s32 (int n)) x ctx = Done (r, ctx1)" "\<not> frozen ctx1"
    "length (st_ents (spid ctx1)) \<le> Suc (length (st_ents (spid ctx)))"
    using lsof_select_pid_Done [OF Cons.prems(1,2) lt] by blast
  have ok: "sel_ok ctx1" using sel_ok_pid [OF Cons.prems(1) c1(1)] .
  note IH = Cons.IH [OF ok c1(2), of "err \<or> r \<noteq> LSOF_SUCCESS"]
  show ?case
    using IH c1 Cons.prems(3) lsof_select_pid_lookup [OF Cons.prems(1,2) c1(1)]
    by (auto simp: enter_id_loop_item select_id_def split: if_splits)
qed auto

section \<open>Properties of identifier lists\<close>

text \<open>
  C26: entering a comma-separated list of process identifiers, some with the exclusion mark, always
  returns, keeps the selection invariant, and updates the map of selected and excluded processes
  element by element: an identifier given with both senses keeps the first one and the call reports
  an error, and nothing else is an error.  Identifiers that do not fit an \<open>int\<close> wrap around.
\<close>

theorem enter_id_refines:
  assumes "sel_ok ctx" and "\<not> frozen ctx" and "length (st_ents (spid ctx)) + length es \<le> 1000000"
  shows "\<exists>err ctx'. enter_id PID (Some (commas (map id_text es))) ctx = Done (err, ctx') \<and> sel_ok ctx'
    \<and> ids_apply (map (\<lambda>(n, x). (s32 (int n), x)) es) (tab_lookup il_i il_x (spid ctx)) False
      = (tab_lookup il_i il_x (spid ctx'), err)"
  using enter_id_loop_list [OF assms, of False] by (simp add: enter_id_def)

theorem enter_id_refines_witness:
  "\<exists>err ctx'. enter_id PID (Some (commas (map id_text [(42, False), (4294967338, True)]))) lsof_new = Done (err, ctx')
    \<and> err \<and> tab_lookup il_i il_x (spid ctx') = [42 \<mapsto> False]"
proof -
  have "s32 42 = 42" "s32 4294967338 = 42" by (simp_all add: s32_def)
  moreover have "length (st_ents (spid lsof_new)) + length [(42 :: nat, False), (4294967338, True)] \<le> 1000000"
    by (simp add: empty_tab_def)
  ultimately show ?thesis
    using enter_id_refines [OF sel_ok_new, of "[(42, False), (4294967338, True)]"] by auto
qed

section \<open>What a user list means\<close>

datatype user_spec = Uid nat | Login cstring

fun user_text :: "user_spec \<times> bool \<Rightarrow> cstring" where
  "user_text (Uid n, x) = caret x @ dec_str n"
| "user_text (Login l, x) = caret x @ l"

fun user_ok :: "user_spec \<times> bool \<Rightarrow> bool" where
  "user_ok (Uid n, x) \<longleftrightarrow> n < 4294967296"
| "user_ok (Login l, x) \<longleftrightarrow> l \<noteq> [] \<and> hd l \<noteq> CHR ''^'' \<and> CHR '','' \<notin> set l \<and> length l \<le> LOGINML
    \<and> \<not> list_all isdigit_c l"

fun users_enter ::
  "(cstring \<Rightarrow> int option) \<Rightarrow> (user_spec \<times> bool) list \<Rightarrow> bool \<Rightarrow> lsof_context \<Rightarrow> (bool \<times> lsof_context) run" where
  "users_enter getpwnam [] err ctx = Done (err, ctx)"
| "users_enter getpwnam ((Uid n, x) # us) err ctx =
    (case lsof_select_uid (int n) x ctx of
       Exited v \<Rightarrow> Exited v
     | Done (e, ctx') \<Rightarrow> if e = LSOF_SUCCESS then users_enter getpwnam us err ctx' else Exited LSOF_EXIT_ERROR)"
| "users_enter getpwnam ((Login l, x) # us) err ctx =
    (if getpwnam l = None then users_enter getpwnam us True ctx
     else case lsof_select_login getpwnam l x ctx of
       Exited v \<Rightarrow> Exited v
     | Done (e, ctx') \<Rightarrow> if e = LSOF_SUCCESS then users_enter getpwnam us err ctx' else Exited LSOF_EXIT_ERROR)"

definition uid_value :: "int \<Rightarrow> cstring \<Rightarrow> int" where
  "uid_value n s = foldl (\<lambda>n c. (n * 10 + digit_val c) mod 4294967296) n s"

lemma uid_value_mod: "uid_value (n mod 4294967296) s = foldl (\<lambda>n c. n * 10 + digit_val c) n s mod 4294967296"
proof (induction s arbitrary: n)
  case (Cons c s)
  have "(n mod 4294967296 * 10 + digit_val c) mod 4294967296 = (n * 10 + digit_val c) mod 4294967296"
    by (metis mod_add_left_eq mod_mult_left_eq)
  then show ?case using Cons [of "n * 10 + digit_val c"] by (simp add: uid_value_def)
qed (simp add: uid_value_def)

lemma uid_value_dec_str: "n < 4294967296 \<Longrightarrow> uid_value 0 (dec_str n) = int n"
  using uid_value_mod [of 0 "dec_str n"] dec_value_dec_str [of n] by (simp add: dec_value_def)

lemma uid_elem_scan:
  assumes "CHR '','' \<notin> set s" and "rest = [] \<or> hd rest = CHR '',''" and "length lnm + length s \<le> LOGINML"
    and "i = 0 \<and> s \<noteq> [] \<longrightarrow> hd s \<noteq> CHR ''^''"
  shows "\<exists>uid'. uid_elem i x lnm nn uid (s @ rest) = (Some (x, lnm @ s, nn \<or> \<not> list_all isdigit_c s, uid'), rest)
    \<and> (\<not> nn \<and> list_all isdigit_c s \<longrightarrow> uid' = uid_value uid s)"
  using assms
proof (induction s arbitrary: i lnm nn uid)
  case Nil
  then show ?case by (cases rest) (auto simp: uid_value_def)
next
  case (Cons c s)
  define nn' where "nn' = (nn \<or> \<not> isdigit_c c)"
  define u where "u = (if nn' then uid else (uid * 10 + digit_val c) mod 4294967296)"
  have "uid_elem i x lnm nn uid ((c # s) @ rest) = uid_elem (i + 1) x (lnm @ [c]) nn' u (s @ rest)"
    using Cons.prems by (auto simp: nn'_def u_def)
  moreover have "\<exists>uid'. uid_elem (i + 1) x (lnm @ [c]) nn' u (s @ rest) =
      (Some (x, (lnm @ [c]) @ s, nn' \<or> \<not> list_all isdigit_c s, uid'), rest)
    \<and> (\<not> nn' \<and> list_all isdigit_c s \<longrightarrow> uid' = uid_value u s)"
    using Cons.prems by (intro Cons.IH) auto
  ultimately show ?case by (auto simp: nn'_def u_def uid_value_def)
qed

lemma uid_elem_caret:
  "uid_elem 0 False [] False 0 (caret x @ s) = (if x then uid_elem 1 True [] False 0 s else uid_elem 0 False [] False 0 s)"
  by (simp add: caret_def LOGINML_def)

lemma uid_elem_text:
  assumes "user_ok (sp, x)" and "rest = [] \<or> hd rest = CHR '',''"
  shows "case sp of
      Uid n \<Rightarrow> \<exists>lnm. uid_elem 0 False [] False 0 (user_text (sp, x) @ rest) = (Some (x, lnm, False, int n), rest)
    | Login l \<Rightarrow> \<exists>uid. uid_elem 0 False [] False 0 (user_text (sp, x) @ rest) = (Some (x, l, True, uid), rest)"
proof (cases sp)
  case (Uid n)
  then have "length (dec_str n) \<le> 10" using assms(1) by (intro dec_str_length) auto
  moreover have "hd (dec_str n) \<noteq> CHR ''^''" using dec_str_hd [of n] by (auto simp: isdigit_c_def)
  ultimately have "\<exists>uid'. uid_elem i y [] False 0 (dec_str n @ rest) = (Some (y, dec_str n, False, uid'), rest)
      \<and> uid' = uid_value 0 (dec_str n)" for i y
    using uid_elem_scan [of "dec_str n" rest "[]" i y False 0] assms(2) dec_str_digits [of n]
    by (auto simp: LOGINML_def)
  then show ?thesis using Uid assms(1) uid_value_dec_str [of n] by (auto simp: uid_elem_caret)
next
  case (Login l)
  then show ?thesis
    using uid_elem_scan [of l rest "[]" _ _ False 0] assms by (auto simp: uid_elem_caret)
qed

lemma enter_uid_loop_item:
  assumes "user_ok (sp, x)"
  shows "enter_uid_loop getpwnam (commas (user_text (sp, x) # ts)) err ctx =
    (case users_enter getpwnam [(sp, x)] err ctx of
       Exited v \<Rightarrow> Exited v
     | Done (err', ctx') \<Rightarrow> enter_uid_loop getpwnam (commas ts) err' ctx')"
proof -
  let ?rest = "if ts = [] then [] else CHR '','' # commas ts"
  have "user_text (sp, x) \<noteq> []" using assms by (cases sp) auto
  then obtain c cp where s: "user_text (sp, x) @ ?rest = c # cp" by (cases "user_text (sp, x)") auto
  have "?rest = [] \<or> hd ?rest = CHR '',''" by simp
  note t = uid_elem_text [OF assms this, unfolded s]
  have tl: "tl ?rest = commas ts" by simp
  show ?thesis
    unfolding commas_Cons s using t
    by (cases sp) (auto simp: tl split: run.split simp del: uid_elem.simps)
qed

lemma users_enter_Cons:
  "users_enter getpwnam (u # us) err ctx =
    (case users_enter getpwnam [u] err ctx of Exited v \<Rightarrow> Exited v | Done (err', ctx') \<Rightarrow> users_enter getpwnam us err' ctx')"
  by (cases u; cases "fst u") (auto split: run.split)

text \<open>
  A \<open>-u\<close> list of numeric users and login names, some with the exclusion mark, is read as the
  sequence of its elements: numbers are selected as they are, names through the password database,
  an unknown name is an error that leaves the other elements in force, and a user that is both
  selected and excluded ends the program.
\<close>

theorem enter_uid_selects:
  assumes "list_all user_ok us"
  shows "enter_uid getpwnam (Some (commas (map user_text us))) ctx = users_enter getpwnam us False ctx"
proof -
  have "enter_uid_loop getpwnam (commas (map user_text us)) err ctx = users_enter getpwnam us err ctx" for err
    using assms
  proof (induction us arbitrary: err ctx)
    case (Cons u us)
    obtain sp x where u: "u = (sp, x)" by (cases u)
    then have "user_ok (sp, x)" using Cons.prems by simp
    from enter_uid_loop_item [OF this, of getpwnam "map user_text us" err ctx] show ?case
      using Cons u users_enter_Cons [of getpwnam u us err ctx] by (simp split: run.split)
  qed simp
  then show ?thesis by (simp add: enter_uid_def)
qed

theorem enter_uid_selects_witness:
  "enter_uid (\<lambda>_. None) (Some (commas (map user_text [(Login ''nobody'', True)]))) lsof_new = Done (True, lsof_new)"
  using enter_uid_selects [of "[(Login ''nobody'', True)]" "\<lambda>_. None" lsof_new]
  by (simp add: LOGINML_def isdigit_c_def)

section \<open>What a numeric host address means\<close>

text \<open>
  \<open>octet\<close> is the number a run of digits stands for: its decimal value as long as that fits an
  \<open>int\<close>.  Beyond, the accumulator wraps, and starts again when it has become negative.
\<close>

definition octet_step :: "int \<Rightarrow> char \<Rightarrow> int" where
  "octet_step n c = (if n < 0 then digit_val c else acc_digit n c)"

definition octet :: "cstring \<Rightarrow> int" where
  "octet ds = foldl octet_step (- 1) ds"

fun dotted :: "cstring list \<Rightarrow> cstring" where
  "dotted [] = []"
| "dotted [t] = t"
| "dotted (t # u # ts) = t @ CHR ''.'' # dotted (u # ts)"

definition host_end :: "cstring \<Rightarrow> bool" where
  "host_end rest \<longleftrightarrow> rest = [] \<or> hd rest = CHR '':''"

definition is_octet :: "cstring \<Rightarrow> bool" where
  "is_octet ds \<longleftrightarrow> 0 \<le> octet ds \<and> octet ds \<le> 255"

lemma octet_Nil [simp]: "octet [] = - 1"
  by (simp add: octet_def)

lemma is_octet_nonempty: "is_octet ds \<Longrightarrow> ds \<noteq> []"
  by (auto simp: is_octet_def)

lemma value_mono: "0 \<le> a \<Longrightarrow> list_all isdigit_c ds \<Longrightarrow> a \<le> foldl (\<lambda>n c. n * 10 + digit_val c) a ds"
proof (induction ds arbitrary: a)
  case (Cons c ds)
  then have "0 \<le> digit_val c" using isdigit_val by simp
  then show ?case using Cons.IH [of "a * 10 + digit_val c"] Cons.prems by simp
qed simp

lemma octet_value:
  assumes "list_all isdigit_c ds" and "ds \<noteq> []" and "dec_value ds < 2147483648"
  shows "octet ds = dec_value ds"
proof -
  have "foldl octet_step a ds = foldl (\<lambda>n c. n * 10 + digit_val c) a ds"
    if "0 \<le> a" "list_all isdigit_c ds" "foldl (\<lambda>n c. n * 10 + digit_val c) a ds < 2147483648" for a ds
    using that
  proof (induction ds arbitrary: a)
    case (Cons c ds)
    have d: "0 \<le> digit_val c" using Cons.prems(2) isdigit_val by simp
    then have "a * 10 + digit_val c < 2147483648"
      using value_mono [of "a * 10 + digit_val c" ds] Cons.prems by simp
    then have "octet_step a c = a * 10 + digit_val c"
      using d Cons.prems(1) by (simp add: octet_step_def acc_digit_def in_s32_def)
    then show ?case using Cons.IH [of "a * 10 + digit_val c"] Cons.prems d by simp
  qed simp
  then show ?thesis using assms isdigit_val
    by (cases ds) (auto simp: octet_def octet_step_def [of "- 1"] dec_value_def)
qed

lemma ipv4_loop_digits:
  "list_all isdigit_c ds \<Longrightarrow>
    ipv4_loop dc (ov @ [a]) (ds @ rest) = ipv4_loop dc (ov @ [foldl octet_step a ds]) rest"
proof (induction ds arbitrary: a)
  case (Cons c ds)
  then have "c \<noteq> CHR '':''" "c \<noteq> CHR ''.''" by (auto simp: isdigit_c_def)
  then show ?case using Cons by (simp add: octet_step_def)
qed simp

lemma ipv4_loop_octet:
  "list_all isdigit_c ds \<Longrightarrow> ipv4_loop dc (ov @ [- 1]) (ds @ rest) = ipv4_loop dc (ov @ [octet ds]) rest"
  by (simp add: ipv4_loop_digits octet_def)

lemma ipv4_loop_complete:
  assumes "ds \<noteq> []" and "list_all (list_all isdigit_c) ds" and "list_all is_octet (butlast ds)"
    and "length ov + length ds \<le> 4" and "host_end rest"
  shows "ipv4_loop dc (ov @ [- 1]) (dotted ds @ rest) = Some (dc + length ds - 1, ov @ map octet ds, rest)"
  using assms
proof (induction ds arbitrary: dc ov rule: dotted.induct)
  case (2 t)
  have "ipv4_loop dc (ov @ [- 1]) (t @ rest) = ipv4_loop dc (ov @ [octet t]) rest"
    using 2 by (simp add: ipv4_loop_octet)
  then show ?case using 2 by (cases rest) (auto simp: host_end_def)
next
  case (3 t u ts)
  have "ipv4_loop dc (ov @ [- 1]) (dotted (t # u # ts) @ rest)
      = ipv4_loop dc (ov @ [octet t]) (CHR ''.'' # dotted (u # ts) @ rest)"
    using 3 by (simp add: ipv4_loop_octet)
  also have "\<dots> = ipv4_loop (dc + 1) ((ov @ [octet t]) @ [- 1]) (dotted (u # ts) @ rest)"
    using 3 by (simp add: is_octet_def MIN_AF_ADDR_def)
  also have "\<dots> = Some (dc + 1 + length (u # ts) - 1, (ov @ [octet t]) @ map octet (u # ts), rest)"
    using 3(2-6) by (intro 3(1)) auto
  finally show ?case by simp
qed simp

lemma ipv4_loop_sound:
  assumes "ipv4_loop dc (ov @ [- 1]) s = Some (dc', ov', rest)"
  shows "\<exists>ds. ds \<noteq> [] \<and> s = dotted ds @ rest \<and> list_all (list_all isdigit_c) ds \<and> list_all is_octet (butlast ds)
    \<and> host_end rest \<and> ov' = ov @ map octet ds \<and> dc' = dc + length ds - 1"
  using assms
proof (induction "length s" arbitrary: s dc ov rule: less_induct)
  case less
  define t where "t = takeWhile isdigit_c s"
  define r where "r = dropWhile isdigit_c s"
  have s: "s = t @ r" and t: "list_all isdigit_c t" by (auto simp: t_def r_def list_all_iff dest: set_takeWhileD)
  have l: "ipv4_loop dc (ov @ [octet t]) r = Some (dc', ov', rest)" using less.prems ipv4_loop_octet [OF t] s by simp
  show ?case
  proof (cases r)
    case Nil
    then show ?thesis using l s t by (intro exI [of _ "[t]"]) (simp add: host_end_def)
  next
    case (Cons c r')
    then have nd: "\<not> isdigit_c c" using hd_dropWhile [of isdigit_c s] by (simp add: r_def)
    show ?thesis
    proof (cases "c = CHR '':''")
      case True
      then show ?thesis using l s t Cons by (intro exI [of _ "[t]"]) (auto simp: host_end_def)
    next
      case False
      with l Cons nd have c: "c = CHR ''.''" "is_octet t" "ipv4_loop (dc + 1) ((ov @ [octet t]) @ [- 1]) r' = Some (dc', ov', rest)"
        by (auto simp: is_octet_def split: if_splits)
      have "length r' < length s" using s Cons by simp
      from less.hyps [OF this c(3)] obtain ds where ds: "ds \<noteq> []" "r' = dotted ds @ rest"
        "list_all (list_all isdigit_c) ds" "list_all is_octet (butlast ds)" "host_end rest"
        "ov' = (ov @ [octet t]) @ map octet ds" "dc' = dc + 1 + length ds - 1" by blast
      have "dotted (t # ds) = t @ CHR ''.'' # dotted ds" using ds(1) by (cases ds) auto
      then show ?thesis using ds t s Cons c by (intro exI [of _ "t # ds"]) auto
    qed
  qed
qed

lemma isIPv4addr_spec:
  "isIPv4addr s al = Some (a, rest) \<longleftrightarrow> 4 \<le> al \<and>
    (\<exists>d0 d1 d2 d3. s = dotted [d0, d1, d2, d3] @ rest \<and> list_all (list_all isdigit_c) [d0, d1, d2, d3]
      \<and> list_all is_octet [d0, d1, d2, d3] \<and> host_end rest \<and> a = map (\<lambda>d. of_int (octet d)) [d0, d1, d2, d3])"
  (is "?L \<longleftrightarrow> ?R")
proof -
  have first: "isIPv4addr s al = (if s = [] \<or> \<not> isdigit_c (hd s) \<or> al < 4 then None
      else case ipv4_loop 0 ([] @ [- 1]) s of None \<Rightarrow> None
        | Some (dc, ov, rest) \<Rightarrow> if dc \<noteq> 3 \<or> length ov - 1 \<noteq> 3 \<or> last ov < 0 \<or> last ov > 255 then None
            else Some (map of_int ov, rest))"
    using ipv4_loop_digits [of "[hd s]" 0 "[]" "- 1" "tl s"]
    by (cases s) (auto simp: isIPv4addr_def MIN_AF_ADDR_def octet_step_def split: option.split)
  show ?thesis
  proof
    assume ?L
    then obtain dc ov where l: "ipv4_loop 0 ([] @ [- 1]) s = Some (dc, ov, rest)" and f: "4 \<le> al" "dc = 3"
      "length ov - 1 = 3" "0 \<le> last ov" "last ov \<le> 255" "a = map of_int ov"
      unfolding first by (auto split: if_splits option.splits)
    from ipv4_loop_sound [OF l] obtain ds where ds: "s = dotted ds @ rest" "list_all (list_all isdigit_c) ds"
      "list_all is_octet (butlast ds)" "host_end rest" "ov = map octet ds" "length ds = 4" using f by auto
    then obtain d0 d1 d2 d3 where "ds = [d0, d1, d2, d3]" by (auto simp: length_Suc_conv numeral_eq_Suc)
    then show ?R using ds f by (auto simp: is_octet_def)
  next
    assume ?R
    then obtain d0 d1 d2 d3 where r: "4 \<le> al" "s = dotted [d0, d1, d2, d3] @ rest"
      "list_all (list_all isdigit_c) [d0, d1, d2, d3]" "list_all is_octet [d0, d1, d2, d3]" "host_end rest"
      "a = map (\<lambda>d. of_int (octet d)) [d0, d1, d2, d3]" by blast
    have "ipv4_loop 0 ([] @ [- 1]) s = Some (3, map octet [d0, d1, d2, d3], rest)"
      using r ipv4_loop_complete [of "[d0, d1, d2, d3]" "[]" rest 0] by simp
    moreover have "s \<noteq> [] \<and> isdigit_c (hd s)" using r is_octet_nonempty [of d0] by (cases d0) auto
    ultimately show ?L unfolding first using r by (simp add: is_octet_def)
  qed
qed


end
