(* ===== verification/IP_States.thy ===== *)
theory IP_States
  imports Option_Args
begin

text \<open>
  The TCP and UDP state tables: \<open>enter_IPstate\<close> of \<open>src/lib/misc.c\<close>, the tables the Linux dialect
  builds (\<open>build_IPstates\<close> of \<open>src/lib/dialects/linux/dsock.c\<close>), the option \<open>-s proto:states\<close>
  (\<open>enter_state_spec\<close> of \<open>src/src/arg.c\<close>), the conflict test and the report of states not found in
  \<open>main\<close>, and the filter the sockets go through.  Both protocols have the same members in the
  context and the same code with \<open>tx\<close> as the switch, so one record serves for each of them.
\<close>

section \<open>State tables\<close>

text \<open>
  \<open>pt_st\<close> is the array of names (\<open>None\<close> for the NULL pointer, an entry \<open>None\<close> for a NULL name), whose
  length is the allocated size; \<open>pt_inc\<close> and \<open>pt_exc\<close> are the inclusion and exclusion tables.
\<close>

record proto_tab =
  pt_st :: "cstring option list option"
  pt_n :: int
  pt_alloc :: int
  pt_off :: int
  pt_inc :: "nat list option"
  pt_incn :: int
  pt_exc :: "nat list option"
  pt_excn :: int

definition proto_new :: proto_tab where
  "proto_new = \<lparr> pt_st = None, pt_n = 0, pt_alloc = 0, pt_off = 0, pt_inc = None, pt_incn = 0, pt_exc = None, pt_excn = 0 \<rparr>"

definition TCPUDPALLOC :: int where "TCPUDPALLOC = 32"

function al_grow :: "int \<Rightarrow> int \<Rightarrow> int" where
  "al_grow nn al = (if nn + 5 > al then al_grow nn (al + TCPUDPALLOC) else al)"
  by pat_completeness auto

termination
  by (relation "measure (\<lambda>(nn, al). nat (nn + 5 - al))") (auto simp: TCPUDPALLOC_def)

declare al_grow.simps [simp del]

text \<open>Reallocation keeps the old entries; what the new ones hold is \<open>junk\<close>.\<close>

definition st_realloc :: "(nat \<Rightarrow> cstring option) \<Rightarrow> int \<Rightarrow> cstring option list \<Rightarrow> cstring option list" where
  "st_realloc junk al st = take (nat al) st @ map junk [length st..<nat al]"

definition tab_list :: "proto_tab \<Rightarrow> cstring option list" where
  "tab_list t = (case pt_st t of None \<Rightarrow> [] | Some st \<Rightarrow> st)"

text \<open>The loop that moves previous entries up by \<open>oc\<close> places, from place \<open>i\<close> on.\<close>

fun st_move :: "nat \<Rightarrow> int \<Rightarrow> nat \<Rightarrow> nat \<Rightarrow> cstring option list \<Rightarrow> cstring option list" where
  "st_move 0 ns oc i st = st"
| "st_move (Suc k) ns oc i st =
    (let st1 = (if int i < ns then st[i + oc := st ! i] else st) in st_move k ns oc (i + 1) (st1[i := None]))"

definition st_offset :: "(nat \<Rightarrow> cstring option) \<Rightarrow> int \<Rightarrow> proto_tab \<Rightarrow> proto_tab" where
  "st_offset junk nr t =
    (let off = - nr in
     if nr < 0 \<and> off > pt_off t then
       (let t1 = (case pt_st t of
                    None \<Rightarrow> t
                  | Some st \<Rightarrow>
                     (let oc = off - pt_off t; nn = pt_n t + oc in
                      if nn \<ge> pt_alloc t then
                        (let al = al_grow nn (pt_alloc t) in
                         t\<lparr> pt_st := Some (st_move (nat oc) (pt_n t) (nat oc) 0 (st_realloc junk al st)),
                            pt_alloc := al, pt_n := pt_n t + oc \<rparr>)
                      else t)) in
        t1\<lparr> pt_off := off \<rparr>)
     else t)"

definition st_room :: "(nat \<Rightarrow> cstring option) \<Rightarrow> int \<Rightarrow> proto_tab \<Rightarrow> proto_tab" where
  "st_room junk nr t =
    (let nn = nr + pt_off t + 1 in
     if nn > pt_alloc t then
       (let al = al_grow nn (pt_alloc t) in
        t\<lparr> pt_st := Some (take (nat (pt_n t)) (st_realloc junk al (tab_list t)) @ replicate (nat (al - pt_n t)) None),
           pt_n := nn, pt_alloc := al \<rparr>)
     else if nn > pt_n t then t\<lparr> pt_n := nn \<rparr>
     else t)"

definition enter_IPstate :: "(nat \<Rightarrow> cstring option) \<Rightarrow> cstring option \<Rightarrow> int \<Rightarrow> proto_tab \<Rightarrow> proto_tab run" where
  "enter_IPstate junk nm nr t =
    (case nm of
       None \<Rightarrow>
         (case pt_st t of
            None \<Rightarrow> Done t
          | Some st \<Rightarrow>
              Done (t\<lparr> pt_st := Some (if pt_n t < pt_alloc t then take (nat (pt_n t)) st else st), pt_alloc := pt_n t \<rparr>))
     | Some s \<Rightarrow>
         if s = [] then Exited LSOF_EXIT_ERROR
         else
           (let t1 = st_room junk nr (st_offset junk nr t); k = nat (nr + pt_off t1) in
            if tab_list t1 ! k \<noteq> None then Exited LSOF_EXIT_ERROR
            else Done (t1\<lparr> pt_st := Some ((tab_list t1)[k := Some s]) \<rparr>)))"

section \<open>The tables of the Linux dialect\<close>

text \<open>The state numbers are those of the kernel's TCP states, as \<open>netinet/tcp.h\<close> names them.\<close>

definition tcp_states :: "(cstring option \<times> int) list" where
  "tcp_states = [(Some ''ESTABLISHED'', 1), (Some ''SYN_SENT'', 2), (Some ''SYN_RECV'', 3), (Some ''FIN_WAIT1'', 4),
    (Some ''FIN_WAIT2'', 5), (Some ''TIME_WAIT'', 6), (Some ''CLOSE'', 7), (Some ''CLOSE_WAIT'', 8),
    (Some ''LAST_ACK'', 9), (Some ''LISTEN'', 10), (Some ''CLOSING'', 11), (Some ''CLOSED'', 0), (None, 0)]"

definition udp_states :: "(cstring option \<times> int) list" where
  "udp_states = [(Some ''ESTABLISHED'', 1), (None, 0)]"

fun enter_states :: "(nat \<Rightarrow> cstring option) \<Rightarrow> (cstring option \<times> int) list \<Rightarrow> proto_tab \<Rightarrow> proto_tab run" where
  "enter_states junk [] t = Done t"
| "enter_states junk ((nm, nr) # ss) t =
    (case enter_IPstate junk nm nr t of Exited v \<Rightarrow> Exited v | Done t' \<Rightarrow> enter_states junk ss t')"

record ip_ctx =
  ip_tcp :: proto_tab
  ip_udp :: proto_tab

definition build_IPstates :: "(nat \<Rightarrow> cstring option) \<Rightarrow> ip_ctx \<Rightarrow> ip_ctx run" where
  "build_IPstates junk c =
    (case (if pt_st (ip_tcp c) = None then enter_states junk tcp_states (ip_tcp c) else Done (ip_tcp c)) of
       Exited v \<Rightarrow> Exited v
     | Done t \<Rightarrow>
        (case (if pt_st (ip_udp c) = None then enter_states junk udp_states (ip_udp c) else Done (ip_udp c)) of
           Exited v \<Rightarrow> Exited v
         | Done u \<Rightarrow> Done \<lparr> ip_tcp = t, ip_udp = u \<rparr>))"

section \<open>State specifications\<close>

text \<open>
  Searching the table for a name compares it with every entry from the first on.  \<open>strcasecmp\<close> reads
  its arguments without a test, so a NULL entry met on the way is a memory fault: outcome \<open>None\<close>.
\<close>

fun find_state :: "cstring \<Rightarrow> cstring option list \<Rightarrow> nat \<Rightarrow> nat option option" where
  "find_state ns [] i = Some None"
| "find_state ns (None # st) i = None"
| "find_state ns (Some s # st) i = (if strcasecmp_eq ns s then Some (Some i) else find_state ns st (i + 1))"

definition state_tables :: "proto_tab \<Rightarrow> proto_tab" where
  "state_tables t =
    (if pt_n t \<noteq> 0 then
       t\<lparr> pt_inc := Some (case pt_inc t of None \<Rightarrow> replicate (nat (pt_n t)) 0 | Some m \<Rightarrow> m),
          pt_exc := Some (case pt_exc t of None \<Rightarrow> replicate (nat (pt_n t)) 0 | Some m \<Rightarrow> m) \<rparr>
     else t)"

text \<open>Marking state \<open>i\<close>: the flag of the result reports a duplicate.\<close>

definition mark_state :: "bool \<Rightarrow> nat \<Rightarrow> proto_tab \<Rightarrow> bool \<times> proto_tab" where
  "mark_state x i t =
    (if x then
       (let m = the (pt_exc t) in
        if m ! i = 0 then (False, t\<lparr> pt_exc := Some (m[i := 1]), pt_excn := pt_excn t + 1 \<rparr>) else (True, t))
     else
       (let m = the (pt_inc t) in
        if m ! i = 0 then (False, t\<lparr> pt_inc := Some (m[i := 1]), pt_incn := pt_incn t + 1 \<rparr>) else (True, t)))"

definition state_name :: "cstring \<Rightarrow> bool \<Rightarrow> proto_tab \<Rightarrow> (bool \<times> proto_tab) option" where
  "state_name ns x t =
    (if ns = [] then Some (True, t)
     else case find_state ns (take (nat (pt_n t)) (tab_list t)) 0 of
       None \<Rightarrow> None
     | Some None \<Rightarrow> Some (True, t)
     | Some (Some i) \<Rightarrow> Some (mark_state x i t))"

function (sequential) state_loop :: "cstring \<Rightarrow> bool \<Rightarrow> proto_tab \<Rightarrow> (bool \<times> proto_tab) option" where
  "state_loop [] err t = Some (err, t)"
| "state_loop (c # cp) err t =
    (let x = (c = CHR ''^''); s = (if x then cp else c # cp) in
     case state_name (takeWhile (\<lambda>c. c \<noteq> CHR '','') s) x t of
       None \<Rightarrow> None
     | Some (d, t') \<Rightarrow> state_loop (tl (dropWhile (\<lambda>c. c \<noteq> CHR '','') s)) (err \<or> d) t')"
  by pat_completeness auto

termination
proof (relation "measure (\<lambda>(s, _, _). length s)", goal_cases)
  case (2 c cp err t x s p d t')
  have "length (dropWhile (\<lambda>c. c \<noteq> CHR '','') s) \<le> length s" by (rule length_dropWhile_le)
  moreover have "length s \<le> Suc (length cp)" using 2 by simp
  ultimately have "length (tl (dropWhile (\<lambda>c. c \<noteq> CHR '','') s)) < Suc (length cp)" by simp
  then show ?case by simp
qed simp

definition enter_state_spec :: "(nat \<Rightarrow> cstring option) \<Rightarrow> cstring \<Rightarrow> ip_ctx \<Rightarrow> (bool \<times> ip_ctx) run option" where
  "enter_state_spec junk ss c =
    (let tcp = strcasecmp_eq (take 4 ss) ''tcp:''; udp = strcasecmp_eq (take 4 ss) ''UDP:''; cp = drop 4 ss in
     if \<not> tcp \<and> \<not> udp then Some (Done (True, c))
     else if cp = [] then Some (Done (True, c))
     else case build_IPstates junk c of
       Exited v \<Rightarrow> Some (Exited v)
     | Done c1 \<Rightarrow>
        (let t = (if tcp then ip_tcp c1 else ip_udp c1) in
         if pt_st t = None then Some (Done (True, c1))
         else case state_loop cp False (state_tables t) of
           None \<Rightarrow> None
         | Some (err, t') \<Rightarrow>
             Some (Done (err, if tcp then c1\<lparr> ip_tcp := t' \<rparr> else c1\<lparr> ip_udp := t' \<rparr>))))"

section \<open>Using the tables\<close>

text \<open>The conflict test of \<open>main\<close>, for one protocol, and its report of included states not found.\<close>

definition state_conflict :: "proto_tab \<Rightarrow> bool" where
  "state_conflict t \<longleftrightarrow> pt_excn t \<noteq> 0 \<and> pt_incn t \<noteq> 0
    \<and> list_ex (\<lambda>i. the (pt_exc t) ! i \<noteq> 0 \<and> the (pt_inc t) ! i \<noteq> 0) [0..<nat (pt_n t)]"

definition state_not_located :: "proto_tab \<Rightarrow> bool" where
  "state_not_located t \<longleftrightarrow> pt_incn t \<noteq> 0 \<and> list_ex (\<lambda>i. the (pt_inc t) ! i = 1) [0..<nat (pt_n t)]"

text \<open>
  The filter of \<open>process_proc_sock\<close> for a socket in state \<open>s\<close>: whether the file is marked
  \<open>SELEXCLF\<close> and dropped, and the table with a found state noted.
\<close>

definition state_filter :: "int \<Rightarrow> proto_tab \<Rightarrow> bool \<times> proto_tab" where
  "state_filter s t =
    (let i = s + pt_off t; known = (0 \<le> i \<and> i < pt_n t) in
     if pt_excn t \<noteq> 0 \<and> known \<and> the (pt_exc t) ! nat i \<noteq> 0 then (True, t)
     else if pt_incn t \<noteq> 0 \<and> known then
       (if the (pt_inc t) ! nat i \<noteq> 0 then (False, t\<lparr> pt_inc := Some ((the (pt_inc t))[nat i := 2]) \<rparr>)
        else (True, t))
     else (False, t))"

section \<open>The table as a map\<close>

definition pt_ok :: "proto_tab \<Rightarrow> bool" where
  "pt_ok t \<longleftrightarrow> pt_off t = 0 \<and> 0 \<le> pt_n t \<and> pt_n t \<le> pt_alloc t
    \<and> int (length (tab_list t)) = pt_alloc t
    \<and> (\<forall>k. pt_n t \<le> int k \<longrightarrow> k < length (tab_list t) \<longrightarrow> tab_list t ! k = None)"

definition st_lookup :: "proto_tab \<Rightarrow> nat \<Rightarrow> cstring option" where
  "st_lookup t k = (if int k < pt_n t then tab_list t ! k else None)"

lemma al_grow_ge: "al \<le> al_grow nn al \<and> nn + 5 \<le> al_grow nn al"
  by (induction nn al rule: al_grow.induct) (subst (1 2) al_grow.simps, auto simp: TCPUDPALLOC_def)

lemma tab_list_Some [simp]: "tab_list (t\<lparr> pt_st := Some st \<rparr>) = st"
  by (simp add: tab_list_def)

lemma tab_list_frame [simp]:
  "tab_list (t\<lparr> pt_n := n \<rparr>) = tab_list t" "tab_list (t\<lparr> pt_alloc := n \<rparr>) = tab_list t"
  by (simp_all add: tab_list_def)

lemma st_room_list:
  assumes "pt_ok t" and "nr + 1 > pt_alloc t"
  shows "tab_list (st_room junk nr t) =
    take (nat (pt_n t)) (tab_list t) @ replicate (nat (al_grow (nr + 1) (pt_alloc t) - pt_n t)) None"
proof -
  let ?al = "al_grow (nr + 1) (pt_alloc t)"
  have al: "pt_alloc t \<le> ?al" using al_grow_ge by blast
  then have "length (tab_list t) \<le> nat ?al" using assms(1) by (auto simp: pt_ok_def)
  then have "take (nat (pt_n t)) (st_realloc junk ?al (tab_list t)) = take (nat (pt_n t)) (tab_list t)"
    using assms(1) by (auto simp: pt_ok_def st_realloc_def)
  then show ?thesis using assms by (simp add: st_room_def pt_ok_def Let_def)
qed

lemma st_room_ok:
  assumes "pt_ok t" and "0 \<le> nr"
  shows "pt_ok (st_room junk nr t)" "nr < pt_n (st_room junk nr t)" "st_lookup (st_room junk nr t) = st_lookup t"
proof -
  let ?t = "st_room junk nr t" and ?al = "al_grow (nr + 1) (pt_alloc t)"
  have al: "pt_alloc t \<le> ?al" "nr + 6 \<le> ?al" using al_grow_ge [of "pt_alloc t" "nr + 1"] by auto
  have n: "pt_n ?t = max (pt_n t) (nr + 1)" and off: "pt_off ?t = 0"
    and alloc: "pt_alloc ?t = (if nr + 1 > pt_alloc t then ?al else pt_alloc t)"
    using assms(1) by (auto simp: st_room_def pt_ok_def Let_def)
  have list: "tab_list ?t = (if nr + 1 > pt_alloc t
      then take (nat (pt_n t)) (tab_list t) @ replicate (nat (?al - pt_n t)) None else tab_list t)"
    using st_room_list [OF assms(1), of nr junk] assms(1) by (auto simp: st_room_def pt_ok_def)
  show "nr < pt_n ?t" using n by simp
  show "pt_ok ?t" using assms al n off alloc list by (auto simp: pt_ok_def nth_append)
  show "st_lookup ?t = st_lookup t" using assms al n list by (auto simp: st_lookup_def fun_eq_iff pt_ok_def nth_append)
qed

section \<open>Properties\<close>



definition tcp_names :: "cstring list" where
  "tcp_names = [''CLOSED'', ''ESTABLISHED'', ''SYN_SENT'', ''SYN_RECV'', ''FIN_WAIT1'', ''FIN_WAIT2'', ''TIME_WAIT'',
    ''CLOSE'', ''CLOSE_WAIT'', ''LAST_ACK'', ''LISTEN'', ''CLOSING'']"

definition ip_new :: ip_ctx where
  "ip_new = \<lparr> ip_tcp = proto_new, ip_udp = proto_new \<rparr>"

definition tcp_built :: proto_tab where
  "tcp_built = proto_new\<lparr> pt_st := Some (map Some tcp_names), pt_n := 12, pt_alloc := 12 \<rparr>"

definition udp_built :: proto_tab where
  "udp_built = proto_new\<lparr> pt_st := Some [None, Some ''ESTABLISHED''], pt_n := 2, pt_alloc := 2 \<rparr>"

lemma al_grow_first: "al_grow 2 0 = 32"
  by (simp add: al_grow.simps TCPUDPALLOC_def)

lemma udp_states_built: "enter_states junk udp_states proto_new = Done udp_built"
  by (simp add: udp_states_def enter_IPstate_def st_offset_def st_room_def proto_new_def al_grow_first tab_list_def
      udp_built_def Let_def eval_nat_numeral)

lemma tcp_states_built: "enter_states junk tcp_states proto_new = Done tcp_built"
  by (simp add: tcp_states_def enter_IPstate_def st_offset_def st_room_def proto_new_def al_grow_first tab_list_def
      tcp_built_def tcp_names_def Let_def eval_nat_numeral)

lemma build_IPstates_new: "build_IPstates junk ip_new = Done \<lparr> ip_tcp = tcp_built, ip_udp = udp_built \<rparr>"
  by (simp add: build_IPstates_def ip_new_def tcp_states_built udp_states_built) (simp add: proto_new_def)

text \<open>
  C38: the option \<open>-s UDP:name\<close> always faults on Linux.  The UDP table has no name for state 0, and
  looking any name up starts by comparing it with that missing name.
\<close>

theorem udp_state_spec_faults:
  assumes "s \<noteq> []" and "hd s \<notin> {CHR ''^'', CHR '',''}"
  shows "enter_state_spec junk (''UDP:'' @ s) ip_new = None"
proof -
  obtain c cp where s: "s = c # cp" "c \<noteq> CHR ''^''" "c \<noteq> CHR '',''" using assms by (cases s) auto
  have "\<not> strcasecmp_eq ''UDP:'' ''tcp:''" by code_simp
  then show ?thesis
    using s by (simp add: enter_state_spec_def build_IPstates_new state_name_def state_tables_def udp_built_def
        proto_new_def tab_list_def Let_def eval_nat_numeral)
qed

theorem udp_state_spec_faults_witness:
  "enter_state_spec (\<lambda>_. None) ''UDP:ESTABLISHED'' ip_new = None"
  using udp_state_spec_faults [of "''ESTABLISHED''" "\<lambda>_. None"] by simp

section \<open>What a TCP state list selects\<close>

lemma find_state_index:
  assumes "distinct (map (map tolower_c) ss)" and "i < length ss" and "strcasecmp_eq ns (ss ! i)"
  shows "find_state ns (map Some ss) k = Some (Some (k + i))"
  using assms
proof (induction ss arbitrary: i k)
  case (Cons s ss)
  show ?case
  proof (cases i)
    case (Suc j)
    then have "ss ! j \<in> set ss" "strcasecmp_eq ns (ss ! j)" using Cons.prems by auto
    then have "\<not> strcasecmp_eq ns s" using Cons.prems(1) by (auto simp: strcasecmp_eq_def) (metis image_eqI)
    then show ?thesis using Cons Suc by simp
  qed (use Cons in simp)
qed simp

definition marked :: "proto_tab \<Rightarrow> nat set \<Rightarrow> nat set \<Rightarrow> bool" where
  "marked t I X \<longleftrightarrow> tab_list t = map Some tcp_names \<and> pt_n t = 12 \<and> pt_off t = 0
    \<and> (\<exists>m. pt_inc t = Some m \<and> length m = 12 \<and> (\<forall>i < 12. m ! i \<noteq> 0 \<longleftrightarrow> i \<in> I)) \<and> I \<subseteq> {..<12} \<and> pt_incn t = int (card I)
    \<and> (\<exists>m. pt_exc t = Some m \<and> length m = 12 \<and> (\<forall>i < 12. m ! i \<noteq> 0 \<longleftrightarrow> i \<in> X)) \<and> X \<subseteq> {..<12} \<and> pt_excn t = int (card X)"

lemma tab_list_marks [simp]:
  "tab_list (t\<lparr> pt_inc := a \<rparr>) = tab_list t" "tab_list (t\<lparr> pt_exc := a \<rparr>) = tab_list t"
  "tab_list (t\<lparr> pt_incn := n \<rparr>) = tab_list t" "tab_list (t\<lparr> pt_excn := n \<rparr>) = tab_list t"
  by (simp_all add: tab_list_def)

lemma mark_state_marked:
  assumes "marked t I X" and "i < 12"
  shows "fst (mark_state x i t) \<longleftrightarrow> i \<in> (if x then X else I)"
    and "marked (snd (mark_state x i t)) (if x then I else insert i I) (if x then insert i X else X)"
proof -
  have fin: "finite I" "finite X" using assms(1) by (auto simp: marked_def intro: finite_subset)
  show "fst (mark_state x i t) \<longleftrightarrow> i \<in> (if x then X else I)"
    using assms by (auto simp: marked_def mark_state_def Let_def)
  show "marked (snd (mark_state x i t)) (if x then I else insert i I) (if x then insert i X else X)"
    using assms fin by (auto simp: marked_def mark_state_def Let_def nth_list_update insert_absorb split: if_splits)
qed

lemma tcp_names_distinct: "distinct (map (map tolower_c) tcp_names)"
  by (simp add: tcp_names_def tolower_c_def isupper_c_def char_of_def)

lemma tcp_names_all:
  "list_all (\<lambda>nm. CHR '','' \<notin> set (map tolower_c nm) \<and> CHR ''^'' \<notin> set (map tolower_c nm) \<and> nm \<noteq> []) tcp_names"
  by (simp add: tcp_names_def tolower_c_def isupper_c_def char_of_def bit_0)

lemma tcp_names_chars: "nm \<in> set tcp_names \<Longrightarrow> CHR '','' \<notin> tolower_c ` set nm \<and> CHR ''^'' \<notin> tolower_c ` set nm \<and> nm \<noteq> []"
  using tcp_names_all by (auto simp: list_all_iff)

lemma tcp_name_form:
  assumes "i < 12" and "strcasecmp_eq nm (tcp_names ! i)"
  shows "CHR '','' \<notin> set nm" "nm \<noteq> []" "hd nm \<noteq> CHR ''^''"
proof -
  have "tcp_names ! i \<in> set tcp_names" using assms(1) by (intro nth_mem) (simp add: tcp_names_def)
  note c = tcp_names_chars [OF this]
  have l: "tolower_c (CHR '','') = CHR '',''" "tolower_c (CHR ''^'') = CHR ''^''"
    by (simp_all add: tolower_c_def isupper_c_def)
  show "CHR '','' \<notin> set nm" using c strcasecmp_eq_chars [OF assms(2) l(1)] by blast
  show ne: "nm \<noteq> []" using c assms(2) by (auto simp: strcasecmp_eq_def)
  have "CHR ''^'' \<notin> set nm" using c strcasecmp_eq_chars [OF assms(2) l(2)] by blast
  then show "hd nm \<noteq> CHR ''^''" using ne by (cases nm) auto
qed

lemma state_loop_item:
  assumes "CHR '','' \<notin> set nm" and "nm \<noteq> []" and "hd nm \<noteq> CHR ''^''"
  shows "state_loop (commas ((caret x @ nm) # ts)) err t =
    (case state_name nm x t of None \<Rightarrow> None | Some (d, t') \<Rightarrow> state_loop (commas ts) (err \<or> d) t')"
proof -
  let ?q = "commas (nm # ts)"
  have s: "commas ((caret x @ nm) # ts) = caret x @ ?q" by (simp add: commas_Cons)
  obtain c cp where q: "?q = c # cp" "c \<noteq> CHR ''^''" using assms(2,3) by (cases nm) (auto simp: commas_Cons)
  have tl: "tl (dropWhile (\<lambda>c. c \<noteq> CHR '','') ?q) = commas ts" using commas_split(2) [OF assms(1), of ts] by simp
  have "state_loop (caret x @ ?q) err t =
    (case state_name (takeWhile (\<lambda>c. c \<noteq> CHR '','') ?q) x t of
       None \<Rightarrow> None
     | Some (d, t') \<Rightarrow> state_loop (tl (dropWhile (\<lambda>c. c \<noteq> CHR '','') ?q)) (err \<or> d) t')"
  proof (cases x)
    case True
    then show ?thesis by (simp add: caret_def Let_def)
  next
    case False
    then show ?thesis unfolding q(1) using q(2) by (simp add: caret_def Let_def)
  qed
  then show ?thesis unfolding s tl commas_split(1) [OF assms(1)] .
qed

definition spec_ok :: "nat \<times> cstring \<times> bool \<Rightarrow> bool" where
  "spec_ok e = (case e of (i, nm, x) \<Rightarrow> i < 12 \<and> strcasecmp_eq nm (tcp_names ! i))"

definition spec_marks :: "bool \<Rightarrow> (nat \<times> cstring \<times> bool) list \<Rightarrow> nat set" where
  "spec_marks x es = {i. \<exists>nm. (i, nm, x) \<in> set es}"

lemma spec_marks_simps:
  "spec_marks y [] = {}"
  "spec_marks y ((i, nm, x) # es) = (if x = y then insert i (spec_marks y es) else spec_marks y es)"
  by (auto simp: spec_marks_def)

definition spec_fresh :: "nat set \<Rightarrow> nat set \<Rightarrow> (nat \<times> cstring \<times> bool) list \<Rightarrow> bool" where
  "spec_fresh I X es \<longleftrightarrow> distinct (map (\<lambda>(i, nm, x). (i, x)) es)
    \<and> spec_marks False es \<inter> I = {} \<and> spec_marks True es \<inter> X = {}"

lemma spec_fresh_Cons:
  "spec_fresh I X ((i, nm, x) # es) \<longleftrightarrow> i \<notin> (if x then X else I)
    \<and> spec_fresh (if x then I else insert i I) (if x then insert i X else X) es"
proof -
  have "(i, x) \<in> (\<lambda>(i, nm, x). (i, x)) ` set es \<longleftrightarrow> i \<in> spec_marks x es" by (force simp: spec_marks_def)
  then show ?thesis by (cases x) (auto simp: spec_fresh_def spec_marks_simps)
qed

lemma state_loop_specs:
  assumes "marked t I X" and "list_all spec_ok es"
  shows "\<exists>t'. state_loop (commas (map (\<lambda>(i, nm, x). caret x @ nm) es)) err t = Some (err \<or> \<not> spec_fresh I X es, t')
    \<and> marked t' (I \<union> spec_marks False es) (X \<union> spec_marks True es)"
  using assms
proof (induction es arbitrary: t I X err)
  case (Cons e es)
  obtain i nm x where e: "e = (i, nm, x)" by (cases e)
  then have i: "i < 12" "strcasecmp_eq nm (tcp_names ! i)" using Cons.prems by (auto simp: spec_ok_def)
  have "find_state nm (take (nat (pt_n t)) (tab_list t)) 0 = Some (Some i)"
    using Cons.prems(1) find_state_index [OF tcp_names_distinct _ i(2), of 0] i(1)
    by (simp add: marked_def) (simp add: tcp_names_def)
  then have "state_name nm x t = Some (mark_state x i t)" using tcp_name_form [OF i] by (simp add: state_name_def)
  moreover obtain d t1 where d: "mark_state x i t = (d, t1)" by (cases "mark_state x i t")
  ultimately have step: "state_loop (commas (map (\<lambda>(i, nm, x). caret x @ nm) (e # es))) err t
      = state_loop (commas (map (\<lambda>(i, nm, x). caret x @ nm) es)) (err \<or> d) t1"
    using state_loop_item [OF tcp_name_form [OF i], of x] e by simp
  have "marked t1 (if x then I else insert i I) (if x then insert i X else X)"
    using mark_state_marked(2) [OF Cons.prems(1) i(1), of x] d by simp
  moreover have "d \<longleftrightarrow> i \<in> (if x then X else I)" using mark_state_marked(1) [OF Cons.prems(1) i(1), of x] d by simp
  ultimately show ?case
    using Cons.IH [of t1 "if x then I else insert i I" "if x then insert i X else X" "err \<or> d"] step Cons.prems(2) e
    by (cases x) (auto simp: spec_marks_simps spec_fresh_Cons)
qed (simp add: spec_marks_simps spec_fresh_def)

lemma marked_tables: "marked (state_tables tcp_built) {} {}"
  by (simp add: marked_def state_tables_def tcp_built_def proto_new_def tab_list_def)

lemma state_filter_marked:
  assumes "marked t I X" and "0 \<le> s" and "s < 12"
  shows "fst (state_filter s t) \<longleftrightarrow> nat s \<in> X \<or> I \<noteq> {} \<and> nat s \<notin> I"
proof -
  have "finite I" "finite X" using assms(1) by (auto simp: marked_def intro: finite_subset)
  then have "pt_incn t \<noteq> 0 \<longleftrightarrow> I \<noteq> {}" "pt_excn t \<noteq> 0 \<longleftrightarrow> X \<noteq> {}" using assms(1) by (auto simp: marked_def)
  moreover obtain m m' where m: "pt_inc t = Some m" "pt_exc t = Some m'"
    "m ! nat s \<noteq> 0 \<longleftrightarrow> nat s \<in> I" "m' ! nat s \<noteq> 0 \<longleftrightarrow> nat s \<in> X"
    using assms by (auto simp: marked_def)
  ultimately show ?thesis using assms by (auto simp: state_filter_def Let_def marked_def)
qed

lemma enter_state_spec_filters:
  assumes "es \<noteq> []" and "list_all spec_ok es"
  shows "\<exists>c. enter_state_spec junk (''TCP:'' @ commas (map (\<lambda>(i, nm, x). caret x @ nm) es)) ip_new
      = Some (Done (\<not> distinct (map (\<lambda>(i, nm, x). (i, x)) es), c))
    \<and> (\<forall>s. 0 \<le> s \<and> s < 12 \<longrightarrow> (fst (state_filter s (ip_tcp c)) \<longleftrightarrow>
        nat s \<in> spec_marks True es \<or> spec_marks False es \<noteq> {} \<and> nat s \<notin> spec_marks False es))"
proof -
  let ?t = "commas (map (\<lambda>(i, nm, x). caret x @ nm) es)"
  define err where "err = (\<not> distinct (map (\<lambda>(i :: nat, nm :: cstring, x :: bool). (i, x)) es))"
  obtain t' where l: "state_loop ?t False (state_tables tcp_built) = Some (err, t')"
    and m: "marked t' (spec_marks False es) (spec_marks True es)"
    using state_loop_specs [OF marked_tables assms(2), of False] by (auto simp: spec_fresh_def err_def)
  obtain e es' where es: "es = e # es'" using assms(1) by (cases es) auto
  obtain i nm x where e: "e = (i, nm, x)" by (cases e)
  have "nm \<noteq> []" using assms(2) tcp_name_form(2) es e by (auto simp: spec_ok_def)
  then have ne: "?t \<noteq> []" using es e by (simp add: commas_Cons)
  have tcp: "strcasecmp_eq ''TCP:'' ''tcp:''" by code_simp
  have nn: "pt_st tcp_built \<noteq> None" by (simp add: tcp_built_def)
  have "enter_state_spec junk (''TCP:'' @ ?t) ip_new = Some (Done (err, \<lparr> ip_tcp = t', ip_udp = udp_built \<rparr>))"
    using ne tcp l nn by (auto simp: enter_state_spec_def build_IPstates_new Let_def)
  then show ?thesis using state_filter_marked [OF m] by (auto simp: err_def)
qed

text \<open>
  C10: the option \<open>-s TCP:states\<close> filters sockets as its list says.  After a list of state names in any
  mixture of upper and lower case, some with the exclusion mark, a socket in one of the twelve TCP
  states is dropped exactly when its state is excluded, or some state is included and its own is not.
  The option is reported as an error exactly when it names a state twice with the same sense.
\<close>

theorem tcp_state_spec_filters:
  assumes "es \<noteq> []" and "list_all spec_ok es"
  shows "\<exists>c. enter_state_spec junk (''TCP:'' @ commas (map (\<lambda>(i, nm, x). caret x @ nm) es)) ip_new
      = Some (Done (\<not> distinct (map (\<lambda>(i, nm, x). (i, x)) es), c))
    \<and> (\<forall>s. 0 \<le> s \<and> s < 12 \<longrightarrow> (fst (state_filter s (ip_tcp c)) \<longleftrightarrow>
        nat s \<in> spec_marks True es \<or> spec_marks False es \<noteq> {} \<and> nat s \<notin> spec_marks False es))"
  using assms by (rule enter_state_spec_filters)

theorem tcp_state_spec_filters_witness:
  "\<exists>c. enter_state_spec (\<lambda>_. None) ''TCP:^listen'' ip_new = Some (Done (False, c))
    \<and> fst (state_filter 10 (ip_tcp c)) \<and> \<not> fst (state_filter 1 (ip_tcp c))"
proof -
  have "strcasecmp_eq ''listen'' (tcp_names ! 10)" by code_simp
  then have ok: "list_all spec_ok [(10, ''listen'', True)]" by (simp add: spec_ok_def)
  obtain c where c: "enter_state_spec (\<lambda>_. None) ''TCP:^listen'' ip_new = Some (Done (False, c))"
    and f: "\<And>s. 0 \<le> s \<and> s < 12 \<Longrightarrow> fst (state_filter s (ip_tcp c)) \<longleftrightarrow> nat s \<in> {10}"
    using tcp_state_spec_filters [OF _ ok, of "\<lambda>_. None"] by (auto simp: spec_marks_simps caret_def)
  show ?thesis using c f [of 10] f [of 1] by auto
qed

end
