(* ===== verification/Network_Args.thy ===== *)
theory Network_Args
  imports Option_Args
begin

text \<open>
  The option \<open>-i\<close>: \<open>enter_network_address\<close>, \<open>enter_nwad\<close> and \<open>lkup_hostnm\<close> of \<open>src/src/arg.c\<close>, the
  test \<open>is_nw_addr\<close> of \<open>src/lib/misc.c\<close> and \<open>ent_inaddr\<close> of \<open>src/lib/proc.c\<close>, in the configuration with
  IPv6.  The resolver (\<open>gethostbyname2\<close>), the service database (\<open>getservbyname\<close>, ports in host order)
  and \<open>inet_pton\<close> are parameters.  The static counter of \<open>enter_nwad\<close> is passed beside the context.
\<close>

section \<open>Addresses\<close>

definition AF_INET :: int where "AF_INET = 2"
definition AF_INET6 :: int where "AF_INET6 = 10"
definition MAX_AF_ADDR :: nat where "MAX_AF_ADDR = 16"
definition MAXNWAD :: nat where "MAXNWAD = 100"

record hostent =
  he_addrtype :: int
  he_length :: nat
  he_addrs :: "8 word list list"

record nw_env =
  gethostbyname2 :: "cstring \<Rightarrow> int \<Rightarrow> hostent option"
  getservbyname :: "cstring \<Rightarrow> cstring \<Rightarrow> int option"
  inet_pton6 :: "cstring \<Rightarrow> 8 word list option"

definition zero_addr :: "8 word list" where
  "zero_addr = replicate MAX_AF_ADDR 0"

definition nwad_zero :: nwad where
  "nwad_zero = \<lparr> nw_arg = None, nw_proto = None, nw_af = 0, nw_a = zero_addr, nw_sport = 0, nw_eport = 0, nw_f = False \<rparr>"

definition lkup_hostnm :: "nw_env \<Rightarrow> cstring \<Rightarrow> nwad \<Rightarrow> hostent option \<times> nwad" where
  "lkup_hostnm env hn n =
    (case gethostbyname2 env hn (nw_af n) of
       None \<Rightarrow> (None, n)
     | Some he \<Rightarrow>
        (case he_addrs he of
           [] \<Rightarrow> (Some he, n)
         | ap # _ \<Rightarrow>
            if nw_af n \<noteq> he_addrtype he then (None, n)
            else if nw_af n = AF_INET6 then
              (if he_length he > MAX_AF_ADDR then (None, n)
               else (Some he, n\<lparr> nw_a := take (he_length he) ap @ replicate (MAX_AF_ADDR - he_length he) 0 \<rparr>))
            else if he_length he \<noteq> 4 then (None, n)
            else (Some he, n\<lparr> nw_a := take 4 ap @ replicate (MAX_AF_ADDR - 4) 0 \<rparr>)))"

section \<open>Entering addresses\<close>

type_synonym nw_state = "lsof_context \<times> nat"

definition nwad_incomplete :: "nwad \<Rightarrow> int \<Rightarrow> bool" where
  "nwad_incomplete nc sp \<longleftrightarrow> nw_proto nc = None \<and> list_all (\<lambda>b. b = 0) (take 4 (nw_a nc))
    \<and> (nw_af nc \<noteq> AF_INET6 \<or> list_all (\<lambda>b. b = 0) (drop 4 (nw_a nc))) \<and> sp = - 1"

definition copy_addr :: "nat \<Rightarrow> 8 word list \<Rightarrow> 8 word list \<Rightarrow> 8 word list" where
  "copy_addr len ap a = (let k = max 1 (min len MAX_AF_ADDR) in take k ap @ drop k a)"

fun enter_nwad_loop ::
  "nwad \<Rightarrow> int \<Rightarrow> int \<Rightarrow> nat \<Rightarrow> 8 word list list \<Rightarrow> nw_state \<Rightarrow> bool \<times> nw_state" where
  "enter_nwad_loop nc sp ep len aps (ctx, na) =
    (if nwad_incomplete nc sp then (True, (ctx, na))
     else if na \<ge> MAXNWAD then (True, (ctx, na))
     else
       (let st = (ctx\<lparr> nwads := nc\<lparr> nw_sport := sp, nw_eport := ep, nw_f := False \<rparr> # nwads ctx \<rparr>, na + 1) in
        case aps of
          [] \<Rightarrow> (False, st)
        | ap # aps' \<Rightarrow> enter_nwad_loop (nc\<lparr> nw_a := copy_addr len ap (nw_a nc) \<rparr>) sp ep len aps' st))"

definition enter_nwad ::
  "nwad \<Rightarrow> int \<Rightarrow> int \<Rightarrow> cstring \<Rightarrow> hostent option \<Rightarrow> nw_state \<Rightarrow> bool \<times> nw_state" where
  "enter_nwad n sp ep s he st =
    (let n1 = n\<lparr> nw_arg := (if s = [] then None else Some s) \<rparr> in
     case he of
       None \<Rightarrow> enter_nwad_loop n1 sp ep 0 [] st
     | Some h \<Rightarrow> enter_nwad_loop n1 sp ep (he_length h) (tl (he_addrs h)) st)"

text \<open>
  The loop at the label \<open>nwad_enter\<close>: a host name whose IPv6 address was entered is looked up for
  IPv4 as well.  Its second round has the IPv4 family, so there is no third.  The structure \<open>n\<close> and
  the host entry it leaves behind are those the next port starts with.
\<close>

definition nwad_enter ::
  "nw_env \<Rightarrow> cstring option \<Rightarrow> int \<Rightarrow> cstring \<Rightarrow> int \<Rightarrow> int \<Rightarrow> nwad \<Rightarrow> hostent option \<Rightarrow> nw_state
    \<Rightarrow> bool \<times> nwad \<times> hostent option \<times> nw_state" where
  "nwad_enter env hn ft na sp ep n he st =
    (case enter_nwad n sp ep na he st of
       (True, st1) \<Rightarrow> (True, n, he, st1)
     | (False, st1) \<Rightarrow>
        (case hn of
           None \<Rightarrow> (False, n, he, st1)
         | Some h \<Rightarrow>
            if nw_af n = AF_INET6 \<and> ft \<noteq> 6 then
              (case lkup_hostnm env h (n\<lparr> nw_af := AF_INET \<rparr>) of
                 (None, n2) \<Rightarrow> (False, n2, None, st1)
               | (Some he2, n2) \<Rightarrow>
                  (case enter_nwad n2 sp ep na (Some he2) st1 of (e, st2) \<Rightarrow> (e, n2, Some he2, st2)))
            else (False, n, he, st1)))"

section \<open>Ports\<close>

text \<open>
  Service names: \<open>pt\<close> and \<open>pu\<close> keep their values from one name to the next, as the variables of the
  source do.
\<close>

definition service_port :: "nw_env \<Rightarrow> cstring option \<Rightarrow> cstring \<Rightarrow> int \<Rightarrow> int \<Rightarrow> (int \<times> int) option" where
  "service_port env proto sn pt pu =
    (case proto of
       Some pr \<Rightarrow> map_option (\<lambda>p. (p, pu)) (getservbyname env sn pr)
     | None \<Rightarrow>
        (let se = getservbyname env sn ''tcp''; se1 = getservbyname env sn ''udp'';
             pt1 = (case se of None \<Rightarrow> pt | Some p \<Rightarrow> p); pu1 = (case se1 of None \<Rightarrow> pu | Some p \<Rightarrow> p) in
         if se = None \<and> se1 = None then None
         else if se \<noteq> None \<and> se1 \<noteq> None \<and> pt1 \<noteq> pu1 then None
         else if se = None then Some (pu1, pu1) else Some (pt1, pu1)))"

text \<open>
  The digits of a port: \<open>None\<close> is the unacceptable specification, a result the counters \<open>pr\<close>, \<open>sp\<close>,
  \<open>ep\<close> and the rest, which starts at the comma, the dash of a range or the end.
\<close>

fun port_digits :: "bool \<Rightarrow> int \<Rightarrow> int \<Rightarrow> cstring \<Rightarrow> (bool \<times> int \<times> int \<times> cstring) option" where
  "port_digits pr sp ep [] = Some (pr, sp, ep, [])"
| "port_digits pr sp ep (c # wa) =
    (if c = CHR '','' then Some (pr, sp, ep, c # wa)
     else if c = CHR ''-'' then (if pr then None else Some (True, sp, ep, c # wa))
     else if \<not> isdigit_c c then None
     else if pr then port_digits pr sp (acc_digit ep c) wa
     else port_digits pr (acc_digit sp c) ep wa)"

lemma port_digits_rest: "port_digits pr sp ep wa = Some (pr', sp', ep', rest) \<Longrightarrow> length rest \<le> length wa"
  by (induction pr sp ep wa rule: port_digits.induct) (auto split: if_splits)

record port_st =
  po_pr :: bool
  po_sp :: int
  po_ep :: int
  po_pt :: int
  po_pu :: int

function (sequential) port_elem :: "nw_env \<Rightarrow> cstring option \<Rightarrow> port_st \<Rightarrow> cstring \<Rightarrow> (port_st \<times> cstring) option" where
  "port_elem env proto p [] = Some (p, [])"
| "port_elem env proto p (c # wa) =
    (if \<not> isdigit_c c then
       (let sn = takeWhile (\<lambda>c. c \<noteq> CHR '','') (c # wa); rest = dropWhile (\<lambda>c. c \<noteq> CHR '','') (c # wa) in
        if sn = [] then None
        else case service_port env proto sn (po_pt p) (po_pu p) of
          None \<Rightarrow> None
        | Some (pt, pu) \<Rightarrow>
            Some (if po_pr p then p\<lparr> po_pt := pt, po_pu := pu, po_ep := pt \<rparr>
                  else p\<lparr> po_pt := pt, po_pu := pu, po_sp := pt \<rparr>, rest))
     else
       (case port_digits (po_pr p) (po_sp p) (po_ep p) (c # wa) of
          None \<Rightarrow> None
        | Some (pr, sp, ep, rest) \<Rightarrow>
            (let p1 = p\<lparr> po_pr := pr, po_sp := sp, po_ep := ep \<rparr> in
             if rest = [] \<or> hd rest = CHR '','' then Some (p1, rest)
             else port_elem env proto p1 (tl rest))))"
  by pat_completeness auto

termination
  by (relation "measure (\<lambda>(_, _, _, s). length s)") (auto dest!: port_digits_rest simp del: port_digits.simps)

lemma port_elem_rest: "port_elem env proto p wa = Some (p', rest) \<Longrightarrow> length rest \<le> length wa"
proof (induction env proto p wa rule: port_elem.induct)
  case (2 env proto p c wa)
  have "length (dropWhile (\<lambda>c. c \<noteq> CHR '','') wa) \<le> length wa" by (rule length_dropWhile_le)
  then show ?case using 2
    by (fastforce dest!: port_digits_rest simp del: port_digits.simps simp: Let_def split: if_splits option.splits prod.splits)
qed simp

function (sequential) port_list ::
  "nw_env \<Rightarrow> cstring option \<Rightarrow> int \<Rightarrow> cstring \<Rightarrow> int \<Rightarrow> int \<Rightarrow> cstring \<Rightarrow> nwad \<Rightarrow> hostent option \<Rightarrow> nw_state
    \<Rightarrow> bool \<times> nw_state" where
  "port_list env hn ft na pt pu [] n he st = (False, st)"
| "port_list env hn ft na pt pu (c # wa) n he st =
    (case port_elem env (nw_proto n) \<lparr> po_pr = False, po_sp = 0, po_ep = 0, po_pt = pt, po_pu = pu \<rparr> (c # wa) of
       None \<Rightarrow> (True, st)
     | Some (p, rest) \<Rightarrow>
        (let sp = po_sp p; ep = (if po_pr p then po_ep p else po_sp p) in
         if ep < sp then (True, st)
         else case nwad_enter env hn ft na sp ep n he st of
           (True, _, _, st1) \<Rightarrow> (True, st1)
         | (False, n1, he1, st1) \<Rightarrow>
            (case rest of
               [] \<Rightarrow> (False, st1)
             | _ # wa' \<Rightarrow> port_list env hn ft na (po_pt p) (po_pu p) wa' n1 he1 st1)))"
  by pat_completeness auto

termination
  by (relation "measure (\<lambda>(_, _, _, _, _, _, s, _, _, _). length s)") (auto dest!: port_elem_rest simp del: port_elem.simps)

section \<open>The address argument\<close>

definition v4mapped :: "8 word list \<Rightarrow> bool" where
  "v4mapped a \<longleftrightarrow> list_all (\<lambda>b. b = 0) (take 10 a) \<and> take 2 (drop 10 a) = [255, 255]"

text \<open>
  The part after the \<open>@\<close> sign: \<open>None\<close> is an unacceptable address, a result the completed structure,
  the host name and host entry, and what follows the address.
\<close>

definition nw_host ::
  "nw_env \<Rightarrow> int \<Rightarrow> cstring \<Rightarrow> nwad \<Rightarrow> (nwad \<times> cstring option \<times> hostent option \<times> cstring) option" where
  "nw_host env ft wa n =
    (if wa = [] \<or> hd wa = CHR '':'' then None
     else case isIPv4addr wa MAX_AF_ADDR of
       Some (a, rest) \<Rightarrow>
         if ft = 6 then None
         else Some (n\<lparr> nw_a := a @ drop 4 (nw_a n), nw_af := AF_INET \<rparr>, None, None, rest)
     | None \<Rightarrow>
        if hd wa = CHR ''['' then
          (if ft = 4 then None
           else if CHR '']'' \<notin> set (tl wa) then None
           else
             (let txt = rev (tl (dropWhile (\<lambda>c. c \<noteq> CHR '']'') (rev (tl wa))));
                  rest = rev (takeWhile (\<lambda>c. c \<noteq> CHR '']'') (rev (tl wa))) in
              case inet_pton6 env txt of
                None \<Rightarrow> None
              | Some a \<Rightarrow>
                  if list_all (\<lambda>b. b = 0) a then None
                  else if v4mapped a then
                    (if ft = 6 then None
                     else Some (n\<lparr> nw_a := take 4 (drop 12 a) @ drop 4 a, nw_af := AF_INET \<rparr>, None, None, rest))
                  else Some (n\<lparr> nw_a := a, nw_af := AF_INET6 \<rparr>, None, None, rest)))
        else
          (let hn = takeWhile (\<lambda>c. c \<noteq> CHR '':'') wa; rest = dropWhile (\<lambda>c. c \<noteq> CHR '':'') wa;
               n0 = (if ft = 0 then n\<lparr> nw_af := AF_INET6 \<rparr> else n) in
           case lkup_hostnm env hn n0 of
             (Some he, n1) \<Rightarrow> Some (n1, Some hn, Some he, rest)
           | (None, n1) \<Rightarrow>
               if ft = 0 then
                 (case lkup_hostnm env hn (n1\<lparr> nw_af := AF_INET \<rparr>) of
                    (Some he, n2) \<Rightarrow> Some (n2, Some hn, Some he, rest)
                  | (None, n2) \<Rightarrow> None)
               else None))"

definition nw_proto_ok :: "cstring \<Rightarrow> bool" where
  "nw_proto_ok pr \<longleftrightarrow> strcasecmp_eq pr ''tcp'' \<or> strcasecmp_eq pr ''udp'' \<or> strcasecmp_eq pr ''udplite''"

text \<open>A lone 4 or 6 selects all network files of that IP version.\<close>

definition nw_version :: "int \<Rightarrow> lsof_context \<Rightarrow> lsof_context" where
  "nw_version ft ctx =
    (if fnet ctx = 0 then ctx\<lparr> fnet := 1, fnettype := ft \<rparr>
     else if fnettype ctx \<noteq> 0 then (if fnettype ctx \<noteq> ft then ctx\<lparr> fnettype := 0 \<rparr> else ctx)
     else ctx\<lparr> fnettype := ft \<rparr>)"

definition nw_ports ::
  "nw_env \<Rightarrow> int \<Rightarrow> cstring \<Rightarrow> (nwad \<times> cstring option \<times> hostent option \<times> cstring) \<Rightarrow> nw_state \<Rightarrow> bool \<times> nw_state" where
  "nw_ports env ft na r st =
    (case r of (n, hn, he, wa) \<Rightarrow>
      if wa = [] then (case nwad_enter env hn ft na (- 1) (- 1) n he st of (e, _, _, st1) \<Rightarrow> (e, st1))
      else if hd wa \<noteq> CHR '':'' \<or> tl wa = [] then (True, st)
      else port_list env hn ft na 0 0 (tl wa) n he st)"

definition enter_network_address :: "nw_env \<Rightarrow> cstring option \<Rightarrow> nw_state \<Rightarrow> bool \<times> nw_state" where
  "enter_network_address env arg st =
    (case arg of
       None \<Rightarrow> (True, st)
     | Some na \<Rightarrow>
        (let ctx = fst st;
             ver = (na \<noteq> [] \<and> (hd na = CHR ''4'' \<or> hd na = CHR ''6''));
             ft = (if ver then (if hd na = CHR ''4'' then 4 else 6) else if fnet ctx \<noteq> 0 then fnettype ctx else 0);
             wa = (if ver then tl na else na) in
         if ver \<and> wa = [] then (False, (nw_version ft ctx, snd st))
         else
           (let n = nwad_zero\<lparr> nw_af := (if ft = 4 then AF_INET else if ft = 6 then AF_INET6 else 0) \<rparr>;
                pr = takeWhile (\<lambda>c. c \<noteq> CHR ''@'' \<and> c \<noteq> CHR '':'') wa;
                wa1 = dropWhile (\<lambda>c. c \<noteq> CHR ''@'' \<and> c \<noteq> CHR '':'') wa in
            if pr \<noteq> [] \<and> \<not> nw_proto_ok pr then (True, st)
            else
              (let n1 = (if pr = [] then n else n\<lparr> nw_proto := Some (map tolower_c pr) \<rparr>) in
               if wa1 \<noteq> [] \<and> hd wa1 = CHR ''@'' then
                 (case nw_host env ft (tl wa1) n1 of
                    None \<Rightarrow> (True, st)
                  | Some r \<Rightarrow> nw_ports env ft na r st)
               else nw_ports env ft na (n1, None, None, wa1) st))))"

section \<open>Selecting by address\<close>

definition addr_matches :: "8 word list \<Rightarrow> 8 word list \<Rightarrow> nat \<Rightarrow> bool" where
  "addr_matches na ia k \<longleftrightarrow> list_all (\<lambda>b. b = 0) (take k na) \<or> take k ia = take k na"

definition nwad_matches :: "cstring \<Rightarrow> 8 word list \<Rightarrow> int \<Rightarrow> int \<Rightarrow> nwad \<Rightarrow> bool" where
  "nwad_matches iproto ia p af n \<longleftrightarrow>
    (case nw_proto n of None \<Rightarrow> True | Some pr \<Rightarrow> strcasecmp_eq pr iproto)
    \<and> \<not> (af \<noteq> 0 \<and> nw_af n \<noteq> 0 \<and> af \<noteq> nw_af n)
    \<and> (if af = AF_INET6 then addr_matches (nw_a n) ia 16 else if af = AF_INET then addr_matches (nw_a n) ia 4 else False)
    \<and> (nw_sport n = - 1 \<or> nw_sport n \<le> p \<and> p \<le> nw_eport n)"

fun nwad_mark :: "cstring \<Rightarrow> 8 word list \<Rightarrow> int \<Rightarrow> int \<Rightarrow> nwad list \<Rightarrow> bool \<times> nwad list" where
  "nwad_mark iproto ia p af [] = (False, [])"
| "nwad_mark iproto ia p af (n # ns) =
    (if nwad_matches iproto ia p af n then (True, n\<lparr> nw_f := True \<rparr> # ns)
     else (case nwad_mark iproto ia p af ns of (b, ns') \<Rightarrow> (b, n # ns')))"

definition is_nw_addr :: "cstring \<Rightarrow> 8 word list \<Rightarrow> int \<Rightarrow> int \<Rightarrow> lsof_context \<Rightarrow> bool \<times> lsof_context" where
  "is_nw_addr iproto ia p af ctx =
    (case nwad_mark iproto ia p af (nwads ctx) of (b, ns) \<Rightarrow> (b, ctx\<lparr> nwads := ns \<rparr>))"

definition set_linaddr :: "8 word list option \<Rightarrow> int \<Rightarrow> int \<Rightarrow> linaddr \<Rightarrow> linaddr" where
  "set_linaddr a p af li =
    (case a of
       None \<Rightarrow> li\<lparr> li_af := 0 \<rparr>
     | Some ia \<Rightarrow>
         li\<lparr> li_af := af, li_p := p,
            li_ia := (if af = AF_INET6 then take 16 ia else take 4 ia @ drop 4 (li_ia li)) \<rparr>)"

definition ent_inaddr ::
  "8 word list option \<Rightarrow> int \<Rightarrow> 8 word list option \<Rightarrow> int \<Rightarrow> int \<Rightarrow> lfile \<Rightarrow> lsof_context \<Rightarrow> lfile \<times> lsof_context" where
  "ent_inaddr la lp fa fp af l ctx =
    (let l1 = l\<lparr> lf_li0 := set_linaddr la lp af (lf_li0 l), lf_li1 := set_linaddr fa fp af (lf_li1 l) \<rparr> in
     if has_flag (selflags ctx) SELNA \<and> nwads ctx \<noteq> [] then
       (let (m1, c1) = (case fa of None \<Rightarrow> (False, ctx) | Some a \<Rightarrow> is_nw_addr (lf_iproto l) a fp af ctx);
            (m2, c2) = (case la of None \<Rightarrow> (False, c1) | Some a \<Rightarrow> is_nw_addr (lf_iproto l) a lp af c1) in
        (if m1 \<or> m2 then l1\<lparr> lf_sf := lf_sf l1 OR SELNA \<rparr> else l1, c2))
     else (l1, ctx))"

section \<open>Reading port lists\<close>

datatype port_spec = Port nat | Ports nat nat

fun port_text :: "port_spec \<Rightarrow> cstring" where
  "port_text (Port p) = dec_str p"
| "port_text (Ports a b) = dec_str a @ CHR ''-'' # dec_str b"

fun port_lo :: "port_spec \<Rightarrow> int" where
  "port_lo (Port p) = int p"
| "port_lo (Ports a b) = int a"

fun port_hi :: "port_spec \<Rightarrow> int" where
  "port_hi (Port p) = int p"
| "port_hi (Ports a b) = int b"

definition port_ok :: "port_spec \<Rightarrow> bool" where
  "port_ok q \<longleftrightarrow> port_lo q \<le> port_hi q \<and> port_hi q \<le> INT_MAX"

lemma port_digits_run:
  assumes "list_all isdigit_c ds"
  shows "port_digits pr sp ep (ds @ rest) =
    (if pr then port_digits pr sp (foldl acc_digit ep ds) rest else port_digits pr (foldl acc_digit sp ds) ep rest)"
  using assms
proof (induction ds arbitrary: sp ep)
  case (Cons c ds)
  then have "c \<noteq> CHR '',''" "c \<noteq> CHR ''-''" by (auto simp: isdigit_c_def)
  then show ?case using Cons by (cases pr) simp_all
qed simp

lemma port_digits_end: "rest = [] \<or> hd rest = CHR '','' \<Longrightarrow> port_digits pr sp ep rest = Some (pr, sp, ep, rest)"
  by (cases rest) auto

lemma port_elem_digits:
  assumes "rest = [] \<or> hd rest = CHR '','' \<or> hd rest = CHR ''-'' \<and> \<not> po_pr p"
  shows "port_elem env proto p (dec_str n @ rest) =
    (let v = foldl acc_digit (if po_pr p then po_ep p else po_sp p) (dec_str n);
         p1 = (if po_pr p then p\<lparr> po_ep := v \<rparr> else p\<lparr> po_sp := v \<rparr>) in
     if rest = [] \<or> hd rest = CHR '','' then Some (p1, rest) else port_elem env proto (p\<lparr> po_pr := True, po_sp := v \<rparr>) (tl rest))"
proof -
  obtain c wa where d: "dec_str n @ rest = c # wa" "isdigit_c c"
    using dec_str_hd [of n] by (cases "dec_str n") auto
  have "port_digits (po_pr p) (po_sp p) (po_ep p) (dec_str n @ rest) =
    (let v = foldl acc_digit (if po_pr p then po_ep p else po_sp p) (dec_str n) in
     Some (po_pr p \<or> rest \<noteq> [] \<and> hd rest = CHR ''-'', if po_pr p then po_sp p else v, if po_pr p then v else po_ep p, rest))"
    unfolding port_digits_run [OF dec_str_digits] using assms by (cases rest) (auto simp: Let_def)
  then show ?thesis
    unfolding d(1) port_elem.simps(2) using d(2) assms by (cases "po_pr p") (auto simp: Let_def simp del: port_digits.simps)
qed

lemma port_elem_text:
  assumes "port_ok q" and "rest = [] \<or> hd rest = CHR '',''"
  shows "\<exists>p. port_elem env proto \<lparr> po_pr = False, po_sp = 0, po_ep = 0, po_pt = pt, po_pu = pu \<rparr> (port_text q @ rest) = Some (p, rest)
    \<and> po_sp p = port_lo q \<and> (if po_pr p then po_ep p else port_lo q) = port_hi q \<and> po_pt p = pt \<and> po_pu p = pu"
proof -
  let ?p0 = "\<lparr> po_pr = False, po_sp = 0, po_ep = 0, po_pt = pt, po_pu = pu \<rparr>"
  have s: "s32 (int n) = int n" if "int n \<le> INT_MAX" for n using that by (simp add: INT_MAX_def in_s32_def)
  show ?thesis
  proof (cases q)
    case (Port n)
    then show ?thesis
      using assms s [of n] port_elem_digits [of rest ?p0 env proto n] by (auto simp: port_ok_def Let_def)
  next
    case (Ports a b)
    then have "s32 (int a) = int a" "s32 (int b) = int b" using assms(1) s by (auto simp: port_ok_def)
    then show ?thesis
      using assms Ports port_elem_digits [of "CHR ''-'' # dec_str b @ rest" ?p0 env proto a]
        port_elem_digits [of rest "?p0\<lparr> po_pr := True, po_sp := int a \<rparr>" env proto b]
      by (auto simp: Let_def)
  qed
qed

section \<open>Numeric address arguments\<close>

definition nw_entry :: "nwad \<Rightarrow> cstring \<Rightarrow> int \<Rightarrow> int \<Rightarrow> nwad" where
  "nw_entry n na lo hi =
    n\<lparr> nw_arg := (if na = [] then None else Some na), nw_sport := lo, nw_eport := hi, nw_f := False \<rparr>"

lemma nwad_enter_numeric:
  assumes "\<not> nwad_incomplete n lo" and "k < MAXNWAD"
  shows "nwad_enter env None ft na lo hi n None (ctx, k) =
    (False, n, None, (ctx\<lparr> nwads := nw_entry n na lo hi # nwads ctx \<rparr>, k + 1))"
  using assms by (simp add: nwad_enter_def enter_nwad_def nwad_incomplete_def nw_entry_def Let_def)

lemma port_list_numeric:
  assumes "list_all port_ok qs" and "k + length qs \<le> MAXNWAD" and "list_all (\<lambda>q. \<not> nwad_incomplete n (port_lo q)) qs"
  shows "port_list env None ft na pt pu (commas (map port_text qs)) n None (ctx, k) =
    (False, (ctx\<lparr> nwads := rev (map (\<lambda>q. nw_entry n na (port_lo q) (port_hi q)) qs) @ nwads ctx \<rparr>, k + length qs))"
  using assms
proof (induction qs arbitrary: ctx k)
  case (Cons q qs)
  let ?rest = "if map port_text qs = [] then [] else CHR '','' # commas (map port_text qs)"
  have r: "?rest = [] \<or> hd ?rest = CHR '',''" by simp
  have "port_text q \<noteq> []" by (cases q) auto
  then obtain c wa where t: "port_text q @ ?rest = c # wa" by (cases "port_text q") auto
  obtain p where p: "port_elem env (nw_proto n) \<lparr> po_pr = False, po_sp = 0, po_ep = 0, po_pt = pt, po_pu = pu \<rparr> (c # wa)
      = Some (p, ?rest)" and po: "po_sp p = port_lo q" "(if po_pr p then po_ep p else port_lo q) = port_hi q"
      "po_pt p = pt" "po_pu p = pu"
    using port_elem_text [OF _ r, of q env "nw_proto n" pt pu] Cons.prems(1) unfolding t by auto
  have le: "\<not> port_hi q < port_lo q" using Cons.prems(1) by (simp add: port_ok_def)
  have step: "port_list env None ft na pt pu (commas (map port_text (q # qs))) n None (ctx, k) =
    (case ?rest of [] \<Rightarrow> (False, (ctx\<lparr> nwads := nw_entry n na (port_lo q) (port_hi q) # nwads ctx \<rparr>, k + 1))
     | _ # wa' \<Rightarrow> port_list env None ft na pt pu wa' n None
         (ctx\<lparr> nwads := nw_entry n na (port_lo q) (port_hi q) # nwads ctx \<rparr>, k + 1))"
    unfolding list.map commas_Cons t port_list.simps(2) p option.case prod.case Let_def po
    using le nwad_enter_numeric [of n "port_lo q" k] Cons.prems by simp
  show ?case unfolding step using Cons by (cases "qs = []") auto
qed simp

lemma isIPv4addr_dec:
  assumes "a < 256" "b < 256" "c < 256" "d < 256" and "host_end rest" and "4 \<le> al"
  shows "isIPv4addr (dotted (map dec_str [a, b, c, d]) @ rest) al = Some (map of_nat [a, b, c, d], rest)"
proof -
  have "octet (dec_str n) = int n" if "n < 256" for n
    using that by (subst octet_value) (auto simp: dec_str_digits)
  then show ?thesis unfolding isIPv4addr_spec using assms
    by (intro conjI exI [of _ "dec_str a"] exI [of _ "dec_str b"] exI [of _ "dec_str c"] exI [of _ "dec_str d"])
       (auto simp: dec_str_digits is_octet_def)
qed

record net_spec =
  ns_proto :: "cstring option"
  ns_addr :: "(nat \<times> nat \<times> nat \<times> nat) option"
  ns_ports :: "port_spec list"

definition ns_bytes :: "nat \<times> nat \<times> nat \<times> nat \<Rightarrow> 8 word list" where
  "ns_bytes q = (case q of (a, b, c, d) \<Rightarrow> map of_nat [a, b, c, d])"

definition net_text :: "net_spec \<Rightarrow> cstring" where
  "net_text s =
    (case ns_proto s of None \<Rightarrow> [] | Some pr \<Rightarrow> pr)
    @ (case ns_addr s of None \<Rightarrow> [] | Some (a, b, c, d) \<Rightarrow> CHR ''@'' # dotted (map dec_str [a, b, c, d]))
    @ (if ns_ports s = [] then [] else CHR '':'' # commas (map port_text (ns_ports s)))"

definition net_ok :: "net_spec \<Rightarrow> bool" where
  "net_ok s \<longleftrightarrow>
    (case ns_proto s of None \<Rightarrow> True | Some pr \<Rightarrow> nw_proto_ok pr)
    \<and> (case ns_addr s of None \<Rightarrow> True | Some (a, b, c, d) \<Rightarrow>
        a < 256 \<and> b < 256 \<and> c < 256 \<and> d < 256 \<and> (a, b, c, d) \<noteq> (0, 0, 0, 0))
    \<and> list_all port_ok (ns_ports s)
    \<and> \<not> (ns_proto s = None \<and> ns_addr s = None \<and> ns_ports s = [])"

text \<open>What the specification selects of IPv4 sockets.\<close>

definition net_selects :: "net_spec \<Rightarrow> cstring \<Rightarrow> 8 word list \<Rightarrow> int \<Rightarrow> bool" where
  "net_selects s iproto ia p \<longleftrightarrow>
    (case ns_proto s of None \<Rightarrow> True | Some pr \<Rightarrow> strcasecmp_eq pr iproto)
    \<and> (case ns_addr s of None \<Rightarrow> True | Some q \<Rightarrow> ia = ns_bytes q)
    \<and> (ns_ports s = [] \<or> (\<exists>q \<in> set (ns_ports s). port_lo q \<le> p \<and> p \<le> port_hi q))"

definition net_nwad :: "net_spec \<Rightarrow> nwad" where
  "net_nwad s = nwad_zero\<lparr> nw_proto := map_option (map tolower_c) (ns_proto s),
    nw_af := (if ns_addr s = None then 0 else AF_INET),
    nw_a := (case ns_addr s of None \<Rightarrow> zero_addr | Some q \<Rightarrow> ns_bytes q @ replicate 12 0) \<rparr>"

lemma nw_proto_chars:
  assumes "nw_proto_ok pr"
  shows "pr \<noteq> []" "list_all (\<lambda>c. c \<noteq> CHR ''@'' \<and> c \<noteq> CHR '':'') pr" "hd pr \<noteq> CHR ''4''" "hd pr \<noteq> CHR ''6''"
proof -
  obtain nm where nm: "strcasecmp_eq pr nm" "nm \<in> {''tcp'', ''udp'', ''udplite''}" using assms by (auto simp: nw_proto_ok_def)
  have no: "c \<notin> set pr" if "c \<in> {CHR ''@'', CHR '':'', CHR ''4'', CHR ''6''}" for c
  proof -
    have "tolower_c c = c" using that by (auto simp: tolower_c_def isupper_c_def)
    moreover have "c \<notin> tolower_c ` set nm" using nm(2) that by (auto simp: tolower_c_def isupper_c_def)
    ultimately show ?thesis using strcasecmp_eq_chars [OF nm(1)] by blast
  qed
  show ne: "pr \<noteq> []" using nm by (auto simp: strcasecmp_eq_def)
  show "list_all (\<lambda>c. c \<noteq> CHR ''@'' \<and> c \<noteq> CHR '':'') pr" using no by (auto simp: list_all_iff)
  have "hd pr \<in> set pr" using ne by simp
  then show "hd pr \<noteq> CHR ''4''" "hd pr \<noteq> CHR ''6''" using no by auto
qed

definition port_part :: "net_spec \<Rightarrow> cstring" where
  "port_part s = (if ns_ports s = [] then [] else CHR '':'' # commas (map port_text (ns_ports s)))"

lemma host_end_port_part: "host_end (port_part s)"
  by (simp add: host_end_def port_part_def)

lemma of_nat_byte_zero: "n < 256 \<Longrightarrow> (of_nat n :: 8 word) = 0 \<longleftrightarrow> n = 0"
  by (simp add: word_of_nat_eq_0_iff dvd_eq_mod_eq_0)

lemma nw_host_numeric:
  assumes "a < 256" "b < 256" "c < 256" "d < 256" and "length (nw_a n) = 16" and "host_end rest"
  shows "nw_host env 0 (dotted (map dec_str [a, b, c, d]) @ rest) n =
    Some (n\<lparr> nw_a := ns_bytes (a, b, c, d) @ drop 4 (nw_a n), nw_af := AF_INET \<rparr>, None, None, rest)"
proof -
  have "isIPv4addr (dotted (map dec_str [a, b, c, d]) @ rest) MAX_AF_ADDR = Some (map of_nat [a, b, c, d], rest)"
    using assms by (intro isIPv4addr_dec) (auto simp: MAX_AF_ADDR_def)
  moreover have "hd (dec_str a) \<noteq> CHR '':''" using dec_str_hd [of a] by (auto simp: isdigit_c_def)
  ultimately show ?thesis by (auto simp: nw_host_def ns_bytes_def)
qed

lemma enter_network_address_split:
  assumes "na \<noteq> [] \<and> (hd na = CHR ''4'' \<or> hd na = CHR ''6'') \<longleftrightarrow> False"
    and "takeWhile (\<lambda>c. c \<noteq> CHR ''@'' \<and> c \<noteq> CHR '':'') na = pr"
    and "dropWhile (\<lambda>c. c \<noteq> CHR ''@'' \<and> c \<noteq> CHR '':'') na = T"
    and "pr \<noteq> [] \<longrightarrow> nw_proto_ok pr" and "fnet ctx = 0"
    and "n1 = (if pr = [] then nwad_zero else nwad_zero\<lparr> nw_proto := Some (map tolower_c pr) \<rparr>)"
  shows "enter_network_address env (Some na) (ctx, k) =
    (if T \<noteq> [] \<and> hd T = CHR ''@'' then
       (case nw_host env 0 (tl T) n1 of None \<Rightarrow> (True, (ctx, k)) | Some r \<Rightarrow> nw_ports env 0 na r (ctx, k))
     else nw_ports env 0 na (n1, None, None, T) (ctx, k))"
proof -
  have z: "nwad_zero\<lparr> nw_af := 0 \<rparr> = nwad_zero" by (simp add: nwad_zero_def)
  have p: "(pr \<noteq> [] \<and> \<not> nw_proto_ok pr) = False" using assms(4) by blast
  show ?thesis
    unfolding enter_network_address_def Let_def option.case fst_conv assms(1,2,3,5) p if_False simp_thms
    by (simp add: z assms(6))
qed

lemma enter_network_address_numeric:
  assumes "net_ok s" and "fnet ctx = 0"
  shows "enter_network_address env (Some (net_text s)) (ctx, k) =
    nw_ports env 0 (net_text s) (net_nwad s, None, None, port_part s) (ctx, k)"
proof -
  define pr where "pr = (case ns_proto s of None \<Rightarrow> [] | Some pr \<Rightarrow> pr)"
  define T where "T = (case ns_addr s of None \<Rightarrow> [] | Some (a, b, c, d) \<Rightarrow> CHR ''@'' # dotted (map dec_str [a, b, c, d])) @ port_part s"
  have whole: "net_text s = pr @ T" by (simp add: net_text_def pr_def T_def port_part_def)
  have T: "T \<noteq> [] \<Longrightarrow> hd T = CHR ''@'' \<or> hd T = CHR '':''"
    by (auto simp: T_def port_part_def split: option.splits prod.splits)
  have prok: "pr \<noteq> [] \<Longrightarrow> nw_proto_ok pr" using assms(1) by (auto simp: pr_def net_ok_def split: option.splits)
  have sep: "list_all (\<lambda>c. c \<noteq> CHR ''@'' \<and> c \<noteq> CHR '':'') pr" using prok nw_proto_chars(2) by (cases "pr = []") auto
  have split: "takeWhile (\<lambda>c. c \<noteq> CHR ''@'' \<and> c \<noteq> CHR '':'') (pr @ T) = pr"
    "dropWhile (\<lambda>c. c \<noteq> CHR ''@'' \<and> c \<noteq> CHR '':'') (pr @ T) = T"
    using T by (auto intro!: takeWhile_sep [OF sep] dropWhile_sep [OF sep])
  have ver: "\<not> (pr @ T \<noteq> [] \<and> (hd (pr @ T) = CHR ''4'' \<or> hd (pr @ T) = CHR ''6''))"
    using nw_proto_chars(3,4) prok T by (cases "pr = []") auto
  define n1 where "n1 = (if pr = [] then nwad_zero else nwad_zero\<lparr> nw_proto := Some (map tolower_c pr) \<rparr>)"
  have e: "enter_network_address env (Some (net_text s)) (ctx, k) =
    (if T \<noteq> [] \<and> hd T = CHR ''@'' then
       (case nw_host env 0 (tl T) n1 of None \<Rightarrow> (True, (ctx, k)) | Some r \<Rightarrow> nw_ports env 0 (net_text s) r (ctx, k))
     else nw_ports env 0 (net_text s) (n1, None, None, T) (ctx, k))"
    unfolding whole using ver prok assms(2)
    by (intro enter_network_address_split [where pr = pr]) (use split n1_def in blast)+
  have proto: "ns_proto s = (if pr = [] then None else Some pr)"
    using assms(1) nw_proto_chars(1) by (auto simp: pr_def net_ok_def split: option.splits)
  show ?thesis
  proof (cases "ns_addr s")
    case None
    then have "T = port_part s" "n1 = net_nwad s" using proto by (auto simp: T_def n1_def net_nwad_def nwad_zero_def)
    then show ?thesis using e by (auto simp: port_part_def)
  next
    case (Some q)
    obtain a b c d where q: "q = (a, b, c, d)" by (cases q)
    have lt: "a < 256" "b < 256" "c < 256" "d < 256" using assms(1) Some q by (auto simp: net_ok_def)
    have tT: "T = CHR ''@'' # dotted (map dec_str [a, b, c, d]) @ port_part s" using Some q by (simp add: T_def)
    have "length (nw_a n1) = 16" by (simp add: n1_def nwad_zero_def zero_addr_def MAX_AF_ADDR_def)
    from nw_host_numeric [OF lt this host_end_port_part, of env s]
    have "nw_host env 0 (tl T) n1 = Some (net_nwad s, None, None, port_part s)"
      unfolding tT list.sel using Some q proto
      by (auto simp: net_nwad_def n1_def nwad_zero_def zero_addr_def MAX_AF_ADDR_def)
    then show ?thesis using e tT by simp
  qed
qed

lemma net_nwad_complete:
  assumes "net_ok s" and "ns_ports s = [] \<or> 0 \<le> lo"
  shows "\<not> nwad_incomplete (net_nwad s) (if ns_ports s = [] then - 1 else lo)"
proof (cases "ns_ports s = [] \<and> ns_proto s = None")
  case True
  then obtain a b c d where q: "ns_addr s = Some (a, b, c, d)" "a < 256" "b < 256" "c < 256" "d < 256"
    "(a, b, c, d) \<noteq> (0, 0, 0, 0)"
    using assms(1) by (cases "ns_addr s") (auto simp: net_ok_def)
  then show ?thesis using True
    by (auto simp: nwad_incomplete_def net_nwad_def ns_bytes_def of_nat_byte_zero nwad_zero_def)
next
  case False
  then show ?thesis using assms(2) by (auto simp: nwad_incomplete_def net_nwad_def)
qed

lemma nwad_mark_found: "fst (nwad_mark iproto ia p af ns) \<longleftrightarrow> (\<exists>n \<in> set ns. nwad_matches iproto ia p af n)"
  by (induction ns) (auto split: prod.split)

lemma is_nw_addr_found: "fst (is_nw_addr iproto ia p af ctx) \<longleftrightarrow> (\<exists>n \<in> set (nwads ctx). nwad_matches iproto ia p af n)"
  by (simp add: is_nw_addr_def nwad_mark_found split: prod.split) (metis fst_conv nwad_mark_found)

lemma net_nwad_matches:
  assumes "net_ok s" and "length ia = 4"
  shows "nwad_matches iproto ia p AF_INET (nw_entry (net_nwad s) na lo hi) \<longleftrightarrow>
    (case ns_proto s of None \<Rightarrow> True | Some pr \<Rightarrow> strcasecmp_eq pr iproto)
    \<and> (case ns_addr s of None \<Rightarrow> True | Some q \<Rightarrow> ia = ns_bytes q) \<and> (lo = - 1 \<or> lo \<le> p \<and> p \<le> hi)"
proof -
  have "addr_matches (nw_a (net_nwad s)) ia 4 \<longleftrightarrow> (case ns_addr s of None \<Rightarrow> True | Some q \<Rightarrow> ia = ns_bytes q)"
  proof (cases "ns_addr s")
    case None
    then show ?thesis by (simp add: net_nwad_def addr_matches_def zero_addr_def list_all_iff)
  next
    case (Some q)
    obtain a b c d where q: "q = (a, b, c, d)" by (cases q)
    then show ?thesis using Some assms
      by (auto simp: net_nwad_def addr_matches_def ns_bytes_def net_ok_def of_nat_byte_zero)
  qed
  moreover have "AF_INET \<noteq> AF_INET6" by (simp add: AF_INET_def AF_INET6_def)
  ultimately show ?thesis
    by (auto simp: nwad_matches_def nw_entry_def net_nwad_def nwad_zero_def split: option.split)
qed

section \<open>Properties\<close>

text \<open>
  C3: a numeric \<open>-i\<close> argument selects what it says.  For a protocol name in any case, a dotted
  address and a list of ports and port ranges, each part optional but one present, the argument is
  accepted, one table entry is made for each port element, and afterwards \<open>is_nw_addr\<close> accepts an
  IPv4 endpoint exactly when the protocol, the address and one of the port elements match it.
\<close>

theorem network_spec_selects:
  assumes "net_ok s" and "fnet ctx = 0" and "nwads ctx = []" and "k + max 1 (length (ns_ports s)) \<le> MAXNWAD"
  shows "\<exists>ctx'. enter_network_address env (Some (net_text s)) (ctx, k) = (False, (ctx', k + max 1 (length (ns_ports s))))
    \<and> (\<forall>iproto ia p. length ia = 4 \<longrightarrow> fst (is_nw_addr iproto ia p AF_INET ctx') = net_selects s iproto ia p)"
proof (cases "ns_ports s = []")
  case True
  let ?c = "ctx\<lparr> nwads := [nw_entry (net_nwad s) (net_text s) (- 1) (- 1)] \<rparr>"
  have "\<not> nwad_incomplete (net_nwad s) (- 1)" using net_nwad_complete [OF assms(1)] True by simp
  then have "enter_network_address env (Some (net_text s)) (ctx, k) = (False, (?c, k + 1))"
    using assms True
    by (simp add: enter_network_address_numeric nw_ports_def port_part_def nwad_enter_numeric)
  moreover have "fst (is_nw_addr iproto ia p AF_INET ?c) = net_selects s iproto ia p" if "length ia = 4" for iproto ia p
    using True that assms(1) by (simp add: is_nw_addr_found net_nwad_matches net_selects_def)
  ultimately show ?thesis using True by auto
next
  case False
  let ?es = "map (\<lambda>q. nw_entry (net_nwad s) (net_text s) (port_lo q) (port_hi q)) (ns_ports s)"
  let ?c = "ctx\<lparr> nwads := rev ?es \<rparr>"
  have lo: "0 \<le> port_lo q" for q by (cases q) auto
  have "\<not> nwad_incomplete (net_nwad s) (port_lo q)" for q using net_nwad_complete [OF assms(1), of "port_lo q"] lo False by simp
  then have "list_all (\<lambda>q. \<not> nwad_incomplete (net_nwad s) (port_lo q)) (ns_ports s)" by (simp add: list_all_iff)
  moreover have "commas (map port_text (ns_ports s)) \<noteq> []"
  proof -
    obtain q qs where "ns_ports s = q # qs" using False by (cases "ns_ports s") auto
    moreover have "port_text q \<noteq> []" by (cases q) auto
    ultimately show ?thesis by (simp add: commas_Cons)
  qed
  ultimately have "enter_network_address env (Some (net_text s)) (ctx, k) = (False, (?c, k + length (ns_ports s)))"
    using assms False port_list_numeric [of "ns_ports s" k "net_nwad s" env 0 "net_text s" 0 0 ctx]
    by (simp add: enter_network_address_numeric nw_ports_def port_part_def net_ok_def)
  moreover have "fst (is_nw_addr iproto ia p AF_INET ?c) = net_selects s iproto ia p" if "length ia = 4" for iproto ia p
  proof -
    have "port_lo q \<noteq> - 1" for q using lo [of q] by simp
    then show ?thesis using False that assms(1)
      by (auto simp: is_nw_addr_found net_nwad_matches net_selects_def)
  qed
  moreover have "max 1 (length (ns_ports s)) = length (ns_ports s)" using False by (cases "ns_ports s") auto
  ultimately show ?thesis by auto
qed

definition sample_net :: net_spec where
  "sample_net = \<lparr> ns_proto = Some ''TCP'', ns_addr = Some (10, 0, 0, 1), ns_ports = [Port 80, Ports 1000 2000] \<rparr>"

definition sample_env :: nw_env where
  "sample_env = \<lparr>
    gethostbyname2 = (\<lambda>hn af. if hn = ''v6only'' \<and> af = AF_INET6
      then Some \<lparr> he_addrtype = AF_INET6, he_length = 16, he_addrs = [1 # replicate 15 0] \<rparr> else None),
    getservbyname = \<lambda>_ _. None, inet_pton6 = \<lambda>_. None \<rparr>"

theorem network_spec_selects_witness:
  "\<exists>ctx'. enter_network_address sample_env (Some (net_text sample_net)) (lsof_new, 0) = (False, (ctx', 2))
    \<and> fst (is_nw_addr ''TCP'' [10, 0, 0, 1] 1500 AF_INET ctx')
    \<and> \<not> fst (is_nw_addr ''TCP'' [10, 0, 0, 1] 81 AF_INET ctx')"
proof -
  have tcp: "strcasecmp_eq ''TCP'' ''tcp''" by code_simp
  have ok: "net_ok sample_net"
    using tcp by (simp add: net_ok_def sample_net_def nw_proto_ok_def port_ok_def INT_MAX_def)
  obtain ctx' where c: "enter_network_address sample_env (Some (net_text sample_net)) (lsof_new, 0) = (False, (ctx', 2))"
    and f: "\<And>iproto ia p. length ia = 4 \<Longrightarrow> fst (is_nw_addr iproto ia p AF_INET ctx') = net_selects sample_net iproto ia p"
    using network_spec_selects [OF ok, of lsof_new 0 sample_env]
    by (auto simp: MAXNWAD_def sample_net_def)
  show ?thesis using c f [of "[10, 0, 0, 1]"] by (auto simp: net_selects_def sample_net_def ns_bytes_def)
qed

lemma nw_host_name:
  assumes "wa \<noteq> []" and "hd wa \<noteq> CHR '':''" and "hd wa \<noteq> CHR ''[''" and "isIPv4addr wa MAX_AF_ADDR = None"
    and "takeWhile (\<lambda>c. c \<noteq> CHR '':'') wa = hn" and "dropWhile (\<lambda>c. c \<noteq> CHR '':'') wa = rest"
    and "lkup_hostnm env hn (n\<lparr> nw_af := AF_INET6 \<rparr>) = (Some he, n1)"
  shows "nw_host env 0 wa n = Some (n1, Some hn, Some he, rest)"
  using assms by (simp add: nw_host_def)

lemma port_list_dec:
  assumes "int p \<le> INT_MAX" and "rest = [] \<or> hd rest = CHR '',''"
  shows "port_list env hn ft na pt pu (dec_str p @ rest) n he st =
    (case nwad_enter env hn ft na (int p) (int p) n he st of
       (True, _, _, st1) \<Rightarrow> (True, st1)
     | (False, n1, he1, st1) \<Rightarrow>
        (case rest of [] \<Rightarrow> (False, st1) | _ # wa' \<Rightarrow> port_list env hn ft na pt pu wa' n1 he1 st1))"
proof -
  obtain c wa where t: "dec_str p @ rest = c # wa" by (cases "dec_str p") auto
  have ok: "port_ok (Port p)" using assms(1) by (simp add: port_ok_def)
  obtain r where r: "port_elem env (nw_proto n) \<lparr> po_pr = False, po_sp = 0, po_ep = 0, po_pt = pt, po_pu = pu \<rparr> (c # wa) = Some (r, rest)"
    "po_sp r = int p" "(if po_pr r then po_ep r else int p) = int p" "po_pt r = pt" "po_pu r = pu"
    using port_elem_text [OF ok assms(2), of env "nw_proto n" pt pu]
    unfolding port_text.simps port_lo.simps port_hi.simps t by blast
  show ?thesis unfolding t port_list.simps(2) r(1) option.case prod.case Let_def r(2-5)
    by (auto split: bool.split list.split prod.split)
qed

text \<open>
  C37: the ports after the first lose the IPv6 address of a host name.  When a host has only an IPv6
  address, an argument \<open>@host:p,q\<close> enters that address for the first port only: the entry for the
  second port has the IPv4 family with the leading bytes of the IPv6 address, and an IPv6 endpoint of
  the host on the second port is not selected.
\<close>

theorem second_port_loses_ipv6:
  assumes "gethostbyname2 env hn AF_INET6 = Some \<lparr> he_addrtype = AF_INET6, he_length = 16, he_addrs = [a] \<rparr>"
    and "gethostbyname2 env hn AF_INET = None" and "length a = 16"
    and "hn \<noteq> []" and "CHR '':'' \<notin> set hn" and "hd hn \<noteq> CHR ''[''" and "\<not> isdigit_c (hd hn)"
    and "int p \<le> INT_MAX" and "int q \<le> INT_MAX" and "p \<noteq> q" and "fnet ctx = 0" and "nwads ctx = []"
  shows "\<exists>ctx'. enter_network_address env (Some (CHR ''@'' # hn @ CHR '':'' # dec_str p @ CHR '','' # dec_str q)) (ctx, 0)
      = (False, (ctx', 2))
    \<and> fst (is_nw_addr iproto a (int p) AF_INET6 ctx') \<and> \<not> fst (is_nw_addr iproto a (int q) AF_INET6 ctx')"
proof -
  let ?he = "\<lparr> he_addrtype = AF_INET6, he_length = 16, he_addrs = [a] \<rparr>"
  let ?ports = "dec_str p @ CHR '','' # dec_str q"
  let ?na = "CHR ''@'' # hn @ CHR '':'' # ?ports"
  let ?n6 = "nwad_zero\<lparr> nw_af := AF_INET6, nw_a := a \<rparr>"
  let ?n4 = "nwad_zero\<lparr> nw_af := AF_INET, nw_a := a \<rparr>"
  have [simp]: "AF_INET \<noteq> AF_INET6" "AF_INET6 \<noteq> AF_INET" "AF_INET6 \<noteq> 0" "AF_INET \<noteq> 0" by (simp_all add: AF_INET_def AF_INET6_def)
  have colon: "hd hn \<noteq> CHR '':''" using assms(4,5) hd_in_set by metis
  have sep: "list_all (\<lambda>c. c \<noteq> CHR '':'') hn" using assms(5) by (auto simp: list_all_iff)
  have split: "takeWhile (\<lambda>c. c \<noteq> CHR '':'') (hn @ CHR '':'' # ?ports) = hn"
    "dropWhile (\<lambda>c. c \<noteq> CHR '':'') (hn @ CHR '':'' # ?ports) = CHR '':'' # ?ports"
    by (auto intro: takeWhile_sep [OF sep] dropWhile_sep [OF sep])
  have lk: "lkup_hostnm env hn (nwad_zero\<lparr> nw_af := AF_INET6 \<rparr>) = (Some ?he, ?n6)"
    using assms(1,3) by (simp add: lkup_hostnm_def MAX_AF_ADDR_def)
  have h: "nw_host env 0 (hn @ CHR '':'' # ?ports) nwad_zero = Some (?n6, Some hn, Some ?he, CHR '':'' # ?ports)"
    using assms(4,6,7) colon
    by (intro nw_host_name [OF _ _ _ _ split lk]) (auto simp: isIPv4addr_def)
  have "enter_network_address env (Some ?na) (ctx, 0)
      = nw_ports env 0 ?na (?n6, Some hn, Some ?he, CHR '':'' # ?ports) (ctx, 0)"
    using enter_network_address_split [of ?na "[]" ?na ctx nwad_zero env 0] assms(11) h by simp
  also have "\<dots> = port_list env (Some hn) 0 ?na 0 0 ?ports ?n6 (Some ?he) (ctx, 0)" by (simp add: nw_ports_def)
  finally have e: "enter_network_address env (Some ?na) (ctx, 0) = \<dots>" .
  let ?e6 = "nw_entry ?n6 ?na (int p) (int p)" and ?e4 = "nw_entry ?n4 ?na (int q) (int q)"
  have comp: "\<not> nwad_incomplete n (int r)" for n r by (simp add: nwad_incomplete_def)
  have s1: "nwad_enter env (Some hn) 0 ?na (int p) (int p) ?n6 (Some ?he) (ctx, 0) =
      (False, ?n4, None, (ctx\<lparr> nwads := [?e6] \<rparr>, 1))"
    using comp assms(2,12)
    by (simp add: nwad_enter_def enter_nwad_def Let_def MAXNWAD_def lkup_hostnm_def nw_entry_def nwad_incomplete_def)
  have s2: "nwad_enter env (Some hn) 0 ?na (int q) (int q) ?n4 None (ctx\<lparr> nwads := [?e6] \<rparr>, 1) =
      (False, ?n4, None, (ctx\<lparr> nwads := [?e4, ?e6] \<rparr>, 2))"
    using comp by (simp add: nwad_enter_def enter_nwad_def Let_def MAXNWAD_def nw_entry_def nwad_incomplete_def)
  have "enter_network_address env (Some ?na) (ctx, 0) = (False, (ctx\<lparr> nwads := [?e4, ?e6] \<rparr>, 2))"
    unfolding e using port_list_dec [OF assms(8), of "CHR '','' # dec_str q"] port_list_dec [OF assms(9), of "[]"] s1 s2
    by simp
  moreover have "nwad_matches iproto a (int p) AF_INET6 ?e6" "\<not> nwad_matches iproto a (int q) AF_INET6 ?e6"
    "\<not> nwad_matches iproto a r AF_INET6 ?e4" for r
    using assms(10) by (auto simp: nwad_matches_def nw_entry_def nwad_zero_def addr_matches_def)
  ultimately show ?thesis by (auto simp: is_nw_addr_found)
qed

theorem second_port_loses_ipv6_witness:
  "\<exists>ctx'. enter_network_address sample_env (Some (CHR ''@'' # ''v6only'' @ CHR '':'' # dec_str 80 @ CHR '','' # dec_str 443)) (lsof_new, 0)
      = (False, (ctx', 2)) \<and> \<not> fst (is_nw_addr ''TCP'' (1 # replicate 15 0) 443 AF_INET6 ctx')"
  using second_port_loses_ipv6 [of sample_env "''v6only''" "1 # replicate 15 0" 80 443 lsof_new "''TCP''"]
  by (auto simp: sample_env_def AF_INET_def AF_INET6_def isdigit_c_def INT_MAX_def)

lemma nwad_matches_frame [simp]: "nwad_matches i a p f (n\<lparr> nw_f := b \<rparr>) = nwad_matches i a p f n"
  by (simp add: nwad_matches_def)

lemma nwad_mark_matches:
  "(\<exists>n \<in> set (snd (nwad_mark i1 a1 p1 f1 ns)). nwad_matches i2 a2 p2 f2 n) \<longleftrightarrow> (\<exists>n \<in> set ns. nwad_matches i2 a2 p2 f2 n)"
  by (induction ns) (auto split: prod.split)

lemma is_nw_addr_again:
  "fst (is_nw_addr i2 a2 p2 f2 (snd (is_nw_addr i1 a1 p1 f1 ctx))) = fst (is_nw_addr i2 a2 p2 f2 ctx)"
proof -
  have "nwads (snd (is_nw_addr i1 a1 p1 f1 ctx)) = snd (nwad_mark i1 a1 p1 f1 (nwads ctx))"
    by (simp add: is_nw_addr_def split: prod.split)
  then show ?thesis by (simp add: is_nw_addr_found nwad_mark_matches)
qed

text \<open>
  A socket is selected by address exactly when one of its endpoints is.  With address selection
  in force \<open>ent_inaddr\<close> adds the address flag to the file, and no other flag, if and only if the
  foreign or the local endpoint is given and matches a table entry; the entry the first test marks
  does not influence the second.
\<close>

theorem ent_inaddr_selects:
  assumes "has_flag (selflags ctx) SELNA" and "nwads ctx \<noteq> []"
  shows "lf_sf (fst (ent_inaddr la lp fa fp af l ctx)) =
    (if (\<exists>a. fa = Some a \<and> fst (is_nw_addr (lf_iproto l) a fp af ctx))
        \<or> (\<exists>a. la = Some a \<and> fst (is_nw_addr (lf_iproto l) a lp af ctx))
     then lf_sf l OR SELNA else lf_sf l)"
proof -
  have "lf_sf (fst (ent_inaddr la lp fa fp af l ctx)) =
    (let r1 = (case fa of None \<Rightarrow> (False, ctx) | Some a \<Rightarrow> is_nw_addr (lf_iproto l) a fp af ctx);
         r2 = (case la of None \<Rightarrow> (False, snd r1) | Some a \<Rightarrow> is_nw_addr (lf_iproto l) a lp af (snd r1)) in
     if fst r1 \<or> fst r2 then lf_sf l OR SELNA else lf_sf l)"
    using assms by (simp add: ent_inaddr_def Let_def split_beta)
  then show ?thesis by (cases fa; cases la) (auto simp: Let_def is_nw_addr_again)
qed

theorem ent_inaddr_selects_witness:
  "\<forall>l. lf_sf (fst (ent_inaddr None 0 None 0 AF_INET l (lsof_new\<lparr> selflags := SELNA, nwads := [nwad_zero] \<rparr>))) = lf_sf l"
  using ent_inaddr_selects [of "lsof_new\<lparr> selflags := SELNA, nwads := [nwad_zero] \<rparr>" None 0 None 0 AF_INET]
  by (simp add: SELNA_def)

end
