(* ===== verification/Name_Caches.thy ===== *)
theory Name_Caches
  imports Network_Args
begin

text \<open>
  The caches of \<open>src/src/print.c\<close> between the listing and the name services: login names
  (\<open>printuid\<close>), host names (\<open>gethostnm\<close>) and service names (\<open>lkup_port\<close>, \<open>lkup_svcnam\<close>,
  \<open>fill_porttab\<close>, \<open>fill_portmap\<close>, \<open>update_portmap\<close>).  Static variables are the members of a state
  record; the services themselves (\<open>getpwuid\<close>, \<open>stat\<close> of the password file, \<open>gethostbyaddr\<close>,
  \<open>inet_ntop\<close>, \<open>getservbyport\<close>, \<open>getservent\<close>, the portmapper) are parameters.
\<close>

section \<open>Login names\<close>

definition USERPRTL :: nat where "USERPRTL = 8"
definition UIDCACHEL :: nat where "UIDCACHEL = 1024"

type_synonym stamp = "int \<times> int"

record pw_env =
  pw_stat :: "stamp option"
  getpwuid :: "int \<Rightarrow> cstring option"

record uid_st =
  us_uc :: "(nat \<Rightarrow> (int \<times> cstring) list) option"
  us_sbs :: stamp
  us_ckpasswd :: bool

definition uid_hash :: "int \<Rightarrow> nat" where
  "uid_hash uid = nat (drop_bit 7 (uid * 31415 mod 18446744073709551616)) mod UIDCACHEL"

definition pad_left :: "nat \<Rightarrow> cstring \<Rightarrow> cstring" where
  "pad_left w s = replicate (w - length s) (CHR '' '') @ s"

text \<open>The numeric conversion \<open>%*lu\<close> goes to a buffer of \<open>USERPRTL + 1\<close> bytes.\<close>

definition uid_number :: "int \<Rightarrow> cstring" where
  "uid_number uid = take USERPRTL (pad_left USERPRTL (dec_str (nat uid)))"

text \<open>
  \<open>printuid\<close> returns the text and its type (False for a login name, True for a number); the table of
  buckets is a function from bucket numbers to chains.
\<close>

definition printuid :: "bool \<Rightarrow> pw_env \<Rightarrow> int \<Rightarrow> uid_st \<Rightarrow> ((cstring \<times> bool) \<times> uid_st) run" where
  "printuid futol env uid st =
    (if \<not> futol then Done ((uid_number uid, True), st)
     else if us_ckpasswd st \<and> pw_stat env = None then Exited LSOF_EXIT_ERROR
     else
       (let sb = the (pw_stat env);
            st1 = (if us_uc st = None then
                     (if us_ckpasswd st then st\<lparr> us_uc := Some (\<lambda>_. []), us_sbs := sb, us_ckpasswd := False \<rparr>
                      else st\<lparr> us_uc := Some (\<lambda>_. []) \<rparr>)
                   else st);
            st2 = (if us_ckpasswd st1 then
                     (if us_sbs st1 \<noteq> sb then st1\<lparr> us_uc := Some (\<lambda>_. []), us_sbs := sb, us_ckpasswd := False \<rparr>
                      else st1\<lparr> us_ckpasswd := False \<rparr>)
                   else st1);
            i = uid_hash uid; chain = the (us_uc st2) i in
        case map_of chain uid of
          Some nm \<Rightarrow> Done ((nm, False), st2)
        | None \<Rightarrow>
           (case getpwuid env uid of
              None \<Rightarrow> Done ((uid_number uid, True), st2)
            | Some nm \<Rightarrow>
                (let nm' = take LOGINML nm in
                 Done ((nm', False), st2\<lparr> us_uc := Some ((the (us_uc st2))(i := (uid, nm') # chain)) \<rparr>)))))"

section \<open>Host names\<close>

record host_env =
  gethostbyaddr :: "8 word list \<Rightarrow> int \<Rightarrow> cstring option option"
  inet_ntop6 :: "8 word list \<Rightarrow> cstring option"

definition host_al :: "int \<Rightarrow> nat" where
  "host_al af = (if af = AF_INET6 then MAX_AF_ADDR else MIN_AF_ADDR)"

definition host_numeric :: "host_env \<Rightarrow> 8 word list \<Rightarrow> int \<Rightarrow> cstring" where
  "host_numeric env ia af =
    (if af = AF_INET6 then
       (case inet_ntop6 env (take MAX_AF_ADDR ia) of
          None \<Rightarrow> ''[can'' @ [CHR 0x27] @ ''t format IPv6 address]''
        | Some t \<Rightarrow> take 255 (''['' @ t @ '']''))
     else if af = AF_INET then dotted (map (\<lambda>b. dec_str (unat b)) (take 4 ia))
     else ''(unknown AF value: '' @ dec_int af @ '')'')"

type_synonym host_cache = "(int \<times> 8 word list \<times> cstring) list"

fun host_find :: "8 word list \<Rightarrow> int \<Rightarrow> host_cache \<Rightarrow> cstring option" where
  "host_find ia af [] = None"
| "host_find ia af ((f, a, nm) # hc) =
    (if af = f \<and> take (host_al af) ia = take (host_al af) a then Some nm else host_find ia af hc)"

definition gethostnm :: "bool \<Rightarrow> host_env \<Rightarrow> 8 word list \<Rightarrow> int \<Rightarrow> host_cache \<Rightarrow> cstring \<times> host_cache" where
  "gethostnm fhost env ia af hc =
    (case host_find ia af hc of
       Some nm \<Rightarrow> (nm, hc)
     | None \<Rightarrow>
        (let hn = (case (if fhost then gethostbyaddr env (take (host_al af) ia) af else None) of
                     Some (Some nm) \<Rightarrow> nm
                   | _ \<Rightarrow> host_numeric env ia af) in
         (hn, hc @ [(af, take (host_al af) ia, hn)])))"

section \<open>Service names\<close>

definition PORTHASHBUCKETS :: int where "PORTHASHBUCKETS = 128"
definition PORTTABTHRESH :: nat where "PORTTABTHRESH = 10"

record porttab =
  pb_port :: int
  pb_name :: cstring
  pb_nl :: nat
  pb_ss :: bool

record servent =
  se_name :: "cstring option"
  se_proto :: "cstring option"
  se_port :: int

record port_env =
  getservbyport :: "int \<Rightarrow> cstring \<Rightarrow> cstring option"
  services :: "servent list"
  portmap_dump :: "(nat \<times> nat \<times> int) list option"
  getrpcbynumber :: "nat \<Rightarrow> cstring option"

text \<open>
  The four tables of buckets, \<open>Pth[pr][h]\<close>, are a function of both indexes; they are allocated
  together and empty.  \<open>pc_fl\<close> is the list of failed ports, \<open>pc_gsbp\<close> the number of
  \<open>getservbyport\<close> calls made, \<open>pc_ptf\<close> that \<open>fill_porttab\<close> has run, \<open>pc_run\<close> that \<open>fill_portmap\<close> has.
\<close>

record port_cache =
  pc_pth :: "nat \<Rightarrow> int \<Rightarrow> porttab list"
  pc_fl :: "int list"
  pc_gsbp :: nat
  pc_ptf :: bool
  pc_run :: bool

definition ports_new :: port_cache where
  "ports_new = \<lparr> pc_pth = (\<lambda>_ _. []), pc_fl = [], pc_gsbp = 0, pc_ptf = False, pc_run = False \<rparr>"

definition HASHPORT :: "int \<Rightarrow> int" where
  "HASHPORT p = drop_bit 3 (s32 (p * 31415)) AND (PORTHASHBUCKETS - 1)"

definition pt_find :: "int \<Rightarrow> porttab list \<Rightarrow> porttab option" where
  "pt_find p chain = find (\<lambda>pt. pb_port pt = p) chain"

definition pt_link :: "nat \<Rightarrow> porttab \<Rightarrow> port_cache \<Rightarrow> port_cache" where
  "pt_link pr pt c =
    (let h = HASHPORT (pb_port pt) in
     c\<lparr> pc_pth := (pc_pth c)(pr := ((pc_pth c pr)(h := pt # pc_pth c pr h))) \<rparr>)"

definition serv_proto :: "servent \<Rightarrow> nat option" where
  "serv_proto se =
    (case se_proto se of
       None \<Rightarrow> None
     | Some pr \<Rightarrow> if strcasecmp_eq pr ''TCP'' then Some 0 else if strcasecmp_eq pr ''UDP'' then Some 1 else None)"

definition fill_porttab_entry :: "servent \<Rightarrow> port_cache \<Rightarrow> port_cache" where
  "fill_porttab_entry se c =
    (case (se_name se, serv_proto se) of
       (Some nm, Some pr) \<Rightarrow>
         (let p = se_port se in
          if nm = [] then c
          else if pt_find p (pc_pth c pr (HASHPORT p)) \<noteq> None then c
          else pt_link pr \<lparr> pb_port = p, pb_name = nm, pb_nl = length nm - 1, pb_ss = False \<rparr> c)
     | _ \<Rightarrow> c)"

definition fill_porttab :: "port_env \<Rightarrow> port_cache \<Rightarrow> port_cache" where
  "fill_porttab env c = fold fill_porttab_entry (services env) c"

definition proto_name :: "nat \<Rightarrow> cstring" where
  "proto_name pr = (if pr \<noteq> 0 then ''udp'' else ''tcp'')"

function lkup_svcnam :: "bool \<Rightarrow> port_env \<Rightarrow> int \<Rightarrow> nat \<Rightarrow> bool \<Rightarrow> port_cache \<Rightarrow> cstring option \<times> port_cache" where
  "lkup_svcnam fport env p pr ss c =
    (if \<not> fport then (None, c)
     else case (if ss then None else pt_find p (pc_pth c pr (HASHPORT p))) of
       Some pt \<Rightarrow> (Some (pb_name pt), c)
     | None \<Rightarrow>
        if pc_ptf c then (None, c)
        else if pc_gsbp c < PORTTABTHRESH then
          (if p \<in> set (pc_fl c) then (None, c)
           else
             (let c1 = c\<lparr> pc_gsbp := pc_gsbp c + 1 \<rparr> in
              case getservbyport env (p mod 65536) (proto_name pr) of
                Some nm \<Rightarrow> (Some nm, c1)
              | None \<Rightarrow> (None, if length (pc_fl c1) < PORTTABTHRESH then c1\<lparr> pc_fl := pc_fl c1 @ [p] \<rparr> else c1)))
        else lkup_svcnam fport env p pr False ((fill_porttab env c)\<lparr> pc_ptf := True \<rparr>))"
  by pat_completeness auto

termination
  by (relation "measure (\<lambda>(_, _, _, _, _, c). if pc_ptf c then 0 else 1)") auto

declare lkup_svcnam.simps [simp del]

definition fill_portmap_entry :: "port_env \<Rightarrow> nat \<times> nat \<times> int \<Rightarrow> port_cache \<Rightarrow> port_cache" where
  "fill_portmap_entry env e c =
    (case e of (prot, prog, port) \<Rightarrow>
      if prot \<noteq> 6 \<and> prot \<noteq> 17 then c
      else
        (let pr = (if prot = 6 then 2 else 3) in
         if pt_find port (pc_pth c pr (HASHPORT port)) \<noteq> None then c
         else
           (let nm = (case getrpcbynumber env prog of Some n \<Rightarrow> if n \<noteq> [] then n else dec_str prog | None \<Rightarrow> dec_str prog) in
            pt_link pr \<lparr> pb_port = port, pb_name = nm, pb_nl = length nm, pb_ss = False \<rparr> c)))"

definition fill_portmap :: "port_env \<Rightarrow> port_cache \<Rightarrow> port_cache" where
  "fill_portmap env c =
    (if pc_run c then c
     else
       (let c1 = c\<lparr> pc_run := True \<rparr> in
        case portmap_dump env of None \<Rightarrow> c1 | Some ps \<Rightarrow> fold (fill_portmap_entry env) ps c1))"

definition update_portmap :: "cstring \<Rightarrow> porttab \<Rightarrow> porttab" where
  "update_portmap pn pt =
    (if pb_ss pt then pt
     else if pn = [] then pt\<lparr> pb_ss := True \<rparr>
     else
       (let nl = length pn + pb_nl pt + 2 in
        pt\<lparr> pb_name := take nl (pn @ ''['' @ pb_name pt @ '']''), pb_nl := nl, pb_ss := True \<rparr>))"

fun pt_update :: "int \<Rightarrow> (porttab \<Rightarrow> porttab) \<Rightarrow> porttab list \<Rightarrow> porttab list" where
  "pt_update p f [] = []"
| "pt_update p f (pt # chain) = (if pb_port pt = p then f pt # chain else pt # pt_update p f chain)"

definition port_mapped :: "bool \<Rightarrow> port_env \<Rightarrow> int \<Rightarrow> nat \<Rightarrow> porttab \<Rightarrow> port_cache \<Rightarrow> cstring \<times> port_cache" where
  "port_mapped fport env p pr pt c =
    (if pb_ss pt then (pb_name pt, c)
     else
       (let (pn, c1) = (if fport then lkup_svcnam fport env p pr False c else (None, c));
            pn1 = (case pn of None \<Rightarrow> dec_int p | Some n \<Rightarrow> n);
            h = HASHPORT p in
        (pb_name (update_portmap pn1 pt),
         c1\<lparr> pc_pth := (pc_pth c1)(pr + 2 := ((pc_pth c1 (pr + 2))(h := pt_update p (update_portmap pn1) (pc_pth c1 (pr + 2) h)))) \<rparr>)))"

definition port_service :: "bool \<Rightarrow> port_env \<Rightarrow> int \<Rightarrow> nat \<Rightarrow> port_cache \<Rightarrow> cstring \<times> port_cache" where
  "port_service fport env p pr c =
    (case pt_find p (pc_pth c pr (HASHPORT p)) of
       Some pt \<Rightarrow> (pb_name pt, c)
     | None \<Rightarrow>
        (case (if fport then lkup_svcnam fport env p pr True c else (None, c)) of
           (None, c1) \<Rightarrow> (if p \<noteq> 0 then dec_int p else ''*'', c1)
         | (Some pn, c1) \<Rightarrow>
            if pn = [] then (if p \<noteq> 0 then dec_int p else ''*'', c1)
            else (pn, pt_link pr \<lparr> pb_port = p, pb_name = pn, pb_nl = length pn, pb_ss = False \<rparr> c1)))"

definition lkup_port ::
  "bool \<Rightarrow> bool \<Rightarrow> port_env \<Rightarrow> int \<Rightarrow> nat \<Rightarrow> bool \<Rightarrow> port_cache \<Rightarrow> cstring \<times> port_cache" where
  "lkup_port fport fportmap env p pr src c =
    (let c1 = (if fportmap then fill_portmap env c else c) in
     case (if \<not> src \<and> fportmap then pt_find p (pc_pth c1 (pr + 2) (HASHPORT p)) else None) of
       Some pt \<Rightarrow> port_mapped fport env p pr pt c1
     | None \<Rightarrow> port_service fport env p pr c1)"

section \<open>Transparent caches\<close>

text \<open>
  The contract of a cache: a lookup in a good state returns what the service itself gives and
  leaves a good state.  A sequence of lookups then never shows the cache.
\<close>

fun lookups :: "('k \<Rightarrow> 's \<Rightarrow> ('v \<times> 's) run) \<Rightarrow> 'k list \<Rightarrow> 's \<Rightarrow> ('v list \<times> 's) run" where
  "lookups look [] s = Done ([], s)"
| "lookups look (k # ks) s =
    (case look k s of
       Exited n \<Rightarrow> Exited n
     | Done (v, s1) \<Rightarrow>
        (case lookups look ks s1 of Exited n \<Rightarrow> Exited n | Done (vs, s2) \<Rightarrow> Done (v # vs, s2)))"

locale sound_cache =
  fixes look :: "'k \<Rightarrow> 's \<Rightarrow> ('v \<times> 's) run"
    and valid :: "'k \<Rightarrow> 'v \<Rightarrow> bool"
    and good :: "'s \<Rightarrow> bool"
  assumes look_valid: "good s \<Longrightarrow> \<exists>v s'. look k s = Done (v, s') \<and> valid k v \<and> good s'"
begin

lemma lookups_valid: "good s \<Longrightarrow> \<exists>vs s'. lookups look ks s = Done (vs, s') \<and> list_all2 valid ks vs \<and> good s'"
proof (induction ks arbitrary: s)
  case Nil
  then show ?case by simp
next
  case (Cons k ks)
  obtain v s1 where s1: "look k s = Done (v, s1)" "valid k v" "good s1" using look_valid [OF Cons.prems] by blast
  obtain vs s2 where "lookups look ks s1 = Done (vs, s2)" "list_all2 valid ks vs" "good s2"
    using Cons.IH [OF s1(3)] by blast
  then show ?case using s1 by simp
qed

end

text \<open>A cache with one right answer for each key is transparent.\<close>

locale transparent_cache =
  fixes look :: "'k \<Rightarrow> 's \<Rightarrow> ('v \<times> 's) run"
    and service :: "'k \<Rightarrow> 'v"
    and good :: "'s \<Rightarrow> bool"
  assumes look_good: "good s \<Longrightarrow> \<exists>s'. look k s = Done (service k, s') \<and> good s'"

sublocale transparent_cache \<subseteq> sound_cache look "\<lambda>k v. v = service k" good
  by unfold_locales (use look_good in blast)

context transparent_cache
begin

lemma lookups_service: "good s \<Longrightarrow> \<exists>s'. lookups look ks s = Done (map service ks, s') \<and> good s'"
  using lookups_valid [of s ks] by (auto simp: list_all2_conv_all_nth list_eq_iff_nth_eq)

end

subsection \<open>Login names\<close>

definition uid_text :: "(int \<Rightarrow> cstring option) \<Rightarrow> int \<Rightarrow> cstring \<times> bool" where
  "uid_text pw uid =
    (case pw uid of Some nm \<Rightarrow> (take LOGINML nm, False) | None \<Rightarrow> (uid_number uid, True))"

definition uids_agree :: "(int \<Rightarrow> cstring option) \<Rightarrow> uid_st \<Rightarrow> bool" where
  "uids_agree pw st \<longleftrightarrow>
    (\<forall>b. us_uc st = Some b \<longrightarrow>
      (\<forall>i u nm. (u, nm) \<in> set (b i) \<longrightarrow> (\<exists>n. pw u = Some n \<and> nm = take LOGINML n)))"

definition uid_good :: "pw_env \<Rightarrow> uid_st \<Rightarrow> bool" where
  "uid_good env st \<longleftrightarrow>
    (us_ckpasswd st \<longrightarrow> pw_stat env \<noteq> None)
    \<and> (us_ckpasswd st \<and> pw_stat env \<noteq> Some (us_sbs st) \<or> uids_agree (getpwuid env) st)"

definition uid_ready :: "pw_env \<Rightarrow> uid_st \<Rightarrow> uid_st" where
  "uid_ready env st =
    (let st1 = (if us_uc st = None \<or> us_ckpasswd st \<and> us_sbs st \<noteq> the (pw_stat env)
                then st\<lparr> us_uc := Some (\<lambda>_. []) \<rparr> else st) in
     if us_ckpasswd st then st1\<lparr> us_sbs := the (pw_stat env), us_ckpasswd := False \<rparr> else st1)"

lemma printuid_ready:
  assumes "us_ckpasswd st \<longrightarrow> pw_stat env \<noteq> None"
  shows "printuid True env uid st =
    (let st2 = uid_ready env st; i = uid_hash uid; chain = the (us_uc st2) i in
     case map_of chain uid of
       Some nm \<Rightarrow> Done ((nm, False), st2)
     | None \<Rightarrow>
        (case getpwuid env uid of
           None \<Rightarrow> Done ((uid_number uid, True), st2)
         | Some nm \<Rightarrow>
             Done ((take LOGINML nm, False),
               st2\<lparr> us_uc := Some ((the (us_uc st2))(i := (uid, take LOGINML nm) # chain)) \<rparr>)))"
proof -
  have eq: "(let sb = the (pw_stat env);
            st1 = (if us_uc st = None then
                     (if us_ckpasswd st then st\<lparr> us_uc := Some (\<lambda>_. []), us_sbs := sb, us_ckpasswd := False \<rparr>
                      else st\<lparr> us_uc := Some (\<lambda>_. []) \<rparr>)
                   else st) in
            (if us_ckpasswd st1 then
                     (if us_sbs st1 \<noteq> sb then st1\<lparr> us_uc := Some (\<lambda>_. []), us_sbs := sb, us_ckpasswd := False \<rparr>
                      else st1\<lparr> us_ckpasswd := False \<rparr>)
                   else st1)) = uid_ready env st"
    by (cases st) (auto simp: uid_ready_def Let_def)
  have pre: "\<not> (us_ckpasswd st \<and> pw_stat env = None)" using assms by blast
  show ?thesis unfolding printuid_def eq [unfolded Let_def, symmetric] Let_def
    by (simp only: if_not_P [OF pre] not_True_eq_False if_False)
qed

lemma uid_ready_agree:
  assumes "uid_good env st"
  shows "uids_agree (getpwuid env) (uid_ready env st)" "\<not> us_ckpasswd (uid_ready env st)"
    "us_uc (uid_ready env st) \<noteq> None"
  using assms by (auto simp: uid_good_def uid_ready_def uids_agree_def Let_def)

lemma uid_ready_sbs:
  "us_ckpasswd st \<Longrightarrow> us_sbs (uid_ready env st) = the (pw_stat env)"
  "\<not> us_ckpasswd st \<Longrightarrow> us_sbs (uid_ready env st) = us_sbs st"
  by (auto simp: uid_ready_def Let_def)

lemma printuid_good:
  assumes good: "uid_good env st"
  shows "\<exists>st'. printuid True env uid st = Done (uid_text (getpwuid env) uid, st')
    \<and> uid_good env st' \<and> uids_agree (getpwuid env) st' \<and> \<not> us_ckpasswd st'
    \<and> us_sbs st' = us_sbs (uid_ready env st)"
proof -
  define st2 where "st2 = uid_ready env st"
  note r = uid_ready_agree [OF good, folded st2_def]
  obtain b where b: "us_uc st2 = Some b" using r(3) by blast
  have pu: "printuid True env uid st = (case map_of (b (uid_hash uid)) uid of
       Some nm \<Rightarrow> Done ((nm, False), st2)
     | None \<Rightarrow> (case getpwuid env uid of
           None \<Rightarrow> Done ((uid_number uid, True), st2)
         | Some nm \<Rightarrow> Done ((take LOGINML nm, False),
               st2\<lparr> us_uc := Some (b(uid_hash uid := (uid, take LOGINML nm) # b (uid_hash uid))) \<rparr>)))"
    by (subst printuid_ready)
      (use good in \<open>simp add: uid_good_def\<close>, simp only: st2_def [symmetric] Let_def b option.sel)
  show ?thesis
  proof (cases "map_of (b (uid_hash uid)) uid")
    case (Some nm)
    then have "(uid, nm) \<in> set (b (uid_hash uid))" by (rule map_of_SomeD)
    then obtain n where "getpwuid env uid = Some n" "nm = take LOGINML n" using r(1) b unfolding uids_agree_def by blast
    then show ?thesis using Some r unfolding pu by (auto simp: uid_text_def uid_good_def st2_def)
  next
    case None
    then show ?thesis using r b unfolding pu
      by (cases "getpwuid env uid") (auto simp: uid_text_def uid_good_def uids_agree_def st2_def)
  qed
qed

interpretation uids: transparent_cache "printuid True env" "uid_text (getpwuid env)" "uid_good env" for env
  by unfold_locales (use printuid_good in blast)

text \<open>
  Repeat mode: every cycle sets \<open>CkPasswd\<close> before it lists (\<open>src/src/main.c\<close>, the repeat loop), and
  prints the users of its files.  A cycle is the time stamp of the password file and its users.
\<close>

fun uid_cycles ::
  "(stamp \<Rightarrow> int \<Rightarrow> cstring option) \<Rightarrow> (stamp \<times> int list) list \<Rightarrow> uid_st \<Rightarrow> ((cstring \<times> bool) list list \<times> uid_st) run" where
  "uid_cycles db [] st = Done ([], st)"
| "uid_cycles db ((s, us) # cs) st =
    (case lookups (printuid True \<lparr> pw_stat = Some s, getpwuid = db s \<rparr>) us (st\<lparr> us_ckpasswd := True \<rparr>) of
       Exited n \<Rightarrow> Exited n
     | Done (vs, st1) \<Rightarrow>
        (case uid_cycles db cs st1 of Exited n \<Rightarrow> Exited n | Done (vss, st2) \<Rightarrow> Done (vs # vss, st2)))"

definition uid_synced :: "(stamp \<Rightarrow> int \<Rightarrow> cstring option) \<Rightarrow> uid_st \<Rightarrow> bool" where
  "uid_synced db st \<longleftrightarrow> uids_agree (db (us_sbs st)) st"

lemma uid_good_sbs:
  assumes "lookups (printuid True env) us st = Done (vs, st')" "uid_good env st" "\<not> us_ckpasswd st"
    "uids_agree (getpwuid env) st"
  shows "us_sbs st' = us_sbs st \<and> uids_agree (getpwuid env) st' \<and> \<not> us_ckpasswd st'"
  using assms
proof (induction us arbitrary: st vs)
  case Nil
  then show ?case by simp
next
  case (Cons u us)
  obtain st1 where st1: "printuid True env u st = Done (uid_text (getpwuid env) u, st1)" "uid_good env st1"
    "uids_agree (getpwuid env) st1" "\<not> us_ckpasswd st1" "us_sbs st1 = us_sbs st"
    using printuid_good [OF Cons.prems(2)] uid_ready_sbs(2) [OF Cons.prems(3)] by metis
  obtain ws where "lookups (printuid True env) us st1 = Done (ws, st')"
    using Cons.prems(1) st1(1) by (auto split: run.splits prod.splits)
  from Cons.IH [OF this st1(2,4,3)] show ?case using st1(5) by simp
qed

lemma uid_cycle_synced:
  assumes "uid_synced db st"
  shows "\<exists>st'. lookups (printuid True \<lparr> pw_stat = Some s, getpwuid = db s \<rparr>) us (st\<lparr> us_ckpasswd := True \<rparr>)
      = Done (map (uid_text (db s)) us, st') \<and> uid_synced db st'"
proof -
  define env where "env = \<lparr> pw_stat = Some s, getpwuid = db s \<rparr>"
  define st0 where "st0 = st\<lparr> us_ckpasswd := True \<rparr>"
  have db: "getpwuid env = db s" by (simp add: env_def)
  have good: "uid_good env st0"
    using assms by (auto simp: uid_good_def st0_def env_def uid_synced_def uids_agree_def)
  show ?thesis
  proof (cases us)
    case Nil
    then show ?thesis using assms by (auto simp: uid_synced_def uids_agree_def)
  next
    case (Cons u us')
    obtain st1 where st1: "printuid True env u st0 = Done (uid_text (db s) u, st1)" "uid_good env st1"
      "uids_agree (db s) st1" "\<not> us_ckpasswd st1" "us_sbs st1 = s"
      using printuid_good [OF good, of u] uid_ready_sbs(1) [of st0 env] by (auto simp: db st0_def env_def)
    obtain st2 where st2: "lookups (printuid True env) us' st1 = Done (map (uid_text (db s)) us', st2)"
      using uids.lookups_service [OF st1(2), of us'] by (auto simp: db)
    from uid_good_sbs [OF st2 st1(2,4)] st1(3,5) have "uid_synced db st2" by (simp add: db uid_synced_def)
    then show ?thesis using Cons st1(1) st2 by (simp add: env_def [symmetric] st0_def [symmetric])
  qed
qed

text \<open>
  C18: \<open>printuid\<close>'s cache never shows a stale login name across repeat cycles.  If the content of the
  password file is determined by its modification and change times, then in every cycle every user
  is printed as the password file of that cycle has it: the first \<open>LOGINML\<close> characters of the login
  name, or the number when there is no entry, and no cycle ends the program.
\<close>

theorem uid_cycles_fresh:
  "\<exists>st'. uid_cycles db cs \<lparr> us_uc = None, us_sbs = s0, us_ckpasswd = c0 \<rparr>
    = Done (map (\<lambda>(s, us). map (uid_text (db s)) us) cs, st')"
proof -
  have "uid_synced db st \<Longrightarrow> \<exists>st'. uid_cycles db cs st = Done (map (\<lambda>(s, us). map (uid_text (db s)) us) cs, st')" for st
  proof (induction cs arbitrary: st)
    case Nil
    then show ?case by simp
  next
    case (Cons c cs)
    obtain s us where c: "c = (s, us)" by (cases c)
    obtain st1 where st1: "lookups (printuid True \<lparr> pw_stat = Some s, getpwuid = db s \<rparr>) us (st\<lparr> us_ckpasswd := True \<rparr>)
      = Done (map (uid_text (db s)) us, st1)" "uid_synced db st1" using uid_cycle_synced [OF Cons.prems] by blast
    obtain st2 where "uid_cycles db cs st1 = Done (map (\<lambda>(s, us). map (uid_text (db s)) us) cs, st2)"
      using Cons.IH [OF st1(2)] by blast
    then show ?case using c st1(1) by simp
  qed
  then show ?thesis by (simp add: uid_synced_def uids_agree_def)
qed

lemma dec_str_long: "10 ^ k \<le> n \<Longrightarrow> k < length (dec_str n)"
proof (induction k arbitrary: n)
  case 0
  then show ?case by simp
next
  case (Suc k)
  have "(1::nat) \<le> 10 ^ k" by simp
  with Suc.prems have n: "\<not> n < 10" unfolding power_Suc by linarith
  have "10 ^ k \<le> n div 10" using Suc.prems by (simp add: less_eq_div_iff_mult_less_eq mult.commute)
  from Suc.IH [OF this] show ?case by (simp add: dec_str.simps [of n] n)
qed

text \<open>
  The numeric form of a user always has exactly eight characters.  A number of nine or more
  digits is therefore cut: it is printed as its own tenth part is, so that ten different users
  share one text.
\<close>

theorem uid_number_cut:
  "length (uid_number uid) = USERPRTL \<and> (100000000 \<le> uid \<longrightarrow> uid_number uid = uid_number (uid div 10))"
proof (intro conjI impI)
  show "length (uid_number uid) = USERPRTL" by (simp add: uid_number_def pad_left_def)
  assume u: "100000000 \<le> uid"
  then have n: "\<not> nat uid < 10" "nat (uid div 10) = nat uid div 10" by (auto simp: nat_div_distrib)
  have "10 ^ 7 \<le> nat uid div 10" using u by simp
  then have len: "8 \<le> length (dec_str (nat uid div 10))" using dec_str_long by fastforce
  show "uid_number uid = uid_number (uid div 10)"
    using len by (simp add: uid_number_def pad_left_def USERPRTL_def n dec_str.simps [of "nat uid"])
qed

theorem uid_number_cut_witness:
  "(100000000::int) \<le> 4294967294 \<and> uid_number 4294967294 = uid_number 429496729"
  using uid_number_cut [of 4294967294] by simp

subsection \<open>Host names\<close>

definition host_name :: "bool \<Rightarrow> host_env \<Rightarrow> 8 word list \<times> int \<Rightarrow> cstring" where
  "host_name fhost env k =
    (case k of (ia, af) \<Rightarrow>
      case (if fhost then gethostbyaddr env (take (host_al af) ia) af else None) of
        Some (Some nm) \<Rightarrow> nm
      | _ \<Rightarrow> host_numeric env ia af)"

definition hosts_good :: "bool \<Rightarrow> host_env \<Rightarrow> host_cache \<Rightarrow> bool" where
  "hosts_good fhost env hc \<longleftrightarrow> (\<forall>(af, a, nm) \<in> set hc. nm = host_name fhost env (a, af))"

lemma host_numeric_prefix:
  assumes "take (host_al af) ia = take (host_al af) a"
  shows "host_numeric env ia af = host_numeric env a af"
proof (cases "af = AF_INET6")
  case True
  then show ?thesis using assms by (simp add: host_numeric_def host_al_def)
next
  case False
  then show ?thesis using assms by (simp add: host_numeric_def host_al_def MIN_AF_ADDR_def)
qed

lemma host_name_prefix:
  assumes "take (host_al af) ia = take (host_al af) a"
  shows "host_name fhost env (ia, af) = host_name fhost env (a, af)"
  unfolding host_name_def prod.case assms host_numeric_prefix [OF assms] by (rule refl)

lemma host_find_good:
  "hosts_good fhost env hc \<Longrightarrow> host_find ia af hc = Some nm \<Longrightarrow> nm = host_name fhost env (ia, af)"
proof (induction hc)
  case Nil
  then show ?case by simp
next
  case (Cons e hc)
  obtain f a n where e: "e = (f, a, n)" by (cases e)
  show ?case
  proof (cases "af = f \<and> take (host_al af) ia = take (host_al af) a")
    case True
    then have "nm = n" "n = host_name fhost env (a, af)" using Cons.prems e by (auto simp: hosts_good_def)
    then show ?thesis using host_name_prefix True by metis
  next
    case False
    then have "host_find ia af hc = Some nm" using Cons.prems(2) unfolding e host_find.simps by (simp only: if_False)
    then show ?thesis using Cons.IH Cons.prems(1) by (simp add: hosts_good_def)
  qed
qed

lemma gethostnm_good:
  assumes "hosts_good fhost env hc"
  shows "\<exists>hc'. gethostnm fhost env ia af hc = (host_name fhost env (ia, af), hc') \<and> hosts_good fhost env hc'"
proof (cases "host_find ia af hc")
  case None
  have "host_name fhost env (take (host_al af) ia, af) = host_name fhost env (ia, af)"
    by (rule host_name_prefix) simp
  then show ?thesis using None assms by (auto simp: gethostnm_def hosts_good_def host_name_def Let_def)
next
  case (Some nm)
  then show ?thesis using assms host_find_good [OF assms Some] by (auto simp: gethostnm_def)
qed

interpretation hosts: transparent_cache
  "\<lambda>k hc. Done (gethostnm fhost env (fst k) (snd k) hc)" "host_name fhost env" "hosts_good fhost env" for fhost env
proof unfold_locales
  fix hc and k :: "8 word list \<times> int"
  assume "hosts_good fhost env hc"
  from gethostnm_good [OF this, of "fst k" "snd k"]
  show "\<exists>s'. Done (gethostnm fhost env (fst k) (snd k) hc) = Done (host_name fhost env k, s') \<and> hosts_good fhost env s'"
    by simp
qed

text \<open>
  C32: \<open>gethostnm\<close>'s cache is transparent: any sequence of lookups gives for every address and family
  the name service's answer for it, or the numeric form when names are off or the service has none,
  whatever was looked up before.
\<close>

theorem gethostnm_transparent:
  "\<exists>hc. lookups (\<lambda>k hc. Done (gethostnm fhost env (fst k) (snd k) hc)) ks [] = Done (map (host_name fhost env) ks, hc)"
  using hosts.lookups_service [of fhost env "[]" ks] by (auto simp: hosts_good_def)

subsection \<open>Service names\<close>

definition svc_name :: "port_env \<Rightarrow> nat \<Rightarrow> int \<Rightarrow> cstring \<Rightarrow> bool" where
  "svc_name env pr p nm \<longleftrightarrow>
    getservbyport env (p mod 65536) (proto_name pr) = Some nm
    \<or> (\<exists>se \<in> set (services env). se_name se = Some nm \<and> serv_proto se = Some pr \<and> se_port se = p)"

definition svc_tables :: "port_env \<Rightarrow> port_cache \<Rightarrow> bool" where
  "svc_tables env c \<longleftrightarrow> (\<forall>pr < 2. \<forall>h. \<forall>pt \<in> set (pc_pth c pr h). svc_name env pr (pb_port pt) (pb_name pt))"

definition ports_ok :: "port_env \<Rightarrow> port_cache \<Rightarrow> bool" where
  "ports_ok env c \<longleftrightarrow> svc_tables env c \<and> pc_gsbp c \<le> PORTTABTHRESH \<and> length (pc_fl c) \<le> pc_gsbp c"

lemma pt_find_some: "pt_find p chain = Some pt \<Longrightarrow> pt \<in> set chain \<and> pb_port pt = p"
  by (auto simp: pt_find_def find_Some_iff)

lemma ports_ok_frame [simp]:
  "ports_ok env (c\<lparr> pc_ptf := b \<rparr>) = ports_ok env c"
  "ports_ok env (c\<lparr> pc_run := b \<rparr>) = ports_ok env c"
  by (auto simp: ports_ok_def svc_tables_def)

lemma ports_ok_link:
  "ports_ok env c \<Longrightarrow> 2 \<le> pr \<or> svc_name env pr (pb_port pt) (pb_name pt) \<Longrightarrow> ports_ok env (pt_link pr pt c)"
  by (auto simp: ports_ok_def svc_tables_def pt_link_def Let_def)

lemma fill_porttab_entry_ok:
  "se \<in> set (services env) \<Longrightarrow> ports_ok env c \<Longrightarrow> ports_ok env (fill_porttab_entry se c)"
  unfolding fill_porttab_entry_def
  by (auto simp: Let_def svc_name_def split: option.splits intro!: ports_ok_link)

lemma fill_porttab_ok: "ports_ok env c \<Longrightarrow> ports_ok env (fill_porttab env c)"
proof -
  have "set ses \<subseteq> set (services env) \<Longrightarrow> ports_ok env c \<Longrightarrow> ports_ok env (fold fill_porttab_entry ses c)" for ses
    by (induction ses arbitrary: c) (auto simp: fill_porttab_entry_ok)
  then show "ports_ok env c \<Longrightarrow> ports_ok env (fill_porttab env c)" by (simp add: fill_porttab_def)
qed

lemma fill_portmap_entry_ok: "ports_ok env c \<Longrightarrow> ports_ok env (fill_portmap_entry env e c)"
  unfolding fill_portmap_entry_def by (auto simp: Let_def split: prod.splits intro!: ports_ok_link)

lemma fill_portmap_ok: "ports_ok env c \<Longrightarrow> ports_ok env (fill_portmap env c)"
proof -
  have "ports_ok env c \<Longrightarrow> ports_ok env (fold (fill_portmap_entry env) es c)" for es c
    by (induction es arbitrary: c) (auto simp: fill_portmap_entry_ok)
  then show "ports_ok env c \<Longrightarrow> ports_ok env (fill_portmap env c)"
    by (auto simp: fill_portmap_def Let_def split: option.splits)
qed

lemma ports_ok_find:
  "ports_ok env c \<Longrightarrow> pr < 2 \<Longrightarrow> pt_find p (pc_pth c pr h) = Some pt \<Longrightarrow> svc_name env pr p (pb_name pt)"
  by (auto simp: ports_ok_def svc_tables_def dest!: pt_find_some)

text \<open>What the portmapper's registrations say of a local port.\<close>

definition reg_of :: "port_env \<Rightarrow> nat \<Rightarrow> cstring" where
  "reg_of env prog = (case getrpcbynumber env prog of Some n \<Rightarrow> if n \<noteq> [] then n else dec_str prog | None \<Rightarrow> dec_str prog)"

definition reg_name :: "port_env \<Rightarrow> nat \<Rightarrow> int \<Rightarrow> cstring \<Rightarrow> bool" where
  "reg_name env pr p nm \<longleftrightarrow>
    (\<exists>ps prog. portmap_dump env = Some ps \<and> (if pr = 0 then 6 else 17, prog, p) \<in> set ps \<and> nm = reg_of env prog)"

definition port_text :: "port_env \<Rightarrow> nat \<Rightarrow> int \<Rightarrow> cstring \<Rightarrow> bool" where
  "port_text env pr p nm \<longleftrightarrow> nm = dec_int p \<or> p = 0 \<and> nm = ''*'' \<or> nm \<noteq> [] \<and> svc_name env pr p nm"

definition map_text :: "port_env \<Rightarrow> nat \<Rightarrow> int \<Rightarrow> cstring \<Rightarrow> bool" where
  "map_text env pr p nm \<longleftrightarrow>
    (\<exists>reg. reg_name env pr p reg \<and>
      (nm = reg \<or> (\<exists>pn. (pn = dec_int p \<or> svc_name env pr p pn) \<and> nm = pn @ ''['' @ reg @ '']'')))"

definition map_entry :: "port_env \<Rightarrow> nat \<Rightarrow> porttab \<Rightarrow> bool" where
  "map_entry env pr pt \<longleftrightarrow>
    (if pb_ss pt then map_text env pr (pb_port pt) (pb_name pt)
     else reg_name env pr (pb_port pt) (pb_name pt) \<and> pb_nl pt = length (pb_name pt))"

definition map_tables :: "port_env \<Rightarrow> port_cache \<Rightarrow> bool" where
  "map_tables env c \<longleftrightarrow> (\<forall>pr < 2. \<forall>h. \<forall>pt \<in> set (pc_pth c (pr + 2) h). map_entry env pr pt)"

definition svc_nonempty :: "port_cache \<Rightarrow> bool" where
  "svc_nonempty c \<longleftrightarrow> (\<forall>pr < 2. \<forall>h. \<forall>pt \<in> set (pc_pth c pr h). pb_name pt \<noteq> [])"

definition ports_good :: "port_env \<Rightarrow> port_cache \<Rightarrow> bool" where
  "ports_good env c \<longleftrightarrow> ports_ok env c \<and> map_tables env c \<and> svc_nonempty c"

lemma map_tables_link_svc [simp]: "pr < 2 \<Longrightarrow> map_tables env (pt_link pr pt c) = map_tables env c"
  by (auto simp: map_tables_def pt_link_def Let_def)

lemma svc_nonempty_link: "svc_nonempty c \<Longrightarrow> 2 \<le> pr \<or> pb_name pt \<noteq> [] \<Longrightarrow> svc_nonempty (pt_link pr pt c)"
  by (auto simp: svc_nonempty_def pt_link_def Let_def)

lemma serv_proto_less: "serv_proto se = Some pr \<Longrightarrow> pr < 2"
  by (auto simp: serv_proto_def split: option.splits if_splits)

lemma fill_porttab_entry_maps:
  "map_tables env c \<Longrightarrow> map_tables env (fill_porttab_entry se c)"
  "svc_nonempty c \<Longrightarrow> svc_nonempty (fill_porttab_entry se c)"
  by (auto simp: fill_porttab_entry_def Let_def serv_proto_less split: option.splits intro!: svc_nonempty_link)

lemma fill_porttab_maps:
  "map_tables env c \<Longrightarrow> map_tables env (fill_porttab env c)"
  "svc_nonempty c \<Longrightarrow> svc_nonempty (fill_porttab env c)"
proof -
  have "map_tables env c \<Longrightarrow> map_tables env (fold fill_porttab_entry ses c)"
    "svc_nonempty c \<Longrightarrow> svc_nonempty (fold fill_porttab_entry ses c)" for ses c
    by (induction ses arbitrary: c) (auto simp: fill_porttab_entry_maps)
  then show "map_tables env c \<Longrightarrow> map_tables env (fill_porttab env c)"
    "svc_nonempty c \<Longrightarrow> svc_nonempty (fill_porttab env c)" by (auto simp: fill_porttab_def)
qed

lemma ports_good_fill: "ports_good env c \<Longrightarrow> ports_good env ((fill_porttab env c)\<lparr> pc_ptf := True \<rparr>)"
  using fill_porttab_maps(1) [of env c] fill_porttab_maps(2) [of c env] fill_porttab_ok [of env c]
  by (auto simp: ports_good_def map_tables_def svc_nonempty_def)

lemma ports_good_count:
  "ports_good env c \<Longrightarrow> pc_gsbp c < PORTTABTHRESH \<Longrightarrow> ports_good env (c\<lparr> pc_gsbp := Suc (pc_gsbp c) \<rparr>)"
  "ports_good env c \<Longrightarrow> pc_gsbp c < PORTTABTHRESH \<Longrightarrow>
    ports_good env (c\<lparr> pc_gsbp := Suc (pc_gsbp c), pc_fl := pc_fl c @ [p] \<rparr>)"
  by (auto simp: ports_good_def ports_ok_def svc_tables_def map_tables_def svc_nonempty_def)

lemma lkup_svcnam_good:
  assumes "ports_good env c" "pr < 2" "lkup_svcnam fport env p pr ss c = (r, c')"
  shows "ports_good env c' \<and> (\<forall>nm. r = Some nm \<longrightarrow> svc_name env pr p nm)"
  using assms
proof (induction fport env p pr ss c rule: lkup_svcnam.induct)
  case (1 fport env p pr ss c)
  have ok: "ports_ok env c" using 1(2) by (simp add: ports_good_def)
  show ?case
  proof (cases "fport \<and> (ss \<or> pt_find p (pc_pth c pr (HASHPORT p)) = None) \<and> \<not> pc_ptf c \<and> \<not> pc_gsbp c < PORTTABTHRESH")
    case True
    then have d: "(if ss then None else pt_find p (pc_pth c pr (HASHPORT p))) = None" by auto
    have "lkup_svcnam fport env p pr False ((fill_porttab env c)\<lparr> pc_ptf := True \<rparr>) = (r, c')"
      using 1(4) True unfolding lkup_svcnam.simps [of fport env p pr ss] d by simp
    with 1(1) d True ports_good_fill [OF 1(2)] 1(3) show ?thesis by simp
  next
    case False
    then show ?thesis using 1(2-4) ports_ok_find [OF ok 1(3)] unfolding lkup_svcnam.simps [of fport env p pr ss]
      by (auto simp: svc_name_def Let_def ports_good_count split: if_splits option.splits)
  qed
qed

lemma map_tables_link_map:
  "map_tables env c \<Longrightarrow> pr < 2 \<Longrightarrow> map_entry env pr pt \<Longrightarrow> map_tables env (pt_link (pr + 2) pt c)"
  by (auto simp: map_tables_def pt_link_def Let_def)

lemma fill_portmap_entry_good:
  assumes "portmap_dump env = Some ps" "e \<in> set ps" "ports_good env c"
  shows "ports_good env (fill_portmap_entry env e c)"
proof -
  obtain prot prog port where e: "e = (prot, prog, port)" by (cases e)
  define pt where "pt = \<lparr> pb_port = port, pb_name = reg_of env prog, pb_nl = length (reg_of env prog), pb_ss = False \<rparr>"
  have link: "ports_good env (pt_link (pr + 2) pt c)" if "pr < 2" "prot = (if pr = 0 then 6 else 17)" for pr
  proof -
    have "map_entry env pr pt" using assms(1,2) e that by (auto simp: map_entry_def reg_name_def pt_def)
    then have "map_tables env (pt_link (pr + 2) pt c)"
      using assms(3) that(1) by (intro map_tables_link_map) (simp_all add: ports_good_def)
    then show ?thesis using assms(3) by (simp add: ports_good_def ports_ok_link svc_nonempty_link)
  qed
  show ?thesis using assms(3) link [of 0] link [of 1]
    by (auto simp: fill_portmap_entry_def e Let_def pt_def reg_of_def [symmetric] numeral_3_eq_3 numeral_2_eq_2)
qed

lemma fill_portmap_good:
  assumes "ports_good env c"
  shows "ports_good env (fill_portmap env c)"
proof -
  have "portmap_dump env = Some ps \<Longrightarrow> set es \<subseteq> set ps \<Longrightarrow> ports_good env c \<Longrightarrow>
      ports_good env (fold (fill_portmap_entry env) es c)" for ps es c
    by (induction es arbitrary: c) (auto simp: fill_portmap_entry_good)
  moreover have "ports_good env (c\<lparr> pc_run := True \<rparr>)"
    using assms by (auto simp: ports_good_def map_tables_def svc_nonempty_def)
  ultimately show ?thesis using assms by (auto simp: fill_portmap_def Let_def split: option.splits)
qed

lemma update_portmap_entry:
  assumes "map_entry env pr pt" "\<not> pb_ss pt" "pn = dec_int (pb_port pt) \<or> svc_name env pr (pb_port pt) pn"
  shows "map_entry env pr (update_portmap pn pt)" "map_text env pr (pb_port pt) (pb_name (update_portmap pn pt))"
  using assms by (auto simp: map_entry_def map_text_def update_portmap_def Let_def)

lemma pt_update_set: "x \<in> set (pt_update p f chain) \<Longrightarrow> x \<in> set chain \<or> (\<exists>pt \<in> set chain. pb_port pt = p \<and> x = f pt)"
  by (induction chain) (auto split: if_splits)

lemma pt_update_first:
  "pt_find p chain = Some pt \<Longrightarrow> x \<in> set (pt_update p f chain) \<Longrightarrow> x \<in> set chain \<or> x = f pt"
  by (induction chain) (auto simp: pt_find_def split: if_splits)

lemma port_service_good:
  assumes "ports_good env c" "pr < 2"
  shows "ports_good env (snd (port_service fport env p pr c)) \<and> port_text env pr p (fst (port_service fport env p pr c))"
proof (cases "pt_find p (pc_pth c pr (HASHPORT p))")
  case (Some pt)
  then have "pb_name pt \<noteq> []" "svc_name env pr p (pb_name pt)"
    using assms ports_ok_find [OF _ assms(2) Some] by (auto simp: ports_good_def svc_nonempty_def dest: pt_find_some)
  then show ?thesis using Some assms by (simp add: port_service_def port_text_def)
next
  case None
  obtain r c1 where l: "(if fport then lkup_svcnam fport env p pr True c else (None, c)) = (r, c1)" by fastforce
  have g: "ports_good env c1" "\<And>nm. r = Some nm \<Longrightarrow> svc_name env pr p nm"
    using lkup_svcnam_good [OF assms] l assms by (auto split: if_splits)
  have "ports_good env (pt_link pr \<lparr> pb_port = p, pb_name = nm, pb_nl = length nm, pb_ss = False \<rparr> c1)"
    if "r = Some nm" "nm \<noteq> []" for nm
    using g(1) g(2) [OF that(1)] that assms(2) by (auto simp: ports_good_def intro!: ports_ok_link svc_nonempty_link)
  then show ?thesis using None g unfolding port_service_def l by (cases r) (auto simp: port_text_def)
qed

lemma ports_good_update:
  assumes good: "ports_good env c" and pr: "pr < 2"
    and find: "pt_find p (pc_pth c (pr + 2) h) = Some pt" and entry: "map_entry env pr (f pt)"
  shows "ports_good env (c\<lparr> pc_pth := (pc_pth c)(pr + 2 := ((pc_pth c (pr + 2))(h := pt_update p f (pc_pth c (pr + 2) h)))) \<rparr>)"
proof -
  have "map_entry env pr x" if "x \<in> set (pt_update p f (pc_pth c (pr + 2) h))" for x
    using pt_update_first [OF find that] entry good pr by (auto simp: ports_good_def map_tables_def)
  then show ?thesis using good pr
    by (auto simp: ports_good_def ports_ok_def svc_tables_def svc_nonempty_def map_tables_def)
qed

text \<open>A service lookup leaves the portmapper's tables as they are.\<close>

lemma fill_porttab_map_frame: "2 \<le> q \<Longrightarrow> pc_pth (fill_porttab env c) q = pc_pth c q"
proof -
  have step: "2 \<le> q \<Longrightarrow> pc_pth (fill_porttab_entry se c) q = pc_pth c q" for se c
    by (auto simp: fill_porttab_entry_def pt_link_def Let_def split: option.splits dest: serv_proto_less)
  have "2 \<le> q \<Longrightarrow> pc_pth (fold fill_porttab_entry ses c) q = pc_pth c q" for ses
    by (induction ses arbitrary: c) (auto simp: step)
  then show "2 \<le> q \<Longrightarrow> pc_pth (fill_porttab env c) q = pc_pth c q" by (simp add: fill_porttab_def)
qed

lemma lkup_svcnam_map_frame:
  "2 \<le> q \<Longrightarrow> lkup_svcnam fport env p pr ss c = (r, c') \<Longrightarrow> pc_pth c' q = pc_pth c q"
proof (induction fport env p pr ss c rule: lkup_svcnam.induct)
  case (1 fport env p pr ss c)
  show ?case
  proof (cases "fport \<and> (ss \<or> pt_find p (pc_pth c pr (HASHPORT p)) = None) \<and> \<not> pc_ptf c \<and> \<not> pc_gsbp c < PORTTABTHRESH")
    case True
    then have d: "(if ss then None else pt_find p (pc_pth c pr (HASHPORT p))) = None" by auto
    have "lkup_svcnam fport env p pr False ((fill_porttab env c)\<lparr> pc_ptf := True \<rparr>) = (r, c')"
      using 1(3) True unfolding lkup_svcnam.simps [of fport env p pr ss] d by simp
    with 1(1) d True 1(2) show ?thesis by (simp add: fill_porttab_map_frame)
  next
    case False
    then show ?thesis using 1(3) unfolding lkup_svcnam.simps [of fport env p pr ss]
      by (auto simp: Let_def split: if_splits option.splits)
  qed
qed

lemma port_mapped_good:
  assumes good: "ports_good env c" and pr: "pr < 2" and find: "pt_find p (pc_pth c (pr + 2) (HASHPORT p)) = Some pt"
  shows "ports_good env (snd (port_mapped fport env p pr pt c)) \<and> map_text env pr p (fst (port_mapped fport env p pr pt c))"
proof -
  note pt = pt_find_some [OF find]
  have entry: "map_entry env pr pt" using pt good pr unfolding ports_good_def map_tables_def by blast
  show ?thesis
  proof (cases "pb_ss pt")
    case True
    then show ?thesis using entry pt good by (simp add: port_mapped_def map_entry_def)
  next
    case False
    obtain r c1 where l: "(if fport then lkup_svcnam fport env p pr False c else (None, c)) = (r, c1)" by fastforce
    define pn where "pn = (case r of None \<Rightarrow> dec_int p | Some n \<Rightarrow> n)"
    have g: "ports_good env c1" "\<And>nm. r = Some nm \<Longrightarrow> svc_name env pr p nm"
      using lkup_svcnam_good [OF good pr] l good by (auto split: if_splits)
    have fr: "pc_pth c1 (pr + 2) = pc_pth c (pr + 2)"
      using lkup_svcnam_map_frame [of "pr + 2" fport env p pr False c r c1] l by (auto split: if_splits)
    have "pn = dec_int (pb_port pt) \<or> svc_name env pr (pb_port pt) pn"
      using g(2) pt by (cases r) (auto simp: pn_def)
    note upd = update_portmap_entry [OF entry False this]
    have "pt_find p (pc_pth c1 (pr + 2) (HASHPORT p)) = Some pt" using find fr by simp
    from ports_good_update [OF g(1) pr this, of "update_portmap pn", OF upd(1)] upd(2) pt show ?thesis
      unfolding port_mapped_def l Let_def prod.case pn_def [symmetric] using False by simp
  qed
qed

definition port_answer :: "port_env \<Rightarrow> bool \<Rightarrow> int \<times> bool \<times> bool \<Rightarrow> cstring \<Rightarrow> bool" where
  "port_answer env fportmap k nm \<longleftrightarrow>
    (case k of (p, udp, src) \<Rightarrow>
      let pr = (if udp then 1 else 0) in
      port_text env pr p nm \<or> \<not> src \<and> fportmap \<and> map_text env pr p nm)"

definition port_query :: "bool \<Rightarrow> bool \<Rightarrow> port_env \<Rightarrow> int \<times> bool \<times> bool \<Rightarrow> port_cache \<Rightarrow> (cstring \<times> port_cache) run" where
  "port_query fport fportmap env k c =
    (case k of (p, udp, src) \<Rightarrow> Done (lkup_port fport fportmap env p (if udp then 1 else 0) src c))"

lemma lkup_port_good:
  assumes good: "ports_good env c" and pr: "pr < 2"
  shows "ports_good env (snd (lkup_port fport fportmap env p pr src c))
    \<and> (port_text env pr p (fst (lkup_port fport fportmap env p pr src c))
       \<or> \<not> src \<and> fportmap \<and> map_text env pr p (fst (lkup_port fport fportmap env p pr src c)))"
proof -
  define c1 where "c1 = (if fportmap then fill_portmap env c else c)"
  have g: "ports_good env c1" using good by (simp add: c1_def fill_portmap_good)
  show ?thesis
  proof (cases "if \<not> src \<and> fportmap then pt_find p (pc_pth c1 (pr + 2) (HASHPORT p)) else None")
    case None
    then show ?thesis using port_service_good [OF g pr]
      unfolding lkup_port_def Let_def c1_def [symmetric] by simp
  next
    case (Some pt)
    then have s: "\<not> src" "fportmap" "pt_find p (pc_pth c1 (pr + 2) (HASHPORT p)) = Some pt" by (auto split: if_splits)
    from port_mapped_good [OF g pr s(3)] s(1,2) show ?thesis
      unfolding lkup_port_def Let_def c1_def [symmetric] Some by simp
  qed
qed

interpretation ports: sound_cache "port_query fport fportmap env" "port_answer env fportmap" "ports_good env"
  for fport fportmap env
proof unfold_locales
  fix c and k :: "int \<times> bool \<times> bool"
  assume good: "ports_good env c"
  obtain p udp src where k: "k = (p, udp, src)" by (cases k)
  from lkup_port_good [OF good, of "if udp then 1 else 0" fport fportmap p src]
  show "\<exists>v s'. port_query fport fportmap env k c = Done (v, s') \<and> port_answer env fportmap k v \<and> ports_good env s'"
    by (cases "lkup_port fport fportmap env p (if udp then 1 else 0) src c") (auto simp: k port_query_def port_answer_def Let_def)
qed

text \<open>
  C20: Port names are never invented: in any sequence of lookups from the empty cache, every answer is
  the port's number, \<open>*\<close> for port zero, a nonempty name the service database has for exactly that port
  and protocol, or, for a local port with portmap names on, a name made of one of these and a
  registration of that port and protocol.  At most ten lookups reach \<open>getservbyport\<close>.
\<close>

theorem lkup_port_sound:
  "\<exists>nms c. lookups (port_query fport fportmap env) ks ports_new = Done (nms, c)
    \<and> list_all2 (port_answer env fportmap) ks nms \<and> pc_gsbp c \<le> PORTTABTHRESH"
proof -
  have "ports_good env ports_new"
    by (simp add: ports_good_def ports_ok_def svc_tables_def map_tables_def svc_nonempty_def ports_new_def)
  from ports.lookups_valid [OF this, of fport fportmap ks] show ?thesis
    by (auto simp: ports_good_def ports_ok_def)
qed

text \<open>
  The list of failed ports has no protocol, so a failed TCP lookup hides a UDP service: a UDP port
  that a fresh cache would name is printed as a number after a TCP lookup of the same number failed.
\<close>

theorem failed_tcp_hides_udp:
  assumes "getservbyport env (p mod 65536) ''tcp'' = None" "getservbyport env (p mod 65536) ''udp'' = Some nm"
    and "nm \<noteq> []" "p \<noteq> 0"
  shows "fst (lkup_port True False env p 1 src ports_new) = nm
    \<and> fst (lkup_port True False env p 1 src (snd (lkup_port True False env p 0 src ports_new))) = dec_int p"
  using assms
  by (simp add: lkup_port_def port_service_def lkup_svcnam.simps ports_new_def pt_find_def PORTTABTHRESH_def
      proto_name_def Let_def)

theorem failed_tcp_hides_udp_witness:
  "fst (lkup_port True False \<lparr> getservbyport = (\<lambda>p pr. if p = 69 \<and> pr = ''udp'' then Some ''tftp'' else None),
      services = [], portmap_dump = None, getrpcbynumber = (\<lambda>_. None) \<rparr> 69 1 False
     (snd (lkup_port True False \<lparr> getservbyport = (\<lambda>p pr. if p = 69 \<and> pr = ''udp'' then Some ''tftp'' else None),
      services = [], portmap_dump = None, getrpcbynumber = (\<lambda>_. None) \<rparr> 69 0 False ports_new))) = dec_int 69"
  using failed_tcp_hides_udp [of "\<lparr> getservbyport = (\<lambda>p pr. if p = 69 \<and> pr = ''udp'' then Some ''tftp'' else None),
      services = [], portmap_dump = None, getrpcbynumber = (\<lambda>_. None) \<rparr>" 69 "''tftp''" False] by simp

end
