(* ===== verification/Print_Fields.thy ===== *)
theory Print_Fields
  imports Option_Args
begin

text \<open>
  Texts of single output fields: the access and lock characters and the TYPE column
  (\<open>src/lib/print.c\<close>), and the interpreted file flags (\<open>print_fflags\<close> of \<open>src/src/print.c\<close> with the
  tables of \<open>src/lib/dialects/linux/dstore.c\<close>, at the values the flags have on x86-64).
\<close>

fun access_to_char :: "lsof_file_access_mode \<Rightarrow> char" where
  "access_to_char LSOF_FILE_ACCESS_NONE = CHR '' ''"
| "access_to_char LSOF_FILE_ACCESS_READ = CHR ''r''"
| "access_to_char LSOF_FILE_ACCESS_WRITE = CHR ''w''"
| "access_to_char LSOF_FILE_ACCESS_READ_WRITE = CHR ''u''"

fun lock_to_char :: "lsof_lock_mode \<Rightarrow> char" where
  "lock_to_char LSOF_LOCK_NONE = CHR '' ''"
| "lock_to_char LSOF_LOCK_UNKNOWN = CHR ''U''"
| "lock_to_char LSOF_LOCK_READ_PARTIAL = CHR ''r''"
| "lock_to_char LSOF_LOCK_READ_FULL = CHR ''R''"
| "lock_to_char LSOF_LOCK_WRITE_PARTIAL = CHR ''w''"
| "lock_to_char LSOF_LOCK_WRITE_FULL = CHR ''W''"
| "lock_to_char LSOF_LOCK_READ_WRITE = CHR ''u''"
| "lock_to_char LSOF_LOCK_SOLARIS_NFS = CHR ''N''"
| "lock_to_char LSOF_LOCK_SCO_PARTIAL = CHR ''x''"
| "lock_to_char LSOF_LOCK_SCO_FULL = CHR ''X''"

text \<open>
  The names in the order of \<open>enum lsof_file_type\<close>; the empty ones are \<open>LSOF_FILE_NONE\<close> and
  \<open>LSOF_FILE_UNKNOWN_RAW\<close>, which the switch formats as a raw octal number.
\<close>

definition TYPEL :: nat where "TYPEL = 8"

definition file_type_names :: "cstring list" where
  "file_type_names = [
    [], ''FIFO'', ''CHR'', ''DIR'', ''BLK'', ''REG'', ''LINK'', ''sock'', ''IPv4'', ''IPv6'', ''ax25'',
    ''inet'', ''lla'', ''rte'', ''unix'', ''x.25'', ''ATALK'', ''ndrv'', ''key'', ''systm'', ''ppp'', ''ipx'',
    ''raw'', ''raw6'', ''netlink'', ''pack'', ''icmp'', ''PAS'', ''PAXV'', ''PCRE'', ''PCTL'', ''PCUR'',
    ''PCWD'', ''PDIR'', ''PETY'', ''PFD'', ''PFDR'', ''PFIL'', ''PFPR'', ''PGD'', ''PGID'', ''PLDT'',
    ''PLPI'', ''PLST'', ''PLU'', ''PLWG'', ''PLC'', ''PLDR'', ''PLWI'', ''PLWS'', ''PLWU'', ''PLWX'',
    ''PMAP'', ''PMPS'', ''PMEM'', ''PNTF'', ''POBJ'', ''PODR'', ''POLP'', ''POPF'', ''POPG'', ''PREG'',
    ''PRMP'', ''PRTD'', ''PSGA'', ''PSIN'', ''PSTA'', ''PUSG'', ''PW'', ''PXMP'', ''a_inode'', ''DEL'',
    ''DOOR'', ''KQUEUE'', ''FSEVENTS'', ''EVENTFD'', ''PROCDSC'', ''MPB'', ''MPC'', ''UNKNdel'', ''UNKNmem'',
    ''UNKNfd'', ''UNKNcwd'', ''UNKNrtd'', ''UNKNtxt'', ''unknown'', [], ''UNKN'', ''PIPE'', ''PORT'',
    ''PSXMQ'', ''PSXSEM'', ''PSXSHM'', ''SHM'', ''PTS'', ''SMT'', ''STR'', ''STSO'', ''XNAM'', ''XSEM'',
    ''XSD'', ''NPOLICY'', ''UNSP'', ''VNON'', ''VREG'', ''VDIR'', ''VBLK'', ''VCHR'', ''VLNK'', ''SOCK'',
    ''VBAD'', ''VMPC'', ''FIFO'', ''UNNM'', ''DOOR'', ''PORT'']"

fun oct_str :: "nat \<Rightarrow> cstring" where
  "oct_str n = (if n < 8 then [char_of (48 + n)] else oct_str (n div 8) @ [char_of (48 + n mod 8)])"

declare oct_str.simps [simp del]

definition oct_pad :: "nat \<Rightarrow> nat \<Rightarrow> cstring" where
  "oct_pad w n = replicate (w - length (oct_str n)) (CHR ''0'') @ oct_str n"

definition file_type_to_string :: "lsof_file_type \<Rightarrow> nat \<Rightarrow> nat \<Rightarrow> cstring" where
  "file_type_to_string ty unk len = take (len - 1)
    (if ty < length file_type_names \<and> file_type_names ! ty \<noteq> [] then file_type_names ! ty
     else oct_pad 4 (unk mod 4096))"

type_synonym pff_tab = "(64 word \<times> cstring) list"

definition Pff_tab :: pff_tab where
  "Pff_tab = [(0x1, ''W''), (0x2, ''RW''), (0x40, ''CR''), (0x80, ''EXCL''), (0x100, ''NTTY''), (0x200, ''TR''),
    (0x400, ''AP''), (0x800, ''ND''), (0x101000, ''SYN''), (0x2000, ''ASYN''), (0x4000, ''DIR''),
    (0x10000, ''DTY''), (0x20000, ''NFLK''), (0x40000, ''NATM''), (0x1000, ''DSYN''), (0x101000, ''RSYN''),
    (0x8000, ''LG''), (0x80000, ''CX''), (0x200000, ''PATH''), (0x410000, ''TMPF'')]"

definition Pof_tab :: pff_tab where "Pof_tab = []"

text \<open>The loop over one table: the text, the flags left and the separator for what follows.\<close>

fun fflags_names :: "pff_tab \<Rightarrow> 64 word \<Rightarrow> cstring \<Rightarrow> cstring \<times> 64 word \<times> cstring" where
  "fflags_names [] fg sep = ([], fg, sep)"
| "fflags_names ((v, nm) # tp) fg sep =
    (if fg = 0 then ([], fg, sep)
     else if fg AND v \<noteq> 0 then
       (case fflags_names tp (fg AND NOT v) '','' of (out, w, s) \<Rightarrow> (sep @ nm @ out, w, s))
     else fflags_names tp fg sep)"

definition fflags_part :: "bool \<Rightarrow> pff_tab \<Rightarrow> cstring \<Rightarrow> 64 word \<Rightarrow> cstring" where
  "fflags_part hexf tp sep fg =
    (case (if hexf then ([], fg, sep) else fflags_names tp fg sep) of
       (out, w, s) \<Rightarrow> if w \<noteq> 0 \<or> hexf then out @ s @ ''0x'' @ hex_lower (unat w) else out)"

text \<open>
  The result, with the static buffer \<open>bp\<close>: when nothing is written and a buffer exists, it still
  holds the text of the previous call.
\<close>

definition print_fflags :: "bool \<Rightarrow> 64 word \<Rightarrow> 64 word \<Rightarrow> cstring option \<Rightarrow> cstring \<times> cstring option" where
  "print_fflags hexf ffg pof bp =
    (let out = fflags_part hexf Pff_tab [] ffg @ fflags_part hexf Pof_tab '';'' pof;
         r = (if out = [] then (case bp of None \<Rightarrow> [] | Some b \<Rightarrow> b) else out) in
     (r, Some r))"

section \<open>Properties\<close>

lemma fflags_names_nonempty:
  "fflags_names tp fg sep = (out, w, s) \<Longrightarrow> list_all (\<lambda>(v, nm). nm \<noteq> []) tp \<Longrightarrow> fg \<noteq> 0 \<Longrightarrow> out \<noteq> [] \<or> w \<noteq> 0"
  by (induction tp arbitrary: fg sep out) (auto split: if_splits prod.splits)

lemma fflags_part_nonempty:
  assumes "list_all (\<lambda>(v, nm). nm \<noteq> []) tp" and "hexf \<or> fg \<noteq> 0"
  shows "fflags_part hexf tp sep fg \<noteq> []"
proof -
  obtain out w s where n: "fflags_names tp fg sep = (out, w, s)" by (cases "fflags_names tp fg sep")
  show ?thesis using fflags_names_nonempty [OF n assms(1)] assms(2) by (auto simp: fflags_part_def n)
qed

text \<open>Under the guard its callers test, the text never depends on the buffer of an earlier call.\<close>

lemma print_fflags_fresh:
  assumes "hexf \<or> ffg \<noteq> 0 \<or> pof \<noteq> 0"
  shows "fst (print_fflags hexf ffg pof bp) = fst (print_fflags hexf ffg pof None)"
proof -
  have "list_all (\<lambda>(v, nm). nm \<noteq> []) Pff_tab" "list_all (\<lambda>(v, nm). nm \<noteq> []) Pof_tab"
    by (simp_all add: Pff_tab_def Pof_tab_def)
  then have "fflags_part hexf Pff_tab [] ffg @ fflags_part hexf Pof_tab '';'' pof \<noteq> []"
    using assms fflags_part_nonempty by blast
  then show ?thesis unfolding print_fflags_def Let_def by (simp only: if_False fst_conv)
qed

text \<open>
  A file opened with \<open>O_DSYNC\<close> is listed as synchronous: the table has the two-bit flag \<open>O_SYNC\<close>
  before \<open>O_DSYNC\<close> and takes any common bit as a match, so that the data-only flag is printed
  \<open>SYN\<close>, exactly as \<open>O_SYNC\<close> is, whatever was printed before.
\<close>

theorem dsync_printed_as_sync:
  "fst (print_fflags False 0x1000 0 bp) = ''SYN'' \<and> fst (print_fflags False 0x101000 0 bp) = ''SYN''"
  by (simp add: print_fflags_def fflags_part_def Pff_tab_def Pof_tab_def Let_def)

end
