(* ===== verification/Json.thy ===== *)
theory Json
  imports Safe_Strings Name_Caches Print_Fields IP_States Proc_Select
begin

text \<open>
  JSON output (\<open>src/src/print.c\<close>): the escaping and field writers, \<open>json_print_file\<close>,
  \<open>json_print_proc_fields\<close>, the JSON branch of \<open>print_proc\<close> and the envelope of \<open>-J\<close>.  What the code
  sends to the standard output is the text the definitions return.  The lemmas show that this text is
  the rendering of a JSON value and that a reference reader gets that value back.
\<close>

section \<open>Writers\<close>

abbreviation dq :: char where "dq \<equiv> CHR 0x22"

definition json_esc_char :: "char \<Rightarrow> string" where
  "json_esc_char c =
    (if c = dq then [bsl, dq]
     else if c = bsl then [bsl, bsl]
     else if byte c = 8 then [bsl, CHR ''b'']
     else if byte c = 12 then [bsl, CHR ''f'']
     else if byte c = 10 then [bsl, CHR ''n'']
     else if byte c = 13 then [bsl, CHR ''r'']
     else if byte c = 9 then [bsl, CHR ''t'']
     else if byte c < 32 then [bsl, CHR ''u'', CHR ''0'', CHR ''0''] @ hex2 (byte c)
     else [c])"

definition json_puts_escaped :: "cstring \<Rightarrow> string" where
  "json_puts_escaped s = concat (map json_esc_char s)"

text \<open>The state of a group of writers: the text so far and the separator flag \<open>*sep\<close>.\<close>

type_synonym jout = "string \<times> bool"

definition json_print_key :: "cstring \<Rightarrow> jout \<Rightarrow> jout" where
  "json_print_key key o1 =
    (case o1 of (out, sep) \<Rightarrow>
      (out @ (if sep then '','' else []) @ [dq] @ json_puts_escaped key @ [dq, CHR '':''], True))"

definition jputs :: "string \<Rightarrow> jout \<Rightarrow> jout" where
  "jputs s o1 = (fst o1 @ s, snd o1)"

definition json_print_str :: "cstring \<Rightarrow> cstring \<Rightarrow> jout \<Rightarrow> jout" where
  "json_print_str key val o1 = jputs ([dq] @ json_puts_escaped val @ [dq]) (json_print_key key o1)"

definition json_print_char :: "cstring \<Rightarrow> char \<Rightarrow> jout \<Rightarrow> jout" where
  "json_print_char key val o1 =
    jputs ([dq] @ (if val = dq then [bsl, dq] else if val = bsl then [bsl, bsl]
       else if schar val < 32 then [bsl, CHR ''u'', CHR ''0'', CHR ''0''] @ hex2 (byte val)
       else [val]) @ [dq]) (json_print_key key o1)"

definition json_print_int :: "cstring \<Rightarrow> int \<Rightarrow> jout \<Rightarrow> jout" where
  "json_print_int key val o1 = jputs (dec_int val) (json_print_key key o1)"

definition json_print_uint64_str :: "cstring \<Rightarrow> 64 word \<Rightarrow> jout \<Rightarrow> jout" where
  "json_print_uint64_str key val o1 = jputs ([dq] @ dec_str (unat val) @ [dq]) (json_print_key key o1)"

definition json_print_long :: "cstring \<Rightarrow> int \<Rightarrow> jout \<Rightarrow> jout" where
  "json_print_long key val o1 = jputs (dec_int val) (json_print_key key o1)"

definition json_print_ulong :: "cstring \<Rightarrow> nat \<Rightarrow> jout \<Rightarrow> jout" where
  "json_print_ulong key val o1 = jputs (dec_str val) (json_print_key key o1)"

section \<open>Files\<close>

text \<open>
  The options the writers read: \<open>FieldSel[].st\<close> by field index, \<open>Fpgid\<close>, \<open>Fppid\<close>, \<open>Futol\<close>, \<open>Fsv\<close>,
  \<open>FsvFlagX\<close> and \<open>Ftcptpi\<close>.
\<close>

record jopts =
  field_st :: "nat \<Rightarrow> bool"
  o_fpgid :: bool
  o_fppid :: bool
  o_futol :: bool
  o_fsv :: nat
  o_fsvflagx :: bool
  o_ftcptpi :: nat

definition LSOF_FIX_ACCESS :: nat where "LSOF_FIX_ACCESS = 0"
definition LSOF_FIX_CMD :: nat where "LSOF_FIX_CMD = 1"
definition LSOF_FIX_DEVCH :: nat where "LSOF_FIX_DEVCH = 3"
definition LSOF_FIX_DEVN :: nat where "LSOF_FIX_DEVN = 4"
definition LSOF_FIX_FD :: nat where "LSOF_FIX_FD = 5"
definition LSOF_FIX_FG :: nat where "LSOF_FIX_FG = 7"
definition LSOF_FIX_INODE :: nat where "LSOF_FIX_INODE = 8"
definition LSOF_FIX_NLINK :: nat where "LSOF_FIX_NLINK = 9"
definition LSOF_FIX_TID :: nat where "LSOF_FIX_TID = 10"
definition LSOF_FIX_LOCK :: nat where "LSOF_FIX_LOCK = 11"
definition LSOF_FIX_LOGIN :: nat where "LSOF_FIX_LOGIN = 12"
definition LSOF_FIX_TCMD :: nat where "LSOF_FIX_TCMD = 14"
definition LSOF_FIX_NAME :: nat where "LSOF_FIX_NAME = 15"
definition LSOF_FIX_OFFSET :: nat where "LSOF_FIX_OFFSET = 17"
definition LSOF_FIX_PID :: nat where "LSOF_FIX_PID = 18"
definition LSOF_FIX_PGID :: nat where "LSOF_FIX_PGID = 19"
definition LSOF_FIX_PROTO :: nat where "LSOF_FIX_PROTO = 20"
definition LSOF_FIX_RDEV :: nat where "LSOF_FIX_RDEV = 21"
definition LSOF_FIX_PPID :: nat where "LSOF_FIX_PPID = 22"
definition LSOF_FIX_SIZE :: nat where "LSOF_FIX_SIZE = 23"
definition LSOF_FIX_TYPE :: nat where "LSOF_FIX_TYPE = 25"
definition LSOF_FIX_TCPTPI :: nat where "LSOF_FIX_TCPTPI = 26"
definition LSOF_FIX_UID :: nat where "LSOF_FIX_UID = 27"

definition jif :: "bool \<Rightarrow> (jout \<Rightarrow> jout) \<Rightarrow> jout \<Rightarrow> jout" where
  "jif b f o1 = (if b then f o1 else o1)"

definition skip_blanks :: "cstring \<Rightarrow> cstring" where
  "skip_blanks s = dropWhile (\<lambda>c. c = CHR '' '') s"

definition hex0x :: "64 word \<Rightarrow> cstring" where
  "hex0x v = ''0x'' @ hex_lower (unat v)"

definition json_fd :: "lfile \<Rightarrow> cstring" where
  "json_fd l = (if lf_fd_type l = LSOF_FD_NUMERIC then dec_int (lf_fd_num l) else fd_to_string (lf_fd_type l) (lf_fd_num l))"

definition FSV_FG :: nat where "FSV_FG = 4"
definition TCPTPI_QUEUES :: nat where "TCPTPI_QUEUES = 2"
definition TCPTPI_STATE :: nat where "TCPTPI_STATE = 4"

abbreviation long :: "int \<Rightarrow> 64 word" where
  "long i \<equiv> word_of_int i"

definition json_fg :: "jopts \<Rightarrow> lfile \<Rightarrow> bool" where
  "json_fg opts l \<longleftrightarrow>
    field_st opts LSOF_FIX_FG \<and> o_fsv opts AND FSV_FG \<noteq> 0 \<and> lf_fsv l AND FSV_FG \<noteq> 0
    \<and> (o_fsvflagx opts \<or> long (lf_ffg l) \<noteq> 0 \<or> long (lf_pof l) \<noteq> 0)"

text \<open>The fields before the TCP/TPI information, in the order the code writes them.\<close>

definition json_file_fields :: "jopts \<Rightarrow> lfile \<Rightarrow> cstring \<Rightarrow> jout \<Rightarrow> jout" where
  "json_file_fields opts l flags o1 =
    (let st = field_st opts;
         o2 = jif (st LSOF_FIX_FD) (json_print_str ''fd'' (json_fd l)) o1;
         o3 = jif (st LSOF_FIX_ACCESS \<and> access_to_char (lf_access l) \<noteq> CHR '' '') (json_print_char ''access'' (access_to_char (lf_access l))) o2;
         o4 = jif (st LSOF_FIX_LOCK \<and> lock_to_char (lf_lock l) \<noteq> CHR '' '') (json_print_char ''lock'' (lock_to_char (lf_lock l))) o3;
         o5 = jif (st LSOF_FIX_TYPE \<and> lf_type l \<noteq> 0) (json_print_str ''type'' (file_type_to_string (lf_type l) (lf_unk_type l) TYPEL)) o4;
         dev = skip_blanks (case lf_dev_ch l of None \<Rightarrow> [] | Some s \<Rightarrow> s);
         o6 = jif (st LSOF_FIX_DEVCH \<and> dev \<noteq> []) (json_print_str ''device'' dev) o5;
         o7 = jif (st LSOF_FIX_DEVN \<and> lf_dev_def l) (json_print_str ''device_number'' (hex0x (lf_dev l))) o6;
         o8 = jif (st LSOF_FIX_RDEV \<and> lf_rdev_def l) (json_print_str ''raw_device'' (hex0x (lf_rdev l))) o7;
         o9 = jif (st LSOF_FIX_SIZE \<and> lf_sz_def l) (json_print_uint64_str ''size'' (lf_sz l)) o8;
         o10 = jif (st LSOF_FIX_OFFSET \<and> lf_off_def l) (json_print_uint64_str ''offset'' (lf_off l)) o9;
         o11 = jif (st LSOF_FIX_INODE \<and> lf_inp_ty l = 1) (json_print_uint64_str ''inode'' (lf_inode l)) o10;
         o12 = jif (st LSOF_FIX_NLINK \<and> lf_nlink_def l) (json_print_long ''nlink'' (lf_nlink l)) o11;
         pr = skip_blanks (lf_iproto l);
         o13 = jif (st LSOF_FIX_PROTO \<and> lf_inp_ty l = 2 \<and> pr \<noteq> []) (json_print_str ''protocol'' pr) o12;
         o14 = jif (json_fg opts l) (json_print_str ''flags'' flags) o13 in
     jif (st LSOF_FIX_NAME \<and> lf_nm l \<noteq> None) (json_print_str ''name'' (the (lf_nm l))) o14)"

definition st_name :: "proto_tab \<Rightarrow> int \<Rightarrow> cstring option" where
  "st_name t s = (let si = s32 (s + pt_off t) in if 0 \<le> si \<and> si < pt_n t then tab_list t ! nat si else None)"

definition json_state :: "ltstate \<Rightarrow> ip_ctx \<Rightarrow> cstring option" where
  "json_state lts c =
    (if lt_type lts = 0 then
       (case st_name (ip_tcp c) (lt_state lts) of
          Some st \<Rightarrow> Some st
        | None \<Rightarrow> Some (''UNKNOWN_TCP_STATE_'' @ dec_int (lt_state lts)))
     else if lt_type lts = 1 then st_name (ip_udp c) (lt_state lts)
     else None)"

text \<open>\<open>build_IPstates\<close> runs when the TCP table has no state or, for UDP, when the UDP table is missing.\<close>

definition json_states_ready :: "(nat \<Rightarrow> cstring option) \<Rightarrow> ltstate \<Rightarrow> ip_ctx \<Rightarrow> ip_ctx run" where
  "json_states_ready junk lts c =
    (case (if pt_n (ip_tcp c) = 0 then build_IPstates junk c else Done c) of
       Exited v \<Rightarrow> Exited v
     | Done c1 \<Rightarrow> if lt_type lts = 1 \<and> pt_st (ip_udp c1) = None then build_IPstates junk c1 else Done c1)"

definition json_tcp_fields :: "jopts \<Rightarrow> ltstate \<Rightarrow> ip_ctx \<Rightarrow> jout \<Rightarrow> jout" where
  "json_tcp_fields opts lts c o1 =
    (let o2 = (case (if o_ftcptpi opts AND TCPTPI_STATE \<noteq> 0 then json_state lts c else None) of
                 None \<Rightarrow> o1 | Some st \<Rightarrow> json_print_str ''state'' st o1);
         q = (o_ftcptpi opts AND TCPTPI_QUEUES \<noteq> 0);
         o3 = jif (q \<and> lt_rqs lts) (json_print_ulong ''recv_queue'' (lt_rq lts)) o2 in
     jif (q \<and> lt_sqs lts) (json_print_ulong ''send_queue'' (lt_sq lts)) o3)"

definition json_tcp_info :: "jopts \<Rightarrow> ltstate \<Rightarrow> ip_ctx \<Rightarrow> jout \<Rightarrow> jout" where
  "json_tcp_info opts lts c o1 =
    (case o1 of (out, sep) \<Rightarrow>
      (out @ (if sep then '','' else []) @ [dq] @ ''tcp_info'' @ [dq] @ '':{''
        @ fst (json_tcp_fields opts lts c ([], False)) @ ''}'', True))"

text \<open>The static state the writers share: the UID cache, the state tables and \<open>print_fflags\<close>'s buffer.\<close>

record jst =
  js_uid :: uid_st
  js_ip :: ip_ctx
  js_bp :: "cstring option"

definition json_print_file :: "jopts \<Rightarrow> (nat \<Rightarrow> cstring option) \<Rightarrow> lfile \<Rightarrow> jout \<Rightarrow> jst \<Rightarrow> (jout \<times> jst) run" where
  "json_print_file opts junk l o1 st =
    (let (flags, bp) = (if json_fg opts l
           then print_fflags (o_fsvflagx opts) (long (lf_ffg l)) (long (lf_pof l)) (js_bp st) else ([], js_bp st));
         o2 = json_file_fields opts l flags o1; st1 = st\<lparr> js_bp := bp \<rparr>; lts = lf_lts l in
     if 0 \<le> lt_type lts \<and> field_st opts LSOF_FIX_TCPTPI then
       (case (if o_ftcptpi opts AND TCPTPI_STATE \<noteq> 0 then json_states_ready junk lts (js_ip st1) else Done (js_ip st1)) of
          Exited v \<Rightarrow> Exited v
        | Done c \<Rightarrow> Done (json_tcp_info opts lts c o2, st1\<lparr> js_ip := c \<rparr>))
     else Done (o2, st1))"

section \<open>Processes\<close>

definition json_print_proc_fields :: "jopts \<Rightarrow> pw_env \<Rightarrow> lproc \<Rightarrow> jout \<Rightarrow> jst \<Rightarrow> (jout \<times> jst) run" where
  "json_print_proc_fields opts env p o1 st =
    (let fs = field_st opts;
         o2 = jif (fs LSOF_FIX_PID) (json_print_int ''pid'' (lp_pid p)) o1;
         o3 = jif (fs LSOF_FIX_TID \<and> lp_tid p \<noteq> 0) (json_print_int ''tid'' (lp_tid p)) o2;
         o4 = jif (fs LSOF_FIX_TCMD \<and> lp_tcmd p \<noteq> None) (json_print_str ''task_cmd'' (the (lp_tcmd p))) o3;
         o5 = jif (fs LSOF_FIX_PGID \<and> o_fpgid opts) (json_print_int ''pgid'' (lp_pgid p)) o4;
         o6 = jif (fs LSOF_FIX_PPID \<and> o_fppid opts) (json_print_int ''ppid'' (lp_ppid p)) o5;
         o7 = jif (fs LSOF_FIX_CMD) (json_print_str ''command'' (lp_cmd p)) o6;
         o8 = jif (fs LSOF_FIX_UID) (json_print_int ''uid'' (s32 (lp_uid p))) o7 in
     if fs LSOF_FIX_LOGIN then
       (case printuid (o_futol opts) env (lp_uid p) (js_uid st) of
          Exited v \<Rightarrow> Exited v
        | Done ((nm, num), u) \<Rightarrow> Done (jif (\<not> num) (json_print_str ''login'' nm) o8, st\<lparr> js_uid := u \<rparr>))
     else Done (o8, st))"

text \<open>The file array of a process: the text and the flag \<open>first_file\<close>.\<close>

fun json_files :: "jopts \<Rightarrow> (nat \<Rightarrow> cstring option) \<Rightarrow> lfile list \<Rightarrow> string \<times> bool \<Rightarrow> jst \<Rightarrow> ((string \<times> bool) \<times> jst) run" where
  "json_files opts junk [] o1 st = Done (o1, st)"
| "json_files opts junk (l # ls) o1 st =
    (case json_print_file opts junk l ([], False) st of
       Exited v \<Rightarrow> Exited v
     | Done (f, st1) \<Rightarrow>
        json_files opts junk ls (fst o1 @ (if snd o1 then [] else '','') @ ''{'' @ fst f @ ''}'', False) st1)"

fun json_lines :: "jopts \<Rightarrow> (nat \<Rightarrow> cstring option) \<Rightarrow> pw_env \<Rightarrow> lproc \<Rightarrow> lfile list \<Rightarrow> jst \<Rightarrow> (string \<times> jst) run" where
  "json_lines opts junk env p [] st = Done ([], st)"
| "json_lines opts junk env p (l # ls) st =
    (case json_print_proc_fields opts env p ([], False) st of
       Exited v \<Rightarrow> Exited v
     | Done (o1, st1) \<Rightarrow>
        (case json_print_file opts junk l o1 st1 of
           Exited v \<Rightarrow> Exited v
         | Done (o2, st2) \<Rightarrow>
            (case json_lines opts junk env p ls st2 of
               Exited v \<Rightarrow> Exited v
             | Done (out, st3) \<Rightarrow> Done (''{'' @ fst o2 @ ''}'' @ [nl] @ out, st3))))"

text \<open>
  The JSON branch of \<open>print_proc\<close> in the printing pass: the return value, the text, the flag
  \<open>Fjson_first_proc\<close> and the state.
\<close>

definition print_proc_json ::
  "jopts \<Rightarrow> bool \<Rightarrow> (nat \<Rightarrow> cstring option) \<Rightarrow> pw_env \<Rightarrow> lsof_context \<Rightarrow> lproc \<Rightarrow> bool \<Rightarrow> jst \<Rightarrow> (bool \<times> string \<times> bool \<times> jst) run" where
  "print_proc_json opts jsonl junk env ctx p first st =
    (let fs = filter (\<lambda>l. is_file_sel ctx (Some l)) (lp_file p) in
     if lp_pss p = 0 \<or> fs = [] then Done (False, [], first, st)
     else if \<not> jsonl then
       (case json_print_proc_fields opts env p ([], False) st of
          Exited v \<Rightarrow> Exited v
        | Done (o1, st1) \<Rightarrow>
           (case json_files opts junk fs ([], True) st1 of
              Exited v \<Rightarrow> Exited v
            | Done (o2, st2) \<Rightarrow>
               Done (True, (if first then [] else '','') @ ''{'' @ fst o1 @ (if snd o1 then '','' else [])
                 @ [dq] @ ''files'' @ [dq] @ '':['' @ fst o2 @ '']}'', False, st2)))
     else
       (case json_lines opts junk env p fs st of
          Exited v \<Rightarrow> Exited v
        | Done (out, st1) \<Rightarrow> Done (True, out, first, st1)))"

fun print_procs_json ::
  "jopts \<Rightarrow> bool \<Rightarrow> (nat \<Rightarrow> cstring option) \<Rightarrow> pw_env \<Rightarrow> lsof_context \<Rightarrow> lproc list \<Rightarrow> bool \<Rightarrow> jst \<Rightarrow> (string \<times> jst) run" where
  "print_procs_json opts jsonl junk env ctx [] first st = Done ([], st)"
| "print_procs_json opts jsonl junk env ctx (p # ps) first st =
    (case print_proc_json opts jsonl junk env ctx p first st of
       Exited v \<Rightarrow> Exited v
     | Done (rv, out, first1, st1) \<Rightarrow>
        (case print_procs_json opts jsonl junk env ctx ps first1 st1 of
           Exited v \<Rightarrow> Exited v
         | Done (out2, st2) \<Rightarrow> Done (out @ out2, st2)))"

definition json_open_envelope :: "cstring \<Rightarrow> string" where
  "json_open_envelope version =
    ''{'' @ [dq] @ ''lsof_version'' @ [dq, CHR '':'', dq] @ version @ [dq] @ '','' @ [dq] @ ''processes'' @ [dq] @ '':[''"

definition json_close_envelope :: string where
  "json_close_envelope = '']}'' @ [nl]"

definition json_cycle ::
  "cstring \<Rightarrow> jopts \<Rightarrow> (nat \<Rightarrow> cstring option) \<Rightarrow> pw_env \<Rightarrow> lsof_context \<Rightarrow> lproc list \<Rightarrow> jst \<Rightarrow> (string \<times> jst) run" where
  "json_cycle version opts junk env ctx ps st =
    (case print_procs_json opts False junk env ctx ps True st of
       Exited v \<Rightarrow> Exited v
     | Done (out, st1) \<Rightarrow> Done (json_open_envelope version @ out @ json_close_envelope, st1))"

section \<open>JSON values\<close>

datatype json = JStr cstring | JNum int | JObj "(cstring \<times> json) list" | JArr "json list"

definition jquote :: "cstring \<Rightarrow> string" where
  "jquote s = [dq] @ json_puts_escaped s @ [dq]"

fun render :: "json \<Rightarrow> string" where
  "render (JStr s) = jquote s"
| "render (JNum i) = dec_int i"
| "render (JObj ms) = ''{'' @ commas (map (\<lambda>(k, v). jquote k @ '':'' @ render v) ms) @ ''}''"
| "render (JArr vs) = ''['' @ commas (map render vs) @ '']''"

definition member :: "cstring \<times> json \<Rightarrow> string" where
  "member m = jquote (fst m) @ '':'' @ render (snd m)"

lemma render_obj: "render (JObj ms) = ''{'' @ commas (map member ms) @ ''}''"
  by (simp add: member_def [abs_def] case_prod_unfold)

text \<open>A group of writers emits a list of members, with a comma before them when something precedes.\<close>

definition emitted :: "(cstring \<times> json) list \<Rightarrow> jout \<Rightarrow> jout" where
  "emitted ms o1 =
    (fst o1 @ (if snd o1 \<and> ms \<noteq> [] then '','' else []) @ commas (map member ms), snd o1 \<or> ms \<noteq> [])"

definition emits :: "(jout \<Rightarrow> jout) \<Rightarrow> (cstring \<times> json) list \<Rightarrow> bool" where
  "emits f ms \<longleftrightarrow> f = emitted ms"

lemma commas_append:
  "commas (xs @ ys) = commas xs @ (if xs \<noteq> [] \<and> ys \<noteq> [] then '','' else []) @ commas ys"
proof (induction xs rule: commas.induct)
  case (2 t)
  then show ?case by (cases ys) auto
qed auto

lemma emitted_append: "emitted ns (emitted ms o1) = emitted (ms @ ns) o1"
  by (auto simp: emitted_def commas_append)

lemma emits_comp:
  assumes "emits f ms" "emits g ns"
  shows "emits (\<lambda>o1. g (f o1)) (ms @ ns)"
  using assms unfolding emits_def by (intro ext) (simp only: emitted_append)

lemma emits_id: "emits (\<lambda>o1. o1) []"
  by (simp add: emits_def emitted_def fun_eq_iff)

lemma emits_jif: "emits f ms \<Longrightarrow> emits (jif b f) (if b then ms else [])"
  by (auto simp: emits_def emitted_def jif_def fun_eq_iff)

lemma emits_field:
  assumes "\<And>o1. f o1 = jputs (render v) (json_print_key k o1)"
  shows "emits f [(k, v)]"
  by (simp add: emits_def emitted_def fun_eq_iff assms json_print_key_def jputs_def member_def jquote_def case_prod_unfold)

lemma emits_str: "emits (json_print_str k s) [(k, JStr s)]"
  by (rule emits_field) (simp add: json_print_str_def jquote_def)

lemma emits_int: "emits (json_print_int k i) [(k, JNum i)]"
  by (rule emits_field) (simp add: json_print_int_def)

lemma emits_long: "emits (json_print_long k i) [(k, JNum i)]"
  by (rule emits_field) (simp add: json_print_long_def)

lemma emits_ulong: "emits (json_print_ulong k n) [(k, JNum (int n))]"
  by (rule emits_field) (simp add: json_print_ulong_def dec_int_def)

lemma json_puts_plain: "list_all isdigit_c s \<Longrightarrow> json_puts_escaped s = s"
  by (induction s) (auto simp: json_puts_escaped_def json_esc_char_def isdigit_c_def)

lemma emits_uint64: "emits (json_print_uint64_str k w) [(k, JStr (dec_str (unat w)))]"
  by (rule emits_field) (simp add: json_print_uint64_str_def jquote_def json_puts_plain dec_str_digits)

lemma emits_char: "isprint_c c \<Longrightarrow> emits (json_print_char k c) [(k, JStr [c])]"
  by (rule emits_field)
    (auto simp: json_print_char_def jquote_def json_puts_escaped_def json_esc_char_def isprint_c_def schar_def)

lemma access_lock_print: "isprint_c (access_to_char a)" "isprint_c (lock_to_char k)"
  by (cases a; simp add: isprint_c_def) (cases k; simp add: isprint_c_def)

definition opt_field :: "bool \<Rightarrow> cstring \<Rightarrow> json \<Rightarrow> (cstring \<times> json) list" where
  "opt_field b k v = (if b then [(k, v)] else [])"

lemmas emits_fields = emits_str emits_int emits_long emits_ulong emits_uint64 emits_char [OF access_lock_print(1)]
  emits_char [OF access_lock_print(2)]

lemma emits_jif_field: "emits f [(k, v)] \<Longrightarrow> emits (jif b f) (opt_field b k v)"
  using emits_jif [of f "[(k, v)]" b] by (simp add: opt_field_def)

text \<open>A chain of conditional writers emits the fields whose conditions hold, in order.\<close>

fun jchain :: "(bool \<times> (jout \<Rightarrow> jout) \<times> cstring \<times> json) list \<Rightarrow> jout \<Rightarrow> jout" where
  "jchain [] o1 = o1"
| "jchain ((b, f, k, v) # fs) o1 = jchain fs (jif b f o1)"

definition jchain_members :: "(bool \<times> (jout \<Rightarrow> jout) \<times> cstring \<times> json) list \<Rightarrow> (cstring \<times> json) list" where
  "jchain_members fs = concat (map (\<lambda>(b, f, k, v). opt_field b k v) fs)"

lemma jchain_emits:
  "list_all (\<lambda>(b, f, k, v). emits f [(k, v)]) fs \<Longrightarrow> emits (jchain fs) (jchain_members fs)"
proof (induction fs)
  case Nil
  then show ?case using emits_id by (simp add: emits_def jchain_members_def fun_eq_iff)
next
  case (Cons x fs)
  obtain b f k v where x: "x = (b, f, k, v)" by (cases x)
  have "emits (jif b f) (opt_field b k v)" using Cons.prems x by (simp add: emits_jif_field)
  from emits_comp [OF this Cons.IH] Cons.prems show ?case
    by (simp add: x jchain_members_def emits_def fun_eq_iff)
qed

subsection \<open>The members of files and processes\<close>

definition file_members :: "jopts \<Rightarrow> lfile \<Rightarrow> cstring \<Rightarrow> (cstring \<times> json) list" where
  "file_members opts l flags =
    (let st = field_st opts; dev = skip_blanks (case lf_dev_ch l of None \<Rightarrow> [] | Some s \<Rightarrow> s); pr = skip_blanks (lf_iproto l) in
     opt_field (st LSOF_FIX_FD) ''fd'' (JStr (json_fd l))
     @ opt_field (st LSOF_FIX_ACCESS \<and> access_to_char (lf_access l) \<noteq> CHR '' '') ''access'' (JStr [access_to_char (lf_access l)])
     @ opt_field (st LSOF_FIX_LOCK \<and> lock_to_char (lf_lock l) \<noteq> CHR '' '') ''lock'' (JStr [lock_to_char (lf_lock l)])
     @ opt_field (st LSOF_FIX_TYPE \<and> lf_type l \<noteq> 0) ''type'' (JStr (file_type_to_string (lf_type l) (lf_unk_type l) TYPEL))
     @ opt_field (st LSOF_FIX_DEVCH \<and> dev \<noteq> []) ''device'' (JStr dev)
     @ opt_field (st LSOF_FIX_DEVN \<and> lf_dev_def l) ''device_number'' (JStr (hex0x (lf_dev l)))
     @ opt_field (st LSOF_FIX_RDEV \<and> lf_rdev_def l) ''raw_device'' (JStr (hex0x (lf_rdev l)))
     @ opt_field (st LSOF_FIX_SIZE \<and> lf_sz_def l) ''size'' (JStr (dec_str (unat (lf_sz l))))
     @ opt_field (st LSOF_FIX_OFFSET \<and> lf_off_def l) ''offset'' (JStr (dec_str (unat (lf_off l))))
     @ opt_field (st LSOF_FIX_INODE \<and> lf_inp_ty l = 1) ''inode'' (JStr (dec_str (unat (lf_inode l))))
     @ opt_field (st LSOF_FIX_NLINK \<and> lf_nlink_def l) ''nlink'' (JNum (lf_nlink l))
     @ opt_field (st LSOF_FIX_PROTO \<and> lf_inp_ty l = 2 \<and> pr \<noteq> []) ''protocol'' (JStr pr)
     @ opt_field (json_fg opts l) ''flags'' (JStr flags)
     @ opt_field (st LSOF_FIX_NAME \<and> lf_nm l \<noteq> None) ''name'' (JStr (the (lf_nm l))))"

definition file_chain :: "jopts \<Rightarrow> lfile \<Rightarrow> cstring \<Rightarrow> (bool \<times> (jout \<Rightarrow> jout) \<times> cstring \<times> json) list" where
  "file_chain opts l flags =
    (let st = field_st opts; dev = skip_blanks (case lf_dev_ch l of None \<Rightarrow> [] | Some s \<Rightarrow> s); pr = skip_blanks (lf_iproto l) in
     [(st LSOF_FIX_FD, json_print_str ''fd'' (json_fd l), ''fd'', JStr (json_fd l)),
      (st LSOF_FIX_ACCESS \<and> access_to_char (lf_access l) \<noteq> CHR '' '', json_print_char ''access'' (access_to_char (lf_access l)), ''access'', JStr [access_to_char (lf_access l)]),
      (st LSOF_FIX_LOCK \<and> lock_to_char (lf_lock l) \<noteq> CHR '' '', json_print_char ''lock'' (lock_to_char (lf_lock l)), ''lock'', JStr [lock_to_char (lf_lock l)]),
      (st LSOF_FIX_TYPE \<and> lf_type l \<noteq> 0, json_print_str ''type'' (file_type_to_string (lf_type l) (lf_unk_type l) TYPEL), ''type'', JStr (file_type_to_string (lf_type l) (lf_unk_type l) TYPEL)),
      (st LSOF_FIX_DEVCH \<and> dev \<noteq> [], json_print_str ''device'' dev, ''device'', JStr dev),
      (st LSOF_FIX_DEVN \<and> lf_dev_def l, json_print_str ''device_number'' (hex0x (lf_dev l)), ''device_number'', JStr (hex0x (lf_dev l))),
      (st LSOF_FIX_RDEV \<and> lf_rdev_def l, json_print_str ''raw_device'' (hex0x (lf_rdev l)), ''raw_device'', JStr (hex0x (lf_rdev l))),
      (st LSOF_FIX_SIZE \<and> lf_sz_def l, json_print_uint64_str ''size'' (lf_sz l), ''size'', JStr (dec_str (unat (lf_sz l)))),
      (st LSOF_FIX_OFFSET \<and> lf_off_def l, json_print_uint64_str ''offset'' (lf_off l), ''offset'', JStr (dec_str (unat (lf_off l)))),
      (st LSOF_FIX_INODE \<and> lf_inp_ty l = 1, json_print_uint64_str ''inode'' (lf_inode l), ''inode'', JStr (dec_str (unat (lf_inode l)))),
      (st LSOF_FIX_NLINK \<and> lf_nlink_def l, json_print_long ''nlink'' (lf_nlink l), ''nlink'', JNum (lf_nlink l)),
      (st LSOF_FIX_PROTO \<and> lf_inp_ty l = 2 \<and> pr \<noteq> [], json_print_str ''protocol'' pr, ''protocol'', JStr pr),
      (json_fg opts l, json_print_str ''flags'' flags, ''flags'', JStr flags),
      (st LSOF_FIX_NAME \<and> lf_nm l \<noteq> None, json_print_str ''name'' (the (lf_nm l)), ''name'', JStr (the (lf_nm l)))])"

lemma json_file_fields_emits: "emits (json_file_fields opts l flags) (file_members opts l flags)"
proof -
  have "json_file_fields opts l flags = jchain (file_chain opts l flags)"
    by (rule ext) (simp only: json_file_fields_def file_chain_def Let_def jchain.simps)
  moreover have "file_members opts l flags = jchain_members (file_chain opts l flags)"
    by (simp only: file_members_def file_chain_def jchain_members_def Let_def list.map concat.simps prod.case append_Nil2)
  moreover have "list_all (\<lambda>(b, f, k, v). emits f [(k, v)]) (file_chain opts l flags)"
    by (simp only: file_chain_def Let_def list.pred_inject prod.case emits_fields simp_thms)
  ultimately show ?thesis using jchain_emits by metis
qed

definition tcp_members :: "jopts \<Rightarrow> ltstate \<Rightarrow> ip_ctx \<Rightarrow> (cstring \<times> json) list" where
  "tcp_members opts lts c =
    (case (if o_ftcptpi opts AND TCPTPI_STATE \<noteq> 0 then json_state lts c else None) of
       None \<Rightarrow> [] | Some st \<Rightarrow> [(''state'', JStr st)])
    @ opt_field (o_ftcptpi opts AND TCPTPI_QUEUES \<noteq> 0 \<and> lt_rqs lts) ''recv_queue'' (JNum (int (lt_rq lts)))
    @ opt_field (o_ftcptpi opts AND TCPTPI_QUEUES \<noteq> 0 \<and> lt_sqs lts) ''send_queue'' (JNum (int (lt_sq lts)))"

lemma emits_eq: "emits f ms \<Longrightarrow> f o1 = emitted ms o1"
  by (simp add: emits_def)

lemma emitted_Nil [simp]: "emitted [] o1 = o1"
  by (simp add: emitted_def)

lemma json_tcp_fields_emits: "json_tcp_fields opts lts c o1 = emitted (tcp_members opts lts c) o1"
  unfolding json_tcp_fields_def tcp_members_def Let_def
  by (cases "if o_ftcptpi opts AND TCPTPI_STATE \<noteq> 0 then json_state lts c else None")
    (simp_all only: option.case emits_eq [OF emits_jif_field [OF emits_ulong]] emits_eq [OF emits_str] emitted_append append_Nil append_assoc)

lemma json_puts_keys: "json_puts_escaped ''tcp_info'' = ''tcp_info''" "json_puts_escaped ''files'' = ''files''"
  "json_puts_escaped ''lsof_version'' = ''lsof_version''" "json_puts_escaped ''processes'' = ''processes''"
  by (simp_all add: json_puts_escaped_def json_esc_char_def)

lemma json_tcp_info_emits: "json_tcp_info opts lts c o1 = emitted [(''tcp_info'', JObj (tcp_members opts lts c))] o1"
  unfolding json_tcp_info_def json_tcp_fields_emits
  by (simp add: emitted_def member_def jquote_def render_obj json_puts_keys case_prod_unfold del: render.simps)

text \<open>The state tables: not built yet, or with the names \<open>build_IPstates\<close> gives them.\<close>

definition same_names :: "proto_tab \<Rightarrow> proto_tab \<Rightarrow> bool" where
  "same_names t u \<longleftrightarrow> pt_st t = pt_st u \<and> pt_n t = pt_n u \<and> pt_off t = pt_off u"

definition ip_built :: ip_ctx where
  "ip_built = \<lparr> ip_tcp = tcp_built, ip_udp = udp_built \<rparr>"

definition ip_named :: "ip_ctx \<Rightarrow> bool" where
  "ip_named c \<longleftrightarrow> same_names (ip_tcp c) tcp_built \<and> same_names (ip_udp c) udp_built"

lemma st_name_same: "same_names t u \<Longrightarrow> st_name t s = st_name u s"
  by (simp add: st_name_def same_names_def tab_list_def Let_def)

lemma json_state_named: "ip_named c \<Longrightarrow> json_state lts c = json_state lts ip_built"
  using st_name_same [of "ip_tcp c" tcp_built] st_name_same [of "ip_udp c" udp_built]
  by (simp add: json_state_def ip_named_def ip_built_def)

lemma json_states_ready_named:
  assumes "c = ip_new \<or> ip_named c"
  shows "\<exists>c'. json_states_ready junk lts c = Done c' \<and> ip_named c'"
proof -
  have b: "pt_n tcp_built \<noteq> 0" "pt_st udp_built \<noteq> None" "ip_named ip_built"
    by (simp_all add: tcp_built_def udp_built_def ip_named_def same_names_def ip_built_def)
  have new: "pt_n (ip_tcp ip_new) = 0" by (simp add: ip_new_def proto_new_def)
  show ?thesis
  proof (cases "c = ip_new")
    case True
    have "json_states_ready junk lts ip_new = Done ip_built"
      by (simp only: json_states_ready_def new build_IPstates_new if_True run.case ip_built_def) (simp add: b(2))
    then show ?thesis using b(3) True by blast
  next
    case False
    then have "ip_named c" using assms by simp
    then have "json_states_ready junk lts c = Done c"
      using b(1,2) by (auto simp: json_states_ready_def ip_named_def same_names_def)
    then show ?thesis using \<open>ip_named c\<close> by blast
  qed
qed

definition js_good :: "pw_env \<Rightarrow> jst \<Rightarrow> bool" where
  "js_good env st \<longleftrightarrow> uid_good env (js_uid st) \<and> (js_ip st = ip_new \<or> ip_named (js_ip st))"

definition file_all :: "jopts \<Rightarrow> lfile \<Rightarrow> (cstring \<times> json) list" where
  "file_all opts l =
    file_members opts l (fst (print_fflags (o_fsvflagx opts) (long (lf_ffg l)) (long (lf_pof l)) None))
    @ opt_field (0 \<le> lt_type (lf_lts l) \<and> field_st opts LSOF_FIX_TCPTPI) ''tcp_info'' (JObj (tcp_members opts (lf_lts l) ip_built))"

lemma file_members_flags:
  "(json_fg opts l \<Longrightarrow> f = g) \<Longrightarrow> file_members opts l f = file_members opts l g"
  by (cases "json_fg opts l") (simp_all add: file_members_def opt_field_def Let_def)

lemma tcp_members_named: "ip_named c \<Longrightarrow> tcp_members opts lts c = tcp_members opts lts ip_built"
  by (simp add: tcp_members_def json_state_named)

lemma tcp_members_unused:
  "o_ftcptpi opts AND TCPTPI_STATE = 0 \<Longrightarrow> tcp_members opts lts c = tcp_members opts lts ip_built"
  by (simp add: tcp_members_def)

lemma json_tcp_ready:
  assumes "c0 = ip_new \<or> ip_named c0"
  shows "\<exists>c. (if o_ftcptpi opts AND TCPTPI_STATE \<noteq> 0 then json_states_ready junk lts c0 else Done c0) = Done c
    \<and> (c = ip_new \<or> ip_named c) \<and> tcp_members opts lts c = tcp_members opts lts ip_built"
proof (cases "o_ftcptpi opts AND TCPTPI_STATE = 0")
  case True
  have "(if o_ftcptpi opts AND TCPTPI_STATE \<noteq> 0 then json_states_ready junk lts c0 else Done c0) = Done c0"
    using True by simp
  then show ?thesis by (intro exI [of _ c0] conjI assms tcp_members_unused [OF True])
next
  case False
  obtain c where c: "json_states_ready junk lts c0 = Done c" "ip_named c"
    using json_states_ready_named [OF assms] by blast
  have "c = ip_new \<or> ip_named c" using c(2) by (rule disjI2)
  moreover have "(if o_ftcptpi opts AND TCPTPI_STATE \<noteq> 0 then json_states_ready junk lts c0 else Done c0) = Done c"
    using False c(1) by simp
  moreover have "tcp_members opts lts c = tcp_members opts lts ip_built" by (rule tcp_members_named [OF c(2)])
  ultimately show ?thesis by blast
qed

lemma json_print_file_emits:
  assumes good: "js_good env st"
  shows "\<exists>st'. json_print_file opts junk l o1 st = Done (emitted (file_all opts l) o1, st') \<and> js_good env st'"
proof -
  define fl where "fl = (if json_fg opts l
     then print_fflags (o_fsvflagx opts) (long (lf_ffg l)) (long (lf_pof l)) (js_bp st) else ([], js_bp st))"
  define ms where "ms = file_members opts l (fst (print_fflags (o_fsvflagx opts) (long (lf_ffg l)) (long (lf_pof l)) None))"
  have "fst fl = fst (print_fflags (o_fsvflagx opts) (long (lf_ffg l)) (long (lf_pof l)) None)" if "json_fg opts l"
  proof -
    have "o_fsvflagx opts \<or> long (lf_ffg l) \<noteq> 0 \<or> long (lf_pof l) \<noteq> 0" using that by (simp add: json_fg_def)
    from print_fflags_fresh [OF this, of "js_bp st"] that show ?thesis by (simp only: fl_def if_True)
  qed
  then have "file_members opts l (fst fl) = ms" unfolding ms_def by (rule file_members_flags)
  then have o2: "json_file_fields opts l (fst fl) o1 = emitted ms o1"
    using emits_eq [OF json_file_fields_emits] by simp
  define st1 where "st1 = st\<lparr> js_bp := snd fl \<rparr>"
  have good1: "js_good env st1" and ip1: "js_ip st1 = js_ip st" using good by (simp_all add: st1_def js_good_def)
  let ?T = "0 \<le> lt_type (lf_lts l) \<and> field_st opts LSOF_FIX_TCPTPI"
  have pf: "json_print_file opts junk l o1 st =
    (if ?T then
       (case (if o_ftcptpi opts AND TCPTPI_STATE \<noteq> 0 then json_states_ready junk (lf_lts l) (js_ip st1) else Done (js_ip st1)) of
          Exited v \<Rightarrow> Exited v
        | Done c \<Rightarrow> Done (json_tcp_info opts (lf_lts l) c (emitted ms o1), st1\<lparr> js_ip := c \<rparr>))
     else Done (emitted ms o1, st1))"
    unfolding json_print_file_def fl_def [symmetric] Let_def case_prod_unfold o2 st1_def [symmetric] by (rule refl)
  have "js_ip st1 = ip_new \<or> ip_named (js_ip st1)" using good1 by (simp add: js_good_def)
  from json_tcp_ready [OF this, of opts junk "lf_lts l"] obtain c
    where c: "(if o_ftcptpi opts AND TCPTPI_STATE \<noteq> 0 then json_states_ready junk (lf_lts l) (js_ip st1) else Done (js_ip st1)) = Done c"
      and ip: "c = ip_new \<or> ip_named c" and n: "tcp_members opts (lf_lts l) c = tcp_members opts (lf_lts l) ip_built" by blast
  have good2: "js_good env (st1\<lparr> js_ip := c \<rparr>)" using good1 ip by (simp add: js_good_def)
  show ?thesis
  proof (cases ?T)
    case True
    have "json_print_file opts junk l o1 st = Done (emitted (file_all opts l) o1, st1\<lparr> js_ip := c \<rparr>)"
      unfolding pf c run.case json_tcp_info_emits n emitted_append
      by (simp only: if_P [OF True] opt_field_def file_all_def ms_def [symmetric])
    then show ?thesis using good2 by blast
  next
    case False
    have "json_print_file opts junk l o1 st = Done (emitted (file_all opts l) o1, st1)"
      unfolding pf by (simp only: if_not_P [OF False] opt_field_def file_all_def ms_def [symmetric] append_Nil2)
    then show ?thesis using good1 by blast
  qed
qed

definition login_members :: "jopts \<Rightarrow> pw_env \<Rightarrow> int \<Rightarrow> (cstring \<times> json) list" where
  "login_members opts env uid =
    (if field_st opts LSOF_FIX_LOGIN \<and> o_futol opts then
       (case getpwuid env uid of Some nm \<Rightarrow> [(''login'', JStr (take LOGINML nm))] | None \<Rightarrow> [])
     else [])"

definition proc_members :: "jopts \<Rightarrow> pw_env \<Rightarrow> lproc \<Rightarrow> (cstring \<times> json) list" where
  "proc_members opts env p =
    (let fs = field_st opts in
     opt_field (fs LSOF_FIX_PID) ''pid'' (JNum (lp_pid p))
     @ opt_field (fs LSOF_FIX_TID \<and> lp_tid p \<noteq> 0) ''tid'' (JNum (lp_tid p))
     @ opt_field (fs LSOF_FIX_TCMD \<and> lp_tcmd p \<noteq> None) ''task_cmd'' (JStr (the (lp_tcmd p)))
     @ opt_field (fs LSOF_FIX_PGID \<and> o_fpgid opts) ''pgid'' (JNum (lp_pgid p))
     @ opt_field (fs LSOF_FIX_PPID \<and> o_fppid opts) ''ppid'' (JNum (lp_ppid p))
     @ opt_field (fs LSOF_FIX_CMD) ''command'' (JStr (lp_cmd p))
     @ opt_field (fs LSOF_FIX_UID) ''uid'' (JNum (s32 (lp_uid p)))
     @ login_members opts env (lp_uid p))"

lemma printuid_login:
  assumes "uid_good env u"
  shows "\<exists>nm num u'. printuid futol env uid u = Done ((nm, num), u') \<and> uid_good env u'
    \<and> (\<not> num \<longrightarrow> futol \<and> (\<exists>n. getpwuid env uid = Some n \<and> nm = take LOGINML n))
    \<and> (num \<longrightarrow> futol \<longrightarrow> getpwuid env uid = None)"
proof (cases futol)
  case True
  obtain u' where "printuid True env uid u = Done (uid_text (getpwuid env) uid, u')" "uid_good env u'"
    using printuid_good [OF assms] by blast
  then show ?thesis using True by (auto simp: uid_text_def split: option.splits)
next
  case False
  then show ?thesis using assms by (auto simp: printuid_def)
qed

lemma json_print_proc_fields_emits:
  assumes good: "js_good env st"
  shows "\<exists>st'. json_print_proc_fields opts env p o1 st = Done (emitted (proc_members opts env p) o1, st') \<and> js_good env st'"
proof -
  note W = emits_eq [OF emits_jif_field [OF emits_int]] emits_eq [OF emits_jif_field [OF emits_str]]
  obtain nm num u where pu: "printuid (o_futol opts) env (lp_uid p) (js_uid st) = Done ((nm, num), u)"
    and u: "uid_good env u"
    and yes: "\<not> num \<Longrightarrow> o_futol opts \<and> (\<exists>n. getpwuid env (lp_uid p) = Some n \<and> nm = take LOGINML n)"
    and no: "num \<Longrightarrow> o_futol opts \<Longrightarrow> getpwuid env (lp_uid p) = None"
    using printuid_login [of env "js_uid st" "o_futol opts" "lp_uid p"] good by (auto simp: js_good_def)
  show ?thesis
  proof (cases "field_st opts LSOF_FIX_LOGIN")
    case True
    have lm: "login_members opts env (lp_uid p) = opt_field (\<not> num) ''login'' (JStr nm)"
      using True yes no by (cases num) (auto simp: login_members_def opt_field_def)
    have "json_print_proc_fields opts env p o1 st = Done (emitted (proc_members opts env p) o1, st\<lparr> js_uid := u \<rparr>)"
      unfolding json_print_proc_fields_def proc_members_def Let_def if_P [OF True] pu run.case prod.case lm
      by (simp only: W emitted_append append_assoc)
    moreover have "js_good env (st\<lparr> js_uid := u \<rparr>)" using good u by (simp add: js_good_def)
    ultimately show ?thesis by blast
  next
    case False
    then have lm: "login_members opts env (lp_uid p) = []" by (simp add: login_members_def)
    have "json_print_proc_fields opts env p o1 st = Done (emitted (proc_members opts env p) o1, st)"
      unfolding json_print_proc_fields_def proc_members_def Let_def if_not_P [OF False] lm
      by (simp only: W emitted_append append_assoc append_Nil2)
    then show ?thesis using good by blast
  qed
qed

definition file_json :: "jopts \<Rightarrow> lfile \<Rightarrow> json" where
  "file_json opts l = JObj (file_all opts l)"

definition sel_files :: "lsof_context \<Rightarrow> lproc \<Rightarrow> lfile list" where
  "sel_files ctx p = filter (\<lambda>l. is_file_sel ctx (Some l)) (lp_file p)"

definition listed :: "lsof_context \<Rightarrow> lproc \<Rightarrow> bool" where
  "listed ctx p \<longleftrightarrow> lp_pss p \<noteq> 0 \<and> sel_files ctx p \<noteq> []"

definition proc_json :: "jopts \<Rightarrow> pw_env \<Rightarrow> lsof_context \<Rightarrow> lproc \<Rightarrow> json" where
  "proc_json opts env ctx p =
    JObj (proc_members opts env p @ [(''files'', JArr (map (file_json opts) (sel_files ctx p)))])"

lemma commas_snoc: "commas (xs @ [x]) = commas xs @ (if xs = [] then [] else '','') @ x"
  by (simp add: commas_append)

lemma emitted_obj: "''{'' @ fst (emitted ms ([], False)) @ ''}'' = render (JObj ms)"
  by (simp add: emitted_def render_obj del: render.simps)

lemma json_files_render:
  assumes "js_good env st"
  shows "\<exists>st'. json_files opts junk ls (commas (map render vs), vs = []) st
      = Done ((commas (map render (vs @ map (file_json opts) ls)), vs = [] \<and> ls = []), st') \<and> js_good env st'"
  using assms
proof (induction ls arbitrary: vs st)
  case Nil
  then show ?case by simp
next
  case (Cons l ls)
  obtain st1 where f: "json_print_file opts junk l ([], False) st = Done (emitted (file_all opts l) ([], False), st1)"
    and g: "js_good env st1" using json_print_file_emits [OF Cons.prems] by blast
  have c: "commas (map render vs) @ (if vs = [] then [] else '','') @ ''{'' @ fst (emitted (file_all opts l) ([], False)) @ ''}''
      = commas (map render (vs @ [file_json opts l]))"
    unfolding emitted_obj file_json_def [symmetric] by (simp add: commas_snoc)
  have "json_files opts junk (l # ls) (commas (map render vs), vs = []) st
      = json_files opts junk ls (commas (map render (vs @ [file_json opts l])), vs @ [file_json opts l] = []) st1"
    by (simp only: json_files.simps f run.case prod.case fst_conv snd_conv c) simp
  with Cons.IH [OF g, of "vs @ [file_json opts l]"] show ?case by auto
qed

lemma json_lines_render:
  assumes "js_good env st"
  shows "\<exists>st'. json_lines opts junk env p ls st
      = Done (concat (map (\<lambda>l. render (JObj (proc_members opts env p @ file_all opts l)) @ [nl]) ls), st') \<and> js_good env st'"
  using assms
proof (induction ls arbitrary: st)
  case Nil
  then show ?case by simp
next
  case (Cons l ls)
  obtain st1 where p1: "json_print_proc_fields opts env p ([], False) st = Done (emitted (proc_members opts env p) ([], False), st1)"
    and g1: "js_good env st1" using json_print_proc_fields_emits [OF Cons.prems] by blast
  obtain st2 where f: "json_print_file opts junk l (emitted (proc_members opts env p) ([], False)) st1
      = Done (emitted (proc_members opts env p @ file_all opts l) ([], False), st2)"
    and g2: "js_good env st2" using json_print_file_emits [OF g1] by (metis emitted_append)
  obtain st3 where r: "json_lines opts junk env p ls st2
      = Done (concat (map (\<lambda>l. render (JObj (proc_members opts env p @ file_all opts l)) @ [nl]) ls), st3)"
    and g3: "js_good env st3" using Cons.IH [OF g2] by blast
  have "''{'' @ fst (emitted ms ([], False)) @ ''}'' @ [nl] @ s = render (JObj ms) @ [nl] @ s" for ms s
    using emitted_obj [of ms] by (metis append_assoc)
  then show ?case using g3
    by (simp only: json_lines.simps p1 run.case prod.case f r list.map concat.simps append_assoc) blast
qed

lemma print_proc_json_nested:
  assumes good: "js_good env st" and l: "listed ctx p"
  shows "\<exists>st'. print_proc_json opts False junk env ctx p first st
      = Done (True, (if first then [] else '','') @ render (proc_json opts env ctx p), False, st') \<and> js_good env st'"
proof -
  let ?fs = "sel_files ctx p" let ?ms = "proc_members opts env p"
  have c: "\<not> (lp_pss p = 0 \<or> ?fs = [])" using l by (simp add: listed_def)
  obtain st1 where p1: "json_print_proc_fields opts env p ([], False) st = Done (emitted ?ms ([], False), st1)"
    and g1: "js_good env st1" using json_print_proc_fields_emits [OF good] by blast
  obtain st2 b where f: "json_files opts junk ?fs ([], True) st1 = Done ((commas (map render (map (file_json opts) ?fs)), b), st2)"
    and g2: "js_good env st2" using json_files_render [OF g1, of opts junk ?fs "[]"] by auto
  have "''{'' @ fst (emitted ?ms ([], False)) @ (if snd (emitted ?ms ([], False)) then '','' else []) @ [dq] @ ''files'' @ [dq]
      @ '':['' @ commas (map render (map (file_json opts) ?fs)) @ '']}'' = render (proc_json opts env ctx p)"
    unfolding proc_json_def render_obj
    by (simp add: commas_snoc emitted_def member_def jquote_def json_puts_keys)
  then have "print_proc_json opts False junk env ctx p first st
      = Done (True, (if first then [] else '','') @ render (proc_json opts env ctx p), False, st2)"
    unfolding print_proc_json_def sel_files_def [symmetric] Let_def if_not_P [OF c] p1
    by (simp only: not_False_eq_True if_True run.case prod.case f fst_conv)
  then show ?thesis using g2 by blast
qed

lemma print_procs_json_nested:
  assumes "js_good env st"
  shows "\<exists>st'. print_procs_json opts False junk env ctx ps first st
      = Done ((if first \<or> filter (listed ctx) ps = [] then [] else '','')
          @ commas (map render (map (proc_json opts env ctx) (filter (listed ctx) ps))), st') \<and> js_good env st'"
  using assms
proof (induction ps arbitrary: first st)
  case Nil
  then show ?case by simp
next
  case (Cons p ps)
  show ?case
  proof (cases "listed ctx p")
    case True
    obtain st1 where p1: "print_proc_json opts False junk env ctx p first st
        = Done (True, (if first then [] else '','') @ render (proc_json opts env ctx p), False, st1)" and g: "js_good env st1"
      using print_proc_json_nested [OF Cons.prems True] by blast
    show ?thesis using Cons.IH [OF g, of False] True
      by (cases "map (proc_json opts env ctx) (filter (listed ctx) ps)") (auto simp: p1)
  next
    case False
    then have "print_proc_json opts False junk env ctx p first st = Done (False, [], first, st)"
      by (simp add: print_proc_json_def listed_def sel_files_def Let_def)
    then show ?thesis using Cons.IH [OF Cons.prems, of first] False by auto
  qed
qed

lemma print_procs_json_lines:
  assumes "js_good env st"
  shows "\<exists>st'. print_procs_json opts True junk env ctx ps first st
      = Done (concat (map (\<lambda>p. concat (map (\<lambda>l. render (JObj (proc_members opts env p @ file_all opts l)) @ [nl])
          (sel_files ctx p))) (filter (\<lambda>p. lp_pss p \<noteq> 0) ps)), st') \<and> js_good env st'"
  using assms
proof (induction ps arbitrary: st)
  case Nil
  then show ?case by simp
next
  case (Cons p ps)
  obtain st1 where l: "json_lines opts junk env p (sel_files ctx p) st
      = Done (concat (map (\<lambda>l. render (JObj (proc_members opts env p @ file_all opts l)) @ [nl]) (sel_files ctx p)), st1)"
    and g: "js_good env st1" using json_lines_render [OF Cons.prems] by blast
  show ?case
  proof (cases "lp_pss p = 0 \<or> sel_files ctx p = []")
    case True
    then have "print_proc_json opts True junk env ctx p first st = Done (False, [], first, st)"
      unfolding print_proc_json_def sel_files_def [symmetric] Let_def by (simp only: if_True)
    then show ?thesis using Cons.IH [OF Cons.prems] True by auto
  next
    case False
    then have "print_proc_json opts True junk env ctx p first st
        = Done (True, concat (map (\<lambda>l. render (JObj (proc_members opts env p @ file_all opts l)) @ [nl]) (sel_files ctx p)), first, st1)"
      unfolding print_proc_json_def sel_files_def [symmetric] Let_def if_not_P [OF False] l
      by (simp only: not_True_eq_False if_False run.case prod.case)
    then show ?thesis using Cons.IH [OF g] False by auto
  qed
qed

section \<open>Reading the output back\<close>

text \<open>A reference reader for JSON text without blanks; the first argument bounds the nesting.\<close>

definition hex_value :: "char \<Rightarrow> nat" where
  "hex_value c = (if isdigit_c c then byte c - 48 else byte c - 87)"

definition simple_escape :: "char \<Rightarrow> char option" where
  "simple_escape c = map_of [(dq, dq), (bsl, bsl), (CHR ''b'', CHR 0x08), (CHR ''f'', CHR 0x0C),
    (CHR ''n'', CHR 0x0A), (CHR ''r'', CHR 0x0D), (CHR ''t'', CHR 0x09)] c"

function read_str :: "string \<Rightarrow> (cstring \<times> string) option" where
  "read_str s =
    (case s of
       [] \<Rightarrow> None
     | c # r \<Rightarrow>
        if c = dq then Some ([], r)
        else if c \<noteq> bsl then map_option (\<lambda>(t, r'). (c # t, r')) (read_str r)
        else (case r of
            [] \<Rightarrow> None
          | e # r1 \<Rightarrow>
             (case simple_escape e of
                Some d \<Rightarrow> map_option (\<lambda>(t, r'). (d # t, r')) (read_str r1)
              | None \<Rightarrow>
                 if e = CHR ''u'' \<and> 4 \<le> length r1
                 then map_option (\<lambda>(t, r'). (char_of (16 * hex_value (r1 ! 2) + hex_value (r1 ! 3)) # t, r')) (read_str (drop 4 r1))
                 else None)))"
  by pat_completeness auto

termination
  by (relation "measure length") auto

declare read_str.simps [simp del]

definition read_num :: "string \<Rightarrow> (int \<times> string) option" where
  "read_num s =
    (let neg = (s \<noteq> [] \<and> hd s = CHR ''-''); r = (if neg then tl s else s); ds = takeWhile isdigit_c r in
     if ds = [] then None else Some (if neg then - dec_value ds else dec_value ds, dropWhile isdigit_c r))"

fun read_json :: "nat \<Rightarrow> string \<Rightarrow> (json \<times> string) option"
and read_members :: "nat \<Rightarrow> string \<Rightarrow> ((cstring \<times> json) list \<times> string) option"
and read_elems :: "nat \<Rightarrow> string \<Rightarrow> (json list \<times> string) option" where
  "read_json 0 s = None"
| "read_json (Suc n) s =
    (case s of
       [] \<Rightarrow> None
     | c # r \<Rightarrow>
        if c = dq then map_option (\<lambda>(t, r'). (JStr t, r')) (read_str r)
        else if c = CHR ''{'' then
          (if r \<noteq> [] \<and> hd r = CHR ''}'' then Some (JObj [], tl r)
           else map_option (\<lambda>(ms, r'). (JObj ms, r')) (read_members n r))
        else if c = CHR ''['' then
          (if r \<noteq> [] \<and> hd r = CHR '']'' then Some (JArr [], tl r)
           else map_option (\<lambda>(vs, r'). (JArr vs, r')) (read_elems n r))
        else map_option (\<lambda>(i, r'). (JNum i, r')) (read_num s))"
| "read_members 0 s = None"
| "read_members (Suc n) s =
    (if s = [] \<or> hd s \<noteq> dq then None
     else case read_str (tl s) of
       Some (k, c # r) \<Rightarrow>
         if c \<noteq> CHR '':'' then None
         else (case read_json n r of
             Some (v, d # r') \<Rightarrow>
               if d = CHR ''}'' then Some ([(k, v)], r')
               else if d = CHR '','' then map_option (\<lambda>(ms, r2). ((k, v) # ms, r2)) (read_members n r')
               else None
           | _ \<Rightarrow> None)
     | _ \<Rightarrow> None)"
| "read_elems 0 s = None"
| "read_elems (Suc n) s =
    (case read_json n s of
       Some (v, d # r') \<Rightarrow>
         if d = CHR '']'' then Some ([v], r')
         else if d = CHR '','' then map_option (\<lambda>(vs, r2). (v # vs, r2)) (read_elems n r')
         else None
     | _ \<Rightarrow> None)"

lemma hex_value_digit: "n < 16 \<Longrightarrow> hex_value (hex_digit n) = n"
  by (auto simp: hex_value_def hex_digit_def isdigit_c_def)

lemma hex_value_hex2:
  assumes "byte c < 32"
  shows "char_of (16 * hex_value (hex_digit (byte c div 16 mod 16)) + hex_value (hex_digit (byte c mod 16))) = c"
proof -
  have "16 * (byte c div 16 mod 16) + byte c mod 16 = byte c"
  proof -
    have "byte c div 16 mod 16 = byte c div 16" using assms by simp
    then show ?thesis by simp
  qed
  then show ?thesis by (simp add: hex_value_digit)
qed

lemma simple_escape_u: "simple_escape (CHR ''u'') = None"
  by (simp add: simple_escape_def)

lemma simple_escapes:
  "simple_escape dq = Some dq" "simple_escape bsl = Some bsl" "simple_escape (CHR ''b'') = Some (CHR 0x08)"
  "simple_escape (CHR ''f'') = Some (CHR 0x0C)" "simple_escape (CHR ''n'') = Some (CHR 0x0A)"
  "simple_escape (CHR ''r'') = Some (CHR 0x0D)" "simple_escape (CHR ''t'') = Some (CHR 0x09)"
  by (simp_all add: simple_escape_def)

lemma read_str_simple:
  "simple_escape e = Some d \<Longrightarrow> read_str ([bsl, e] @ r) = map_option (\<lambda>(t, r'). (d # t, r')) (read_str r)"
  by (subst read_str.simps) simp

lemma read_str_hex:
  assumes "byte c < 32"
  shows "read_str (([bsl, CHR ''u'', CHR ''0'', CHR ''0''] @ hex2 (byte c)) @ r) = map_option (\<lambda>(t, r'). (c # t, r')) (read_str r)"
  using hex_value_hex2 [OF assms]
  by (subst read_str.simps) (simp add: simple_escape_u hex2_def numeral_2_eq_2 numeral_3_eq_3)

lemma read_str_plain: "c \<noteq> dq \<Longrightarrow> c \<noteq> bsl \<Longrightarrow> read_str ([c] @ r) = map_option (\<lambda>(t, r'). (c # t, r')) (read_str r)"
  by (subst read_str.simps) simp

lemma ctl_chars:
  "byte c = 8 \<longleftrightarrow> c = CHR 0x08" "byte c = 12 \<longleftrightarrow> c = CHR 0x0C" "byte c = 10 \<longleftrightarrow> c = CHR 0x0A"
  "byte c = 13 \<longleftrightarrow> c = CHR 0x0D" "byte c = 9 \<longleftrightarrow> c = CHR 0x09"
  using of_char_eq_iff [of c "CHR 0x08", where 'a = nat] of_char_eq_iff [of c "CHR 0x0C", where 'a = nat]
    of_char_eq_iff [of c "CHR 0x0A", where 'a = nat] of_char_eq_iff [of c "CHR 0x0D", where 'a = nat]
    of_char_eq_iff [of c "CHR 0x09", where 'a = nat] by simp_all

lemma read_str_esc_char: "read_str (json_esc_char c @ r) = map_option (\<lambda>(t, r'). (c # t, r')) (read_str r)"
  unfolding json_esc_char_def ctl_chars
  using read_str_hex [of c r] read_str_plain [of c r] read_str_simple [OF simple_escapes(1)] read_str_simple [OF simple_escapes(2)]
    read_str_simple [OF simple_escapes(3)] read_str_simple [OF simple_escapes(4)] read_str_simple [OF simple_escapes(5)]
    read_str_simple [OF simple_escapes(6)] read_str_simple [OF simple_escapes(7)]
  by (simp split del: if_split split: if_split_asm) (simp split: if_split)

lemma read_str_escaped: "read_str (json_puts_escaped s @ dq # rest) = Some (s, rest)"
proof (induction s)
  case Nil
  show ?case by (simp add: json_puts_escaped_def read_str.simps [of "dq # rest"])
next
  case (Cons c s)
  have "json_puts_escaped (c # s) @ dq # rest = json_esc_char c @ json_puts_escaped s @ dq # rest"
    by (simp add: json_puts_escaped_def)
  then show ?case by (simp add: read_str_esc_char Cons.IH)
qed

lemma read_num_dec_int:
  assumes "rest = [] \<or> \<not> isdigit_c (hd rest)"
  shows "read_num (dec_int i @ rest) = Some (i, rest)"
proof -
  have tw: "takeWhile isdigit_c (dec_str n @ rest) = dec_str n" "dropWhile isdigit_c (dec_str n @ rest) = rest" for n
    using assms dec_str_digit [of _ n] by (cases rest; auto simp: takeWhile_append dropWhile_append)+
  have "hd (dec_str n @ rest) \<noteq> CHR ''-''" for n
    using dec_str_hd [of n] by (auto simp: isdigit_c_def)
  then show ?thesis by (auto simp: read_num_def dec_int_def tw Let_def)
qed

fun jsize :: "json \<Rightarrow> nat" where
  "jsize (JStr s) = 1"
| "jsize (JNum i) = 1"
| "jsize (JObj ms) = 1 + sum_list (map (\<lambda>(k, v). 1 + jsize v) ms)"
| "jsize (JArr vs) = 1 + sum_list (map (\<lambda>v. 1 + jsize v) vs)"

lemma dec_int_hd: "\<exists>c t. dec_int i = c # t \<and> c \<notin> {dq, CHR ''{'', CHR ''['', CHR '']'', CHR ''}'', CHR '',''}"
proof -
  have nd: "isdigit_c c \<Longrightarrow> c \<notin> {dq, CHR ''{'', CHR ''['', CHR '']'', CHR ''}'', CHR '',''}" for c
    by (auto simp: isdigit_c_def)
  obtain d s where "dec_str (nat i) = d # s" "isdigit_c d"
    using dec_str_hd [of "nat i"] dec_str_nonempty [of "nat i"] by (metis list.exhaust_sel)
  then show ?thesis using nd [of d] by (cases "i < 0") (simp_all add: dec_int_def)
qed

lemma render_hd: "\<exists>c s. render v = c # s \<and> c \<notin> {CHR '']'', CHR ''}'', CHR '',''}"
  using dec_int_hd by (cases v) (fastforce simp: jquote_def)+

definition reads :: "json \<Rightarrow> bool" where
  "reads v \<longleftrightarrow> (\<forall>n rest. jsize v \<le> n \<longrightarrow> (rest = [] \<or> \<not> isdigit_c (hd rest)) \<longrightarrow> read_json n (render v @ rest) = Some (v, rest))"

lemma readsD: "reads v \<Longrightarrow> jsize v \<le> n \<Longrightarrow> \<not> isdigit_c c \<Longrightarrow> read_json n (render v @ c # rest) = Some (v, c # rest)"
  by (simp add: reads_def)

lemma not_digits: "\<not> isdigit_c (CHR '','')" "\<not> isdigit_c (CHR '']'')" "\<not> isdigit_c (CHR ''}'')" "\<not> isdigit_c nl"
  by (simp_all add: isdigit_c_def)

lemma commas_cons: "xs \<noteq> [] \<Longrightarrow> commas (x # xs) = x @ CHR '','' # commas xs"
  by (cases xs) auto

lemma read_elems_render:
  assumes "\<forall>v \<in> set vs. reads v" "vs \<noteq> []" "sum_list (map (\<lambda>v. 1 + jsize v) vs) \<le> n"
  shows "read_elems n (commas (map render vs) @ CHR '']'' # rest) = Some (vs, rest)"
  using assms
proof (induction vs arbitrary: n)
  case Nil
  then show ?case by simp
next
  case (Cons v vs)
  obtain m where n: "n = Suc m" using Cons.prems(3) by (cases n) auto
  have v: "reads v" "jsize v \<le> m" using Cons.prems n by auto
  show ?case
  proof (cases "vs = []")
    case True
    then show ?thesis using readsD [OF v not_digits(2)] by (simp add: n)
  next
    case False
    then have "read_elems m (commas (map render vs) @ CHR '']'' # rest) = Some (vs, rest)"
      using Cons n by simp
    then show ?thesis using False readsD [OF v not_digits(1)] by (simp add: n commas_cons)
  qed
qed

lemma read_members_render:
  assumes "\<forall>(k, v) \<in> set ms. reads v" "ms \<noteq> []" "sum_list (map (\<lambda>(k, v). 1 + jsize v) ms) \<le> n"
  shows "read_members n (commas (map member ms) @ CHR ''}'' # rest) = Some (ms, rest)"
  using assms
proof (induction ms arbitrary: n)
  case Nil
  then show ?case by simp
next
  case (Cons x ms)
  obtain k v where x: "x = (k, v)" by (cases x)
  obtain m where n: "n = Suc m" using Cons.prems(3) x by (cases n) auto
  have v: "reads v" "jsize v \<le> m" using Cons.prems n x by auto
  have k: "read_str (json_puts_escaped k @ dq # r) = Some (k, r)" for r by (rule read_str_escaped)
  show ?case
  proof (cases "ms = []")
    case True
    then show ?thesis using readsD [OF v not_digits(3)] k by (simp add: n x member_def jquote_def)
  next
    case False
    then have "read_members m (commas (map member ms) @ CHR ''}'' # rest) = Some (ms, rest)"
      using Cons n x by simp
    then show ?thesis using False readsD [OF v not_digits(1)] k by (simp add: n x commas_cons member_def [of "(k, v)"] jquote_def)
  qed
qed

lemma reads_all: "reads v"
proof (induction v)
  case (JStr s)
  show ?case unfolding reads_def
  proof (intro allI impI)
    fix n rest assume "jsize (JStr s) \<le> n"
    then obtain m where "n = Suc m" by (cases n) auto
    then show "read_json n (render (JStr s) @ rest) = Some (JStr s, rest)" using read_str_escaped [of s rest] by (simp add: jquote_def)
  qed
next
  case (JNum i)
  show ?case unfolding reads_def
  proof (intro allI impI)
    fix n rest assume a: "jsize (JNum i) \<le> n" "rest = [] \<or> \<not> isdigit_c (hd rest)"
    then obtain m where n: "n = Suc m" by (cases n) auto
    obtain c t where c: "dec_int i = c # t" "c \<notin> {dq, CHR ''{'', CHR ''[''}" using dec_int_hd [of i] by auto
    then show "read_json n (render (JNum i) @ rest) = Some (JNum i, rest)"
      using read_num_dec_int [OF a(2), of i] by (simp add: n)
  qed
next
  case (JObj ms)
  have ms: "\<forall>(k, v) \<in> set ms. reads v" using JObj by fastforce
  show ?case unfolding reads_def
  proof (intro allI impI)
    fix n rest assume a: "jsize (JObj ms) \<le> n"
    then obtain m where n: "n = Suc m" "sum_list (map (\<lambda>(k, v). 1 + jsize v) ms) \<le> m" by (cases n) auto
    show "read_json n (render (JObj ms) @ rest) = Some (JObj ms, rest)"
    proof (cases ms)
      case Nil
      then show ?thesis by (simp add: n(1))
    next
      case (Cons x xs)
      then obtain t where "commas (map member ms) = dq # t" by (cases xs) (auto simp: member_def jquote_def)
      then show ?thesis using read_members_render [OF ms _ n(2), of rest] Cons
        unfolding render_obj n(1) by simp
    qed
  qed
next
  case (JArr vs)
  show ?case unfolding reads_def
  proof (intro allI impI)
    fix n rest assume a: "jsize (JArr vs) \<le> n"
    then obtain m where n: "n = Suc m" "sum_list (map (\<lambda>v. 1 + jsize v) vs) \<le> m" by (cases n) auto
    show "read_json n (render (JArr vs) @ rest) = Some (JArr vs, rest)"
    proof (cases vs)
      case Nil
      then show ?thesis by (simp add: n(1))
    next
      case (Cons x xs)
      obtain c t where "render x = c # t" "c \<noteq> CHR '']''" using render_hd [of x] by auto
      then obtain t' where "commas (map render vs) = c # t'" "c \<noteq> CHR '']''" using Cons by (cases xs) auto
      then show ?thesis using read_elems_render [OF _ _ n(2), of rest] JArr Cons by (simp add: n(1))
    qed
  qed
qed

lemma length_commas: "sum_list (map length xs) \<le> length (commas xs)"
  by (induction xs rule: commas.induct) auto

lemma jsize_length: "jsize v \<le> length (render v)"
proof (induction v)
  case (JNum i)
  then show ?case using dec_int_hd [of i] by auto
next
  case (JObj ms)
  have "sum_list (map (\<lambda>(k, v). 1 + jsize v) ms) \<le> sum_list (map length (map member ms))"
    unfolding map_map using JObj
    by (intro sum_list_mono) (fastforce simp: member_def jquote_def trans_le_add2)
  then show ?case using length_commas [of "map member ms"] unfolding render_obj by simp
next
  case (JArr vs)
  have "sum_list (map (\<lambda>v. 1 + jsize v) vs) \<le> length (commas (map render vs)) + 1" using JArr
  proof (induction vs)
    case Nil
    then show ?case by simp
  next
    case (Cons v vs)
    then have "jsize v \<le> length (render v)" "sum_list (map (\<lambda>v. 1 + jsize v) vs) \<le> length (commas (map render vs)) + 1" by auto
    then show ?case by (cases "vs = []") (auto simp: commas_cons)
  qed
  then show ?case by simp
qed (simp add: jquote_def)

lemma read_render: "rest = [] \<or> \<not> isdigit_c (hd rest) \<Longrightarrow> length (render v) \<le> n \<Longrightarrow> read_json n (render v @ rest) = Some (v, rest)"
  using reads_all [of v] jsize_length [of v] by (auto simp: reads_def)

text \<open>No writer puts a control character into the text.\<close>

lemma esc_no_control: "c \<in> set (json_esc_char d) \<Longrightarrow> 32 \<le> byte c"
  using hex2_print [of "byte d"]
  by (auto simp: json_esc_char_def list_all_iff isprint_c_def split: if_splits)

lemma commas_set: "set (commas xs) \<subseteq> insert (CHR '','') (\<Union> (set ` set xs))"
  by (induction xs rule: commas.induct) auto

lemma jquote_no_control: "c \<in> set (jquote s) \<Longrightarrow> 32 \<le> byte c"
  by (auto simp: jquote_def json_puts_escaped_def dest: esc_no_control)

lemma dec_int_no_control: "c \<in> set (dec_int i) \<Longrightarrow> 32 \<le> byte c"
  using dec_str_digit [of c "nat i"] dec_str_digit [of c "nat (- i)"]
  by (auto simp: dec_int_def isdigit_c_def split: if_splits)

lemma render_no_control: "c \<in> set (render v) \<Longrightarrow> 32 \<le> byte c"
proof (induction v arbitrary: c)
  case (JObj ms)
  have "32 \<le> byte d" if "x \<in> set ms" "d \<in> set (member x)" for d x
  proof -
    obtain k w where x: "x = (k, w)" by (cases x)
    show ?thesis using that JObj.IH [of x w d] jquote_no_control [of d k] by (auto simp: x member_def prod_set_simps)
  qed
  then show ?case using JObj.prems commas_set [of "map member ms"] unfolding render_obj by fastforce
next
  case (JArr vs)
  then show ?case using commas_set [of "map render vs"] by fastforce
qed (auto dest: jquote_no_control dec_int_no_control)

subsection \<open>Properties\<close>

text \<open>
  C8: The nested JSON of one listing cycle is well formed and complete.  From any good state the cycle
  ends normally, and a JSON reader finds in its text one object with the version and, for every
  process that has a selected file and only for those, in order, an object with the process's
  selected fields and an array with one object per selected file, in order; every string is read
  back byte by byte as it was.  The login names are those of the password file and the TCP state
  names those of the state table.
\<close>

theorem json_cycle_reads:
  assumes good: "js_good env st" and version: "list_all (\<lambda>c. json_esc_char c = [c]) version"
  shows "\<exists>out st'. json_cycle version opts junk env ctx ps st = Done (out, st') \<and> js_good env st'
    \<and> read_json (length out) out = Some (JObj [(''lsof_version'', JStr version),
        (''processes'', JArr (map (proc_json opts env ctx) (filter (listed ctx) ps)))], [nl])"
proof -
  let ?v = "JObj [(''lsof_version'', JStr version), (''processes'', JArr (map (proc_json opts env ctx) (filter (listed ctx) ps)))]"
  obtain st' where p: "print_procs_json opts False junk env ctx ps True st
      = Done (commas (map render (map (proc_json opts env ctx) (filter (listed ctx) ps))), st')" and g: "js_good env st'"
    using print_procs_json_nested [OF good, of opts junk ctx ps True] by auto
  have "json_puts_escaped version = version" using version by (induction version) (auto simp: json_puts_escaped_def)
  then have "json_open_envelope version @ commas (map render (map (proc_json opts env ctx) (filter (listed ctx) ps))) @ json_close_envelope
      = render ?v @ [nl]"
    unfolding render_obj
    by (simp add: json_open_envelope_def json_close_envelope_def member_def jquote_def json_puts_keys)
  then have c: "json_cycle version opts junk env ctx ps st = Done (render ?v @ [nl], st')"
    unfolding json_cycle_def p run.case prod.case by (rule arg_cong)
  have "read_json (length (render ?v @ [nl])) (render ?v @ [nl]) = Some (?v, [nl])"
    using not_digits(4) by (intro read_render) simp_all
  with c g show ?thesis by blast
qed

definition json_start :: jst where
  "json_start = \<lparr> js_uid = \<lparr> us_uc = None, us_sbs = (0, 0), us_ckpasswd = False \<rparr>, js_ip = ip_new, js_bp = None \<rparr>"

lemma json_start_good: "js_good env json_start"
  by (simp add: js_good_def json_start_def uid_good_def uids_agree_def)

definition json_all :: jopts where
  "json_all = \<lparr> field_st = (\<lambda>_. True), o_fpgid = True, o_fppid = True, o_futol = True, o_fsv = 4, o_fsvflagx = False, o_ftcptpi = 6 \<rparr>"

definition one_user :: pw_env where
  "one_user = \<lparr> pw_stat = None, getpwuid = (\<lambda>u. if u = 0 then Some ''root'' else None) \<rparr>"

definition one_proc :: "lfile \<Rightarrow> lproc" where
  "one_proc l = \<lparr> lp_cmd = ''sh'', lp_sf = SELPID, lp_pss = PS_PRI, lp_ept = 0, lp_pid = 42, lp_tid = 0, lp_tcmd = None,
    lp_pgid = 42, lp_ppid = 1, lp_uid = 0, lp_file = [l\<lparr> lf_sf := SELPID \<rparr>, l\<lparr> lf_sf := 0 \<rparr>] \<rparr>"

lemma one_proc_listed:
  "sel_files (lsof_new\<lparr> allproc := True \<rparr>) (one_proc l) = [l\<lparr> lf_sf := SELPID \<rparr>]"
  "lp_pss (one_proc l) \<noteq> 0" "listed (lsof_new\<lparr> allproc := True \<rparr>) (one_proc l)"
  by (simp_all add: sel_files_def listed_def one_proc_def is_file_sel_def flag_simps)

theorem json_cycle_reads_witness:
  "\<forall>l. \<exists>out st'. json_cycle ''4.99'' json_all (\<lambda>_. None) one_user (lsof_new\<lparr> allproc := True \<rparr>) [one_proc l] json_start = Done (out, st')
    \<and> read_json (length out) out = Some (JObj [(''lsof_version'', JStr ''4.99''),
        (''processes'', JArr [proc_json json_all one_user (lsof_new\<lparr> allproc := True \<rparr>) (one_proc l)])], [nl])"
proof
  fix l
  have "list_all (\<lambda>c. json_esc_char c = [c]) ''4.99''" by (simp add: json_esc_char_def)
  from json_cycle_reads [OF json_start_good this, of json_all "\<lambda>_. None" one_user "lsof_new\<lparr> allproc := True \<rparr>" "[one_proc l]"]
  show "\<exists>out st'. json_cycle ''4.99'' json_all (\<lambda>_. None) one_user (lsof_new\<lparr> allproc := True \<rparr>) [one_proc l] json_start = Done (out, st')
    \<and> read_json (length out) out = Some (JObj [(''lsof_version'', JStr ''4.99''),
        (''processes'', JArr [proc_json json_all one_user (lsof_new\<lparr> allproc := True \<rparr>) (one_proc l)])], [nl])"
    using one_proc_listed(3) [of l] by auto
qed

text \<open>
  C19: JSON Lines is framed by its newlines: in any good state the output is one line for every
  selected file of every selected process, in order, each the object of the process's fields
  followed by the file's; no line contains a newline or any other control character, and each is
  read back as that object.
\<close>

theorem json_lines_framed:
  assumes "js_good env st"
  shows "\<exists>st'. print_procs_json opts True junk env ctx ps first st
      = Done (concat (map (\<lambda>p. concat (map (\<lambda>l. render (JObj (proc_members opts env p @ file_all opts l)) @ [nl])
          (sel_files ctx p))) (filter (\<lambda>p. lp_pss p \<noteq> 0) ps)), st')
    \<and> (\<forall>p l. let line = render (JObj (proc_members opts env p @ file_all opts l)) in
         list_all (\<lambda>c. 32 \<le> byte c) line
         \<and> read_json (length line) line = Some (JObj (proc_members opts env p @ file_all opts l), []))"
proof -
  have "list_all (\<lambda>c. 32 \<le> byte c) (render v) \<and> read_json (length (render v)) (render v) = Some (v, [])" for v
    using render_no_control [of _ v] read_render [of "[]" v "length (render v)"] by (auto simp: list_all_iff)
  then show ?thesis using print_procs_json_lines [OF assms, of opts junk ctx ps first] by (simp only: Let_def) blast
qed

theorem json_lines_framed_witness:
  "\<forall>l. \<exists>st'. print_procs_json json_all True (\<lambda>_. None) one_user (lsof_new\<lparr> allproc := True \<rparr>) [one_proc l] True json_start
    = Done (render (JObj (proc_members json_all one_user (one_proc l) @ file_all json_all (l\<lparr> lf_sf := SELPID \<rparr>))) @ [nl], st')"
proof
  fix l
  from json_lines_framed [OF json_start_good, of json_all "\<lambda>_. None" one_user "lsof_new\<lparr> allproc := True \<rparr>" "[one_proc l]" True]
  show "\<exists>st'. print_procs_json json_all True (\<lambda>_. None) one_user (lsof_new\<lparr> allproc := True \<rparr>) [one_proc l] True json_start
    = Done (render (JObj (proc_members json_all one_user (one_proc l) @ file_all json_all (l\<lparr> lf_sf := SELPID \<rparr>))) @ [nl], st')"
    using one_proc_listed(1,2) [of l] by (auto simp del: render.simps)
qed

text \<open>
  C29: Escaping loses nothing: the escaped text of any string, closed by a quote, is read back as
  exactly that string, and it contains no control character.
\<close>

theorem json_escape_roundtrip:
  "read_str (json_puts_escaped s @ dq # rest) = Some (s, rest) \<and> list_all (\<lambda>c. 32 \<le> byte c) (json_puts_escaped s)"
  using read_str_escaped [of s rest] by (auto simp: json_puts_escaped_def list_all_iff dest: esc_no_control)

lemma keys_step:
  "k \<notin> fst ` set ms \<Longrightarrow> distinct (map fst ms) \<Longrightarrow> distinct (map fst (opt_field b k v @ ms))"
  "k \<noteq> k' \<Longrightarrow> k' \<notin> fst ` set ms \<Longrightarrow> k' \<notin> fst ` set (opt_field b k v @ ms)"
  "distinct (map fst (opt_field b k v))"
  "k \<noteq> k' \<Longrightarrow> k' \<notin> fst ` set (opt_field b k v)"
  by (auto simp: opt_field_def)

lemma login_opt: "\<exists>b v. login_members opts env uid = opt_field b ''login'' v"
  by (cases "getpwuid env uid") (auto simp: login_members_def opt_field_def)

lemma members_distinct:
  "distinct (map fst (proc_members opts env p @ [(''files'', v)] @ file_all opts l))"
proof -
  obtain b w where l: "login_members opts env (lp_uid p) = opt_field b ''login'' w" using login_opt by blast
  have f: "[(''files'', v)] = opt_field True ''files'' v" by (simp add: opt_field_def)
  show ?thesis
    unfolding proc_members_def file_all_def file_members_def Let_def l f append_assoc
    by (intro keys_step) simp_all
qed

text \<open>
  Every object of the output has distinct keys, so that no reader drops a field.  From any good
  state, \<open>json_print_proc_fields\<close> followed by \<open>json_print_file\<close>, as on a line of JSON Lines, writes
  the comma-separated members of one list whose keys are pairwise different, none of them the key
  \<open>files\<close> of the nested form.
\<close>

theorem json_keys_distinct:
  assumes "js_good env st"
  shows "\<exists>o1 st1 st2 ms. json_print_proc_fields opts env p ([], False) st = Done (o1, st1)
    \<and> json_print_file opts junk l o1 st1 = Done ((commas (map member ms), ms \<noteq> []), st2)
    \<and> distinct (''files'' # map fst ms)"
proof -
  obtain st1 where p: "json_print_proc_fields opts env p ([], False) st = Done (emitted (proc_members opts env p) ([], False), st1)"
    and g: "js_good env st1" using json_print_proc_fields_emits [OF assms] by blast
  obtain st2 where f: "json_print_file opts junk l (emitted (proc_members opts env p) ([], False)) st1
      = Done (emitted (proc_members opts env p @ file_all opts l) ([], False), st2)"
    using json_print_file_emits [OF g] by (metis emitted_append)
  define ms where "ms = proc_members opts env p @ file_all opts l"
  have "distinct (''files'' # map fst ms)" using members_distinct [of opts env p "JNum 0" l] by (auto simp: ms_def)
  moreover have "emitted ms ([], False) = (commas (map member ms), ms \<noteq> [])" by (simp add: emitted_def)
  ultimately show ?thesis using p f [folded ms_def] by metis
qed

theorem json_keys_distinct_witness:
  "\<forall>l. \<exists>o1 st1 st2 ms. json_print_proc_fields json_all one_user (one_proc l) ([], False) json_start = Done (o1, st1)
    \<and> json_print_file json_all (\<lambda>_. None) l o1 st1 = Done ((commas (map member ms), ms \<noteq> []), st2) \<and> distinct (map fst ms)"
  using json_keys_distinct [OF json_start_good] by (metis distinct.simps(2))

end
