(* ===== verification/Command_Options.thy ===== *)
theory Command_Options
  imports Prelude
begin

text \<open>
  The option scanner of \<open>src/src/main.c\<close>: \<open>GetOpt\<close> with its static position, and the loop of \<open>main\<close>
  that calls it.  The caller of \<open>GetOpt\<close> may take a possible option value back and have it read
  again as option characters; which values it takes back is a parameter of the loop.
\<close>

definition EOF :: int where "EOF = - 1"

record go_st =
  GOp :: char
  GOv :: "cstring option"
  GOx1 :: nat
  GOx2 :: nat
  GObk :: "nat \<times> nat"

definition go_start :: go_st where
  "go_start = \<lparr> GOp = CHR 0x00, GOv = None, GOx1 = 1, GOx2 = 0, GObk = (1, 1) \<rparr>"

text \<open>\<open>opt[i][j]\<close>, with the NUL after the last character; advancing by one character.\<close>

definition opt_ch :: "cstring list \<Rightarrow> nat \<Rightarrow> nat \<Rightarrow> char" where
  "opt_ch opt i j = (if j < length (opt ! i) then opt ! i ! j else CHR 0x00)"

definition go_next :: "cstring list \<Rightarrow> go_st \<Rightarrow> go_st" where
  "go_next opt st =
    (if opt_ch opt (GOx1 st) (GOx2 st + 1) = CHR 0x00 then st\<lparr> GOx1 := GOx1 st + 1, GOx2 := 0 \<rparr>
     else st\<lparr> GOx2 := GOx2 st + 1 \<rparr>)"

definition go_value :: "cstring list \<Rightarrow> go_st \<Rightarrow> go_st" where
  "go_value opt st =
    (let x1 = GOx1 st; x2 = GOx2 st in
     if opt_ch opt x1 (x2 + 1) \<noteq> CHR 0x00 then
       st\<lparr> GOv := Some (drop (x2 + 1) (opt ! x1)), GOx1 := x1 + 1, GOx2 := 0, GObk := (x1, x2 + 1) \<rparr>
     else if length opt \<le> x1 + 1 then st\<lparr> GOv := None, GOx1 := x1 + 1, GOx2 := 0 \<rparr>
     else if opt ! (x1 + 1) = ''--'' then st\<lparr> GOv := None, GOx1 := x1 + 1, GOx2 := 0, GObk := (x1 + 1, 0) \<rparr>
     else st\<lparr> GOv := Some (opt ! (x1 + 1)), GOx1 := x1 + 2, GOx2 := 0, GObk := (x1 + 1, 0) \<rparr>)"

text \<open>The rule of an option character: \<open>None\<close> when it has none, else whether a value may follow.\<close>

fun go_rule :: "cstring \<Rightarrow> char \<Rightarrow> bool option" where
  "go_rule [] c = None"
| "go_rule (r # rs) c = (if r = c then Some (rs \<noteq> [] \<and> hd rs = CHR '':'') else go_rule rs c)"

definition go_enter :: "cstring list \<Rightarrow> go_st \<Rightarrow> bool \<times> go_st" where
  "go_enter opt st =
    (if GOx2 st \<noteq> 0 then (False, st)
     else if length opt \<le> GOx1 st
       \<or> opt_ch opt (GOx1 st) 0 \<noteq> CHR ''-'' \<and> opt_ch opt (GOx1 st) 0 \<noteq> CHR ''+''
       \<or> opt_ch opt (GOx1 st) 1 = CHR 0x00 then (True, st)
     else if opt ! GOx1 st = ''--'' \<or> opt ! GOx1 st = ''++'' then (True, st\<lparr> GOx1 := GOx1 st + 1 \<rparr>)
     else (False, st\<lparr> GOp := opt_ch opt (GOx1 st) 0, GOx2 := 1 \<rparr>))"

definition GetOpt :: "cstring list \<Rightarrow> cstring \<Rightarrow> nat \<Rightarrow> go_st \<Rightarrow> int \<times> nat \<times> go_st" where
  "GetOpt opt rules err st =
    (case go_enter opt st of
       (True, st1) \<Rightarrow> (EOF, err, st1)
     | (False, st1) \<Rightarrow>
        (let c = opt_ch opt (GOx1 st1) (GOx2 st1) in
         if c = CHR '':'' then (schar c, 1, go_next opt st1)
         else case go_rule rules c of
           None \<Rightarrow> (schar c, 2, go_next opt st1)
         | Some True \<Rightarrow> (schar c, 0, go_value opt st1)
         | Some False \<Rightarrow> (schar c, 0, (go_next opt st1)\<lparr> GOv := None \<rparr>)))"

text \<open>\<open>GOx1 = GObk[0]; GOx2 = GObk[1];\<close>, which the caller does only after it was given a value.\<close>

definition go_back :: "go_st \<Rightarrow> go_st" where
  "go_back st = st\<lparr> GOx1 := fst (GObk st), GOx2 := snd (GObk st) \<rparr>"

text \<open>
  The loop of \<open>main\<close>: the options it sees, each with its prefix and value, and the final position,
  where the file names begin.  \<open>takes\<close> decides which values are taken back.  The first argument is
  fuel.
\<close>

fun opt_loop :: "nat \<Rightarrow> cstring list \<Rightarrow> cstring \<Rightarrow> (int \<Rightarrow> char \<Rightarrow> cstring \<Rightarrow> bool) \<Rightarrow> nat \<Rightarrow> go_st
    \<Rightarrow> ((int \<times> char \<times> cstring option) list \<times> go_st) option" where
  "opt_loop 0 opt rules takes err st = None"
| "opt_loop (Suc n) opt rules takes err st =
    (case GetOpt opt rules err st of
       (c, err1, st1) \<Rightarrow>
         if c = EOF then Some ([], st1)
         else
           (let taken = (err1 = 0 \<and> (case GOv st1 of None \<Rightarrow> False | Some v \<Rightarrow> takes c (GOp st1) v));
                st2 = (if taken then go_back st1 else st1) in
            map_option (\<lambda>(os, st3). ((c, GOp st1, if taken then None else GOv st1) # os, st3))
              (opt_loop n opt rules takes err1 st2)))"

section \<open>Progress\<close>

text \<open>A position is inside its argument, and what is left shrinks with every call.\<close>

definition go_ok :: "cstring list \<Rightarrow> go_st \<Rightarrow> bool" where
  "go_ok opt st \<longleftrightarrow> (if GOx2 st = 0 then GOx1 st \<le> max 1 (length opt) else GOx1 st < length opt \<and> GOx2 st < length (opt ! GOx1 st))"

definition go_left :: "cstring list \<Rightarrow> go_st \<Rightarrow> nat" where
  "go_left opt st = sum_list (map length (drop (GOx1 st) opt)) - GOx2 st"

lemma left_step: "i < length opt \<Longrightarrow> sum_list (map length (drop i opt)) = length (opt ! i) + sum_list (map length (drop (i + 1) opt))"
  by (simp add: Cons_nth_drop_Suc [symmetric])

lemma opt_ch_more: "opt_ch opt i j \<noteq> CHR 0x00 \<Longrightarrow> j < length (opt ! i)"
  by (auto simp: opt_ch_def split: if_splits)

lemma go_next_progress:
  assumes "GOx1 st < length opt" "GOx2 st < length (opt ! GOx1 st)"
  shows "go_ok opt (go_next opt st) \<and> go_left opt (go_next opt st) < go_left opt st"
  using assms left_step [OF assms(1)] opt_ch_more [of opt "GOx1 st" "GOx2 st + 1"]
  by (auto simp: go_next_def go_ok_def go_left_def)

lemma go_value_progress:
  assumes "GOx1 st < length opt" "GOx2 st < length (opt ! GOx1 st)"
  shows "go_ok opt (go_value opt st) \<and> go_left opt (go_value opt st) < go_left opt st"
    and "GOv (go_value opt st) \<noteq> None \<Longrightarrow> go_ok opt (go_back (go_value opt st)) \<and> go_left opt (go_back (go_value opt st)) < go_left opt st"
  using assms left_step [OF assms(1)] left_step [of "GOx1 st + 1" opt] opt_ch_more [of opt "GOx1 st" "GOx2 st + 1"]
  by (auto simp: go_value_def go_ok_def go_left_def go_back_def Let_def)

lemma go_enter_inside:
  assumes "go_ok opt st" "go_enter opt st = (False, st1)"
  shows "GOx1 st1 < length opt \<and> GOx2 st1 < length (opt ! GOx1 st1) \<and> go_left opt st1 \<le> go_left opt st"
  using assms opt_ch_more [of opt "GOx1 st" 1]
  by (auto simp: go_enter_def go_ok_def go_left_def split: if_splits)

lemma go_enter_end: "go_ok opt st \<Longrightarrow> go_enter opt st = (True, st1) \<Longrightarrow> GOx1 st1 \<le> max 1 (length opt)"
  by (auto simp: go_enter_def go_ok_def split: if_splits)

lemma GetOpt_progress:
  assumes ok: "go_ok opt st" and g: "GetOpt opt rules err st = (c, err1, st1)" and c: "c \<noteq> EOF"
  shows "go_ok opt st1 \<and> go_left opt st1 < go_left opt st"
    and "err1 = 0 \<Longrightarrow> GOv st1 \<noteq> None \<Longrightarrow> go_ok opt (go_back st1) \<and> go_left opt (go_back st1) < go_left opt st"
proof -
  obtain b s where e: "go_enter opt st = (b, s)" by fastforce
  have b: "\<not> b" using g c e by (auto simp: GetOpt_def)
  then have i: "GOx1 s < length opt" "GOx2 s < length (opt ! GOx1 s)" and l: "go_left opt s \<le> go_left opt st"
    using go_enter_inside [OF ok] e by auto
  have fr: "go_ok opt (t\<lparr> GOv := None \<rparr>) = go_ok opt t" "go_left opt (t\<lparr> GOv := None \<rparr>) = go_left opt t" for t
    by (simp_all add: go_ok_def go_left_def)
  show "go_ok opt st1 \<and> go_left opt st1 < go_left opt st"
    using g b e go_next_progress [OF i] go_value_progress(1) [OF i] l
    by (auto simp: GetOpt_def Let_def fr split: if_splits option.splits bool.splits)
  show "go_ok opt (go_back st1) \<and> go_left opt (go_back st1) < go_left opt st" if "err1 = 0" "GOv st1 \<noteq> None"
    using g b e go_value_progress(2) [OF i] l that
    by (auto simp: GetOpt_def Let_def split: if_splits option.splits bool.splits)
qed

lemma GetOpt_end:
  assumes ok: "go_ok opt st" and g: "GetOpt opt rules err st = (EOF, err1, st1)"
  shows "GOx1 st1 \<le> max 1 (length opt)"
proof -
  obtain b s where e: "go_enter opt st = (b, s)" by fastforce
  have "GOx1 st1 \<le> length opt" if "\<not> b"
  proof -
    have i: "GOx1 s < length opt" "GOx2 s < length (opt ! GOx1 s)" using go_enter_inside [OF ok] e that by auto
    have "go_ok opt (go_next opt s)" "go_ok opt (go_value opt s)" using go_next_progress [OF i] go_value_progress(1) [OF i] by auto
    then show ?thesis using g e that i
      by (auto simp: GetOpt_def Let_def go_ok_def max_def split: if_splits option.splits bool.splits)
  qed
  then show ?thesis using go_enter_end [OF ok, of s] g e by (cases b) (auto simp: GetOpt_def)
qed

lemma opt_loop_ends:
  "go_ok opt st \<Longrightarrow> go_left opt st < n \<Longrightarrow>
    \<exists>os st'. opt_loop n opt rules takes err st = Some (os, st') \<and> length os \<le> go_left opt st \<and> GOx1 st' \<le> max 1 (length opt)"
proof (induction n arbitrary: st err)
  case 0
  then show ?case by simp
next
  case (Suc n)
  obtain c err1 st1 where g: "GetOpt opt rules err st = (c, err1, st1)" by (cases "GetOpt opt rules err st")
  show ?case
  proof (cases "c = EOF")
    case True
    then show ?thesis using g GetOpt_end [OF Suc.prems(1), of rules err err1 st1] by simp
  next
    case False
    define taken where "taken = (err1 = 0 \<and> (case GOv st1 of None \<Rightarrow> False | Some v \<Rightarrow> takes c (GOp st1) v))"
    define st2 where "st2 = (if taken then go_back st1 else st1)"
    have p: "go_ok opt st2" "go_left opt st2 < go_left opt st"
      using GetOpt_progress [OF Suc.prems(1) g False] by (auto simp: st2_def taken_def split: option.splits)
    then have "go_left opt st2 < n" using Suc.prems(2) by simp
    from Suc.IH [OF p(1) this, of err1] obtain os st' where
      "opt_loop n opt rules takes err1 st2 = Some (os, st')" "length os \<le> go_left opt st2" "GOx1 st' \<le> max 1 (length opt)" by blast
    then show ?thesis using g False p(2) by (simp add: taken_def [symmetric] st2_def [symmetric] Let_def)
  qed
qed


end
