(* ===== verification/Endpoints.thy ===== *)
theory Endpoints
  imports Proc_Select Option_Args Print_Fields File_Search
begin

text \<open>
  Endpoint information (options \<open>+E\<close> and \<open>-E\<close>): the hash tables of \<open>src/lib/dialects/linux/dnode.c\<close>
  that remember which process has which pipe, message queue, eventfd or pseudoterminal open, and the
  passes of \<open>src/lib/proc.c\<close> that add the peers to the name column and select them.  A pointer to a
  file structure is the index of its process in \<open>Lproc\<close> and its place in that process's file list.
\<close>

section \<open>Devices of pseudoterminals\<close>

definition is_pty_slave :: "int \<Rightarrow> bool" where
  "is_pty_slave sm \<longleftrightarrow> 136 \<le> sm \<and> sm < 136 + 8"

definition is_pty_ptmx :: "64 word \<Rightarrow> bool" where
  "is_pty_ptmx dev \<longleftrightarrow> maj_dev dev = 5 \<and> min_dev dev = 2"

section \<open>The hash tables\<close>

record pxinfo =
  px_ino :: "64 word"
  px_lf :: nat
  px_lpx :: nat

type_synonym px_hash = "(nat \<Rightarrow> pxinfo list) option"

definition CHEND_PIPE :: flags32 where [flag_simps]: "CHEND_PIPE = 0x01"
definition CHEND_PTY :: flags32 where [flag_simps]: "CHEND_PTY = 0x02"
definition CHEND_PSXMQ :: flags32 where [flag_simps]: "CHEND_PSXMQ = 0x10"
definition CHEND_EVTFD :: flags32 where [flag_simps]: "CHEND_EVTFD = 0x40"

definition PINFOBUCKS :: int where "PINFOBUCKS = 512"

text \<open>The product is an \<open>int\<close>; the shift keeps its sign.\<close>

definition HASHPINFO :: "int \<Rightarrow> nat" where
  "HASHPINFO i = nat ((s32 (i * 31415) div 8) mod PINFOBUCKS)"

text \<open>The file a \<open>pxinfo\<close> points to.\<close>

definition px_file :: "lproc list \<Rightarrow> pxinfo \<Rightarrow> lfile option" where
  "px_file ps pi =
    (if px_lpx pi < length ps \<and> px_lf pi < length (lp_file (ps ! px_lpx pi))
     then Some (lp_file (ps ! px_lpx pi) ! px_lf pi) else None)"

definition same_fd :: "lproc list \<Rightarrow> int \<Rightarrow> lfile \<Rightarrow> pxinfo \<Rightarrow> bool" where
  "same_fd ps pid l pi =
    (case px_file ps pi of
       None \<Rightarrow> False
     | Some e \<Rightarrow> lp_pid (ps ! px_lpx pi) = pid \<and> lf_fd_type e = lf_fd_type l \<and> lf_fd_num e = lf_fd_num l)"

text \<open>
  \<open>endpoint_enter\<close> for the current file \<open>l\<close> (it becomes the next of its process's list) of the last
  process.  The identifier is an \<open>int\<close>, whatever the width of the inode number it came from.
\<close>

definition endpoint_enter :: "lproc list \<Rightarrow> lfile \<Rightarrow> int \<Rightarrow> px_hash \<Rightarrow> px_hash" where
  "endpoint_enter ps l i hash =
    (let tbl = (case hash of None \<Rightarrow> (\<lambda>_. []) | Some t \<Rightarrow> t); h = HASHPINFO i; p = last ps in
     if list_ex (\<lambda>pi. px_ino pi = of_int i \<and> same_fd ps (lp_pid p) l pi) (tbl h) then Some tbl
     else Some (tbl(h := tbl h @ [\<lparr> px_ino = of_int i, px_lf = length (lp_file p), px_lpx = length ps - 1 \<rparr>])))"

definition int_of_ino :: "64 word \<Rightarrow> int" where
  "int_of_ino ino = s32 (uint ino)"

definition enter_pinfo :: "lproc list \<Rightarrow> lfile \<Rightarrow> px_hash \<Rightarrow> px_hash" where
  "enter_pinfo ps l hash = endpoint_enter ps l (int_of_ino (lf_inode l)) hash"

definition enter_psxmqinfo :: "lproc list \<Rightarrow> lfile \<Rightarrow> px_hash \<Rightarrow> px_hash" where
  "enter_psxmqinfo ps l hash = endpoint_enter ps l (int_of_ino (lf_inode l)) hash"

definition enter_ptmxi :: "lproc list \<Rightarrow> lfile \<Rightarrow> int \<Rightarrow> px_hash \<Rightarrow> px_hash" where
  "enter_ptmxi ps l mn hash = endpoint_enter ps l mn hash"

definition enter_evtfdinfo :: "lproc list \<Rightarrow> lfile \<Rightarrow> int \<Rightarrow> px_hash \<Rightarrow> px_hash" where
  "enter_evtfdinfo ps l i hash = endpoint_enter ps l i hash"

text \<open>\<open>clear_pinfo\<close> and its siblings empty the buckets.\<close>

definition endpoint_pxinfo_hash :: "px_hash \<Rightarrow> px_hash" where
  "endpoint_pxinfo_hash hash = map_option (\<lambda>_. (\<lambda>_. [])) hash"

text \<open>
  \<open>endpoint_find\<close>: the chain from the first acceptable entry on, starting at \<open>pp\<close> or at the head.
\<close>

definition endpoint_find :: "px_hash \<Rightarrow> (pxinfo \<Rightarrow> bool) \<Rightarrow> int \<Rightarrow> pxinfo list option \<Rightarrow> pxinfo list" where
  "endpoint_find hash acc i pp =
    (case hash of
       None \<Rightarrow> []
     | Some tbl \<Rightarrow>
        dropWhile (\<lambda>pi. \<not> (px_ino pi = of_int i \<and> acc pi)) (case pp of Some c \<Rightarrow> c | None \<Rightarrow> tbl (HASHPINFO i)))"

definition endpoint_accept_other_than_self :: "lproc list \<Rightarrow> int \<Rightarrow> lfile \<Rightarrow> pxinfo \<Rightarrow> bool" where
  "endpoint_accept_other_than_self ps pid l pi =
    (case px_file ps pi of
       None \<Rightarrow> False
     | Some ef \<Rightarrow> lf_fd_type l \<noteq> lf_fd_type ef \<or> lf_fd_num l \<noteq> lf_fd_num ef \<or> pid \<noteq> lp_pid (ps ! px_lpx pi))"

definition ptyepti_accept_ptmx :: "lproc list \<Rightarrow> pxinfo \<Rightarrow> bool" where
  "ptyepti_accept_ptmx ps pi = (case px_file ps pi of None \<Rightarrow> False | Some ef \<Rightarrow> is_pty_ptmx (lf_rdev ef))"

definition ptyepti_accept_slave :: "lproc list \<Rightarrow> pxinfo \<Rightarrow> bool" where
  "ptyepti_accept_slave ps pi = (case px_file ps pi of None \<Rightarrow> False | Some ef \<Rightarrow> is_pty_slave (maj_dev (lf_rdev ef)))"

section \<open>Adding the peers\<close>

definition upd_file :: "nat \<Rightarrow> nat \<Rightarrow> (lfile \<Rightarrow> lfile) \<Rightarrow> lproc list \<Rightarrow> lproc list" where
  "upd_file i j f ps =
    (if i < length ps \<and> j < length (lp_file (ps ! i))
     then ps[i := (ps ! i)\<lparr> lp_file := (lp_file (ps ! i))[j := f (lp_file (ps ! i) ! j)] \<rparr>] else ps)"

definition upd_proc :: "nat \<Rightarrow> (lproc \<Rightarrow> lproc) \<Rightarrow> lproc list \<Rightarrow> lproc list" where
  "upd_proc i f ps = (if i < length ps then ps[i := f (ps ! i)] else ps)"

text \<open>
  The text of a peer: process, command in at most \<open>cmdlim\<close> characters, descriptor and access.  The
  buffer has 1023 bytes.
\<close>

definition peer_text :: "nat \<Rightarrow> cstring \<Rightarrow> lproc \<Rightarrow> lfile \<Rightarrow> cstring" where
  "peer_text cmdlim pre ep ef =
    take 1022 (pre @ dec_int (lp_pid ep) @ '','' @ take cmdlim (lp_cmd ep) @ '','' @
      fd_to_string (lf_fd_type ef) (lf_fd_num ef) @ [access_to_char (lf_access ef)])"

text \<open>
  \<open>prt_pinfo\<close> and its siblings differ in the marks they set: the peer's text goes to the current file
  (\<open>i\<close>, \<open>j\<close>), and with \<open>ps\<close> the peer is marked for the second pass.
\<close>

definition prt_peer ::
  "nat \<Rightarrow> flags32 \<Rightarrow> flags32 \<Rightarrow> nat \<Rightarrow> nat \<Rightarrow> cstring \<Rightarrow> bool \<Rightarrow> pxinfo \<Rightarrow> lproc list \<Rightarrow> lproc list" where
  "prt_peer cmdlim chend ept i j pre later pp ps =
    (case px_file ps pp of
       None \<Rightarrow> ps
     | Some ef \<Rightarrow>
        (let ps1 = upd_file i j (add_nma (peer_text cmdlim pre (ps ! px_lpx pp) ef)) ps in
         if later then
           upd_proc (px_lpx pp) (\<lambda>p. p\<lparr> lp_ept := lp_ept p OR ept \<rparr>)
             (upd_file (px_lpx pp) (px_lf pp) (\<lambda>f. f\<lparr> lf_chend := chend \<rparr>) ps1)
         else ps1))"

definition prt_pinfo :: "nat \<Rightarrow> nat \<Rightarrow> nat \<Rightarrow> bool \<Rightarrow> pxinfo \<Rightarrow> lproc list \<Rightarrow> lproc list" where
  "prt_pinfo cmdlim i j later pp ps = prt_peer cmdlim CHEND_PIPE EPT_PIPE_END i j [] later pp ps"

definition prt_psxmqinfo :: "nat \<Rightarrow> nat \<Rightarrow> nat \<Rightarrow> bool \<Rightarrow> pxinfo \<Rightarrow> lproc list \<Rightarrow> lproc list" where
  "prt_psxmqinfo cmdlim i j later pp ps = prt_peer cmdlim CHEND_PSXMQ EPT_PSXMQ_END i j [] later pp ps"

definition prt_evtfdinfo :: "nat \<Rightarrow> nat \<Rightarrow> nat \<Rightarrow> bool \<Rightarrow> pxinfo \<Rightarrow> lproc list \<Rightarrow> lproc list" where
  "prt_evtfdinfo cmdlim i j later pp ps = prt_peer cmdlim CHEND_EVTFD EPT_EVTFD_END i j [] later pp ps"

definition prt_ptyinfo :: "nat \<Rightarrow> nat \<Rightarrow> nat \<Rightarrow> bool \<Rightarrow> bool \<Rightarrow> pxinfo \<Rightarrow> lproc list \<Rightarrow> lproc list" where
  "prt_ptyinfo cmdlim i j edev later pp ps =
    prt_peer cmdlim CHEND_PTY EPT_PTY_END i j
      (if edev \<and> i < length ps \<and> j < length (lp_file (ps ! i))
       then ''->/dev/pts/'' @ dec_int (lf_tty_index (lp_file (ps ! i) ! j)) @ '' '' else []) later pp ps"

definition find_start :: "px_hash \<Rightarrow> int \<Rightarrow> pxinfo list option \<Rightarrow> pxinfo list" where
  "find_start hash i pp = (case pp of Some c \<Rightarrow> c | None \<Rightarrow> (case hash of None \<Rightarrow> [] | Some tbl \<Rightarrow> tbl (HASHPINFO i)))"

lemma endpoint_find_start:
  "endpoint_find hash acc i pp =
    (if hash = None then [] else dropWhile (\<lambda>pi. \<not> (px_ino pi = of_int i \<and> acc pi)) (find_start hash i pp))"
  by (auto simp: endpoint_find_def find_start_def split: option.splits)

text \<open>
  The loop over the chain: \<open>endpoint_find\<close> gives the chain from the next peer on, \<open>prt\<close> handles that peer
  (its first argument tells whether it is the first one), and the loop ends with the chain.
\<close>

function peer_loop ::
  "px_hash \<Rightarrow> (lproc list \<Rightarrow> pxinfo \<Rightarrow> bool) \<Rightarrow> int \<Rightarrow> (bool \<Rightarrow> pxinfo \<Rightarrow> lproc list \<Rightarrow> lproc list) \<Rightarrow> bool
    \<Rightarrow> pxinfo list option \<Rightarrow> lproc list \<Rightarrow> lproc list" where
  "peer_loop hash acc i prt pc pp ps =
    (case endpoint_find hash (acc ps) i pp of
       [] \<Rightarrow> ps
     | pi # rest \<Rightarrow>
        (let ps1 = prt pc pi ps in
         if rest = [] then ps1 else peer_loop hash acc i prt False (Some rest) ps1))"
  by pat_completeness auto

termination
proof (relation "measure (\<lambda>(hash, acc, i, prt, pc, pp, ps). length (find_start hash i pp))", simp, goal_cases)
  case (1 hash acc i prt pc pp ps pi rest ps1)
  then have "pi # rest = dropWhile (\<lambda>pi. \<not> (px_ino pi = of_int i \<and> acc ps pi)) (find_start hash i pp)"
    by (simp add: endpoint_find_start split: if_splits)
  then have "Suc (length rest) = length (dropWhile (\<lambda>pi. \<not> (px_ino pi = of_int i \<and> acc ps pi)) (find_start hash i pp))"
    by (metis length_Cons)
  also have "\<dots> \<le> length (find_start hash i pp)" by (rule length_dropWhile_le)
  finally have "length rest < length (find_start hash i pp)" by simp
  then show ?case by (simp add: find_start_def)
qed

declare peer_loop.simps [simp del]

text \<open>
  The loop over the files of process \<open>i\<close>.  Pass 0 handles the selected files that are eligible; pass 1
  the unselected ones that were marked: they are selected.
\<close>

definition process_file ::
  "lsof_context \<Rightarrow> nat \<Rightarrow> nat \<Rightarrow> (lfile \<Rightarrow> bool) \<Rightarrow> flags32 \<Rightarrow> (nat \<Rightarrow> bool \<Rightarrow> lfile \<Rightarrow> lproc list \<Rightarrow> lproc list)
    \<Rightarrow> nat \<Rightarrow> lproc list \<Rightarrow> lproc list" where
  "process_file ctx f i elig chend run j ps =
    (let l = lp_file (ps ! i) ! j in
     if \<not> elig l then ps
     else if f = 0 then (if is_file_sel ctx (Some l) then run j (fepte ctx = 2) l ps else ps)
     else if \<not> is_file_sel ctx (Some l) \<and> has_flag (lf_chend l) chend then
       run j False l
         (upd_proc i (\<lambda>p. p\<lparr> lp_pss := lp_pss p OR PS_SEC \<rparr>) (upd_file i j (\<lambda>l. l\<lparr> lf_sf := selflags ctx \<rparr>) ps))
     else ps)"

definition process_files ::
  "lsof_context \<Rightarrow> nat \<Rightarrow> nat \<Rightarrow> (lfile \<Rightarrow> bool) \<Rightarrow> flags32 \<Rightarrow> (nat \<Rightarrow> bool \<Rightarrow> lfile \<Rightarrow> lproc list \<Rightarrow> lproc list)
    \<Rightarrow> lproc list \<Rightarrow> lproc list" where
  "process_files ctx f i elig chend run ps =
    (if fepte ctx = 0 then ps
     else fold (process_file ctx f i elig chend run) [0..<length (lp_file (ps ! i))] ps)"

definition N_FIFO :: nat where "N_FIFO = 26"
definition N_ANON_INODE :: nat where "N_ANON_INODE = 3"

definition process_pinfo :: "nat \<Rightarrow> lsof_context \<Rightarrow> px_hash \<Rightarrow> nat \<Rightarrow> nat \<Rightarrow> lproc list \<Rightarrow> lproc list" where
  "process_pinfo cmdlim ctx hash f i ps =
    process_files ctx f i (\<lambda>l. lf_ntype l = N_FIFO \<and> lf_inp_ty l = 1) CHEND_PIPE
      (\<lambda>j later l ps0. peer_loop hash (\<lambda>qs. endpoint_accept_other_than_self qs (lp_pid (ps ! i)) l) (int_of_ino (lf_inode l))
         (\<lambda>_. prt_pinfo cmdlim i j later) True None ps0) ps"

definition process_psxmqinfo :: "nat \<Rightarrow> 64 word \<Rightarrow> lsof_context \<Rightarrow> px_hash \<Rightarrow> nat \<Rightarrow> nat \<Rightarrow> lproc list \<Rightarrow> lproc list" where
  "process_psxmqinfo cmdlim mqdev ctx hash f i ps =
    process_files ctx f i (\<lambda>l. lf_dev l = mqdev) CHEND_PSXMQ
      (\<lambda>j later l ps0. peer_loop hash (\<lambda>qs. endpoint_accept_other_than_self qs (lp_pid (ps ! i)) l) (int_of_ino (lf_inode l))
         (\<lambda>_. prt_psxmqinfo cmdlim i j later) True None ps0) ps"

definition process_evtfdinfo :: "nat \<Rightarrow> lsof_context \<Rightarrow> px_hash \<Rightarrow> nat \<Rightarrow> nat \<Rightarrow> lproc list \<Rightarrow> lproc list" where
  "process_evtfdinfo cmdlim ctx hash f i ps =
    process_files ctx f i (\<lambda>l. lf_ntype l = N_ANON_INODE \<and> lf_eventfd_id l \<noteq> - 1) CHEND_EVTFD
      (\<lambda>j later l ps0. peer_loop hash (\<lambda>qs. endpoint_accept_other_than_self qs (lp_pid (ps ! i)) l) (lf_eventfd_id l)
         (\<lambda>_. prt_evtfdinfo cmdlim i j later) True None ps0) ps"

text \<open>A master looks for slaves by its index, a slave for masters by its minor number.\<close>

definition pty_master :: "lfile \<Rightarrow> bool" where
  "pty_master l \<longleftrightarrow> lf_rdev_def l \<and> is_pty_ptmx (lf_rdev l)"

definition process_ptyinfo :: "nat \<Rightarrow> lsof_context \<Rightarrow> px_hash \<Rightarrow> nat \<Rightarrow> nat \<Rightarrow> lproc list \<Rightarrow> lproc list" where
  "process_ptyinfo cmdlim ctx hash f i ps =
    process_files ctx f i (\<lambda>l. pty_master l \<or> lf_rdev_def l \<and> is_pty_slave (maj_dev (lf_rdev l))) CHEND_PTY
      (\<lambda>j later l ps0. peer_loop hash (if pty_master l then ptyepti_accept_slave else ptyepti_accept_ptmx)
         (if pty_master l then lf_tty_index l else s32 (min_dev (lf_rdev l)))
         (\<lambda>pc. prt_ptyinfo cmdlim i j (pty_master l \<and> pc) later) True None ps0) ps"

text \<open>The two passes the main program makes over all processes, for pipes.\<close>

definition pipe_pass :: "nat \<Rightarrow> lsof_context \<Rightarrow> px_hash \<Rightarrow> nat \<Rightarrow> nat list \<Rightarrow> lproc list \<Rightarrow> lproc list" where
  "pipe_pass cmdlim ctx hash f order ps =
    fold (\<lambda>i qs.
       if (if f = 0 then lp_pss (qs ! i) \<noteq> 0 \<and> has_flag (lp_ept (qs ! i)) EPT_PIPE else has_flag (lp_ept (qs ! i)) EPT_PIPE_END)
       then process_pinfo cmdlim ctx hash f i qs else qs) order ps"

section \<open>Frames\<close>

definition ok_ix :: "lproc list \<Rightarrow> nat \<Rightarrow> nat \<Rightarrow> bool" where
  "ok_ix ps a b \<longleftrightarrow> a < length ps \<and> b < length (lp_file (ps ! a))"

definition fget :: "lproc list \<Rightarrow> nat \<Rightarrow> nat \<Rightarrow> lfile" where
  "fget ps a b = lp_file (ps ! a) ! b"

lemma px_file_ix: "px_file ps pi = (if ok_ix ps (px_lpx pi) (px_lf pi) then Some (fget ps (px_lpx pi) (px_lf pi)) else None)"
  by (simp add: px_file_def ok_ix_def fget_def)

lemma upd_length [simp]: "length (upd_file i j f ps) = length ps" "length (upd_proc i g ps) = length ps"
  by (simp_all add: upd_file_def upd_proc_def)

lemma ok_ix_upd_file [simp]: "ok_ix (upd_file i j f ps) a b = ok_ix ps a b"
  by (auto simp: ok_ix_def upd_file_def nth_list_update)

lemma ok_ix_upd_proc: "(\<And>p. lp_file (g p) = lp_file p) \<Longrightarrow> ok_ix (upd_proc i g ps) a b = ok_ix ps a b"
  by (auto simp: ok_ix_def upd_proc_def nth_list_update)

lemma fget_upd_file:
  "ok_ix ps a b \<Longrightarrow> fget (upd_file i j f ps) a b = (if a = i \<and> b = j then f (fget ps a b) else fget ps a b)"
  by (auto simp: ok_ix_def upd_file_def fget_def nth_list_update)

lemma fget_upd_proc: "(\<And>p. lp_file (g p) = lp_file p) \<Longrightarrow> fget (upd_proc i g ps) a b = fget ps a b"
  by (cases "a = i") (auto simp: upd_proc_def fget_def nth_list_update)

lemma upd_file_proc [simp]:
  "lp_ept (upd_file i j f ps ! a) = lp_ept (ps ! a)" "lp_pss (upd_file i j f ps ! a) = lp_pss (ps ! a)"
  by (cases "a = i"; auto simp: upd_file_def nth_list_update)+

text \<open>What the passes leave alone: processes, commands, and the files but for marks, selection and name additions.\<close>

definition static_file :: "lfile \<Rightarrow> lfile" where
  "static_file l = l\<lparr> lf_nma := None, lf_chend := 0, lf_sf := 0 \<rparr>"

definition static_ps :: "lproc list \<Rightarrow> (int \<times> cstring \<times> lfile list) list" where
  "static_ps ps = map (\<lambda>p. (lp_pid p, lp_cmd p, map static_file (lp_file p))) ps"

lemma static_upd_file:
  assumes "\<And>l. static_file (f l) = static_file l" shows "static_ps (upd_file i j f ps) = static_ps ps"
proof (cases "ok_ix ps i j")
  case True
  have "map static_file ((lp_file (ps ! i))[j := f (lp_file (ps ! i) ! j)]) = map static_file (lp_file (ps ! i))"
    using True assms by (simp add: map_update ok_ix_def list_update_same_conv)
  then show ?thesis using True
    by (simp add: static_ps_def upd_file_def ok_ix_def map_update) (simp add: list_update_same_conv)
qed (auto simp: ok_ix_def upd_file_def)

lemma static_upd_proc:
  assumes "\<And>p. lp_pid (g p) = lp_pid p \<and> lp_cmd (g p) = lp_cmd p \<and> lp_file (g p) = lp_file p"
  shows "static_ps (upd_proc i g ps) = static_ps ps"
proof (cases "i < length ps")
  case True
  let ?v = "\<lambda>p. (lp_pid p, lp_cmd p, map static_file (lp_file p))"
  have "?v (g (ps ! i)) = map ?v ps ! i" using assms [of "ps ! i"] True by simp
  then have "(map ?v ps)[i := ?v (g (ps ! i))] = map ?v ps" by (simp only: list_update_id)
  then show ?thesis using True by (simp add: static_ps_def upd_proc_def map_update)
qed (simp add: upd_proc_def)

lemma static_length: "static_ps ps = static_ps qs \<Longrightarrow> length ps = length qs"
  unfolding static_ps_def by (rule map_eq_imp_length_eq)

lemma static_proc:
  assumes "static_ps ps = static_ps qs" "a < length ps"
  shows "lp_pid (ps ! a) = lp_pid (qs ! a)" "lp_cmd (ps ! a) = lp_cmd (qs ! a)"
    "map static_file (lp_file (ps ! a)) = map static_file (lp_file (qs ! a))"
proof -
  have "static_ps ps ! a = static_ps qs ! a" using assms(1) by simp
  then show "lp_pid (ps ! a) = lp_pid (qs ! a)" "lp_cmd (ps ! a) = lp_cmd (qs ! a)"
    "map static_file (lp_file (ps ! a)) = map static_file (lp_file (qs ! a))"
    using assms static_length [OF assms(1)] by (simp_all add: static_ps_def)
qed

lemma static_ok_ix: "static_ps ps = static_ps qs \<Longrightarrow> ok_ix ps a b = ok_ix qs a b"
  using map_eq_imp_length_eq [OF static_proc(3) [of ps qs a]] static_length [of ps qs] unfolding ok_ix_def by auto

lemma static_fget: "static_ps ps = static_ps qs \<Longrightarrow> ok_ix ps a b \<Longrightarrow> static_file (fget ps a b) = static_file (fget qs a b)"
  using arg_cong [OF static_proc(3) [of ps qs a], of "\<lambda>xs. xs ! b"] static_ok_ix [of ps qs a b] unfolding ok_ix_def fget_def by simp

lemma static_file_members:
  assumes "static_file k = static_file l"
  shows "lf_fd_type k = lf_fd_type l" "lf_fd_num k = lf_fd_num l" "lf_access k = lf_access l" "lf_rdev k = lf_rdev l"
    "lf_ntype k = lf_ntype l" "lf_inp_ty k = lf_inp_ty l" "lf_inode k = lf_inode l" "lf_tty_index k = lf_tty_index l"
    "lf_type k = lf_type l"
  using assms unfolding static_file_def by (cases k, cases l, simp)+

lemma static_accept:
  assumes "static_ps ps = static_ps qs" "static_file k = static_file l"
  shows "endpoint_accept_other_than_self ps pid k pi = endpoint_accept_other_than_self qs pid l pi"
proof (cases "ok_ix ps (px_lpx pi) (px_lf pi)")
  case True
  note m = static_file_members [OF static_fget [OF assms(1) True]] static_file_members [OF assms(2)]
  have "px_lpx pi < length ps" using True by (simp add: ok_ix_def)
  with True m static_ok_ix [OF assms(1)] static_proc(1) [OF assms(1)] show ?thesis
    by (simp add: endpoint_accept_other_than_self_def px_file_ix)
qed (simp add: endpoint_accept_other_than_self_def px_file_ix static_ok_ix [OF assms(1)])

lemma static_peer_text:
  assumes "static_ps ps = static_ps qs" "ok_ix ps a b"
  shows "peer_text n pre (ps ! a) (fget ps a b) = peer_text n pre (qs ! a) (fget qs a b)"
proof -
  have "a < length ps" using assms(2) by (simp add: ok_ix_def)
  with static_file_members [OF static_fget [OF assms]] static_proc(1,2) [OF assms(1)]
  show ?thesis by (simp add: peer_text_def)
qed

section \<open>The loop over a chain\<close>

text \<open>The peers of a file: the acceptable entries of its chain.\<close>

definition peers :: "px_hash \<Rightarrow> (pxinfo \<Rightarrow> bool) \<Rightarrow> int \<Rightarrow> pxinfo list" where
  "peers hash acc i = filter (\<lambda>pi. px_ino pi = of_int i \<and> acc pi) (find_start hash i None)"

lemma filter_dropWhile: "filter P (dropWhile (\<lambda>x. \<not> P x) xs) = filter P xs"
  by (induction xs) auto

lemma peer_loop_fold:
  assumes acc: "\<And>qs. static_ps qs = static_ps ps \<Longrightarrow> acc qs = acc ps"
    and prt: "\<And>pi qs. static_ps (prt pi qs) = static_ps qs" and "static_ps qs = static_ps ps"
  shows "peer_loop hash acc i (\<lambda>_. prt) pc pp qs =
    fold prt (if hash = None then [] else filter (\<lambda>pi. px_ino pi = of_int i \<and> acc ps pi) (find_start hash i pp)) qs"
  using assms(3)
proof (induction "length (find_start hash i pp)" arbitrary: pc pp qs rule: less_induct)
  case less
  let ?ok = "\<lambda>pi. px_ino pi = of_int i \<and> acc ps pi"
  have f: "endpoint_find hash (acc qs) i pp = (if hash = None then [] else dropWhile (\<lambda>pi. \<not> ?ok pi) (find_start hash i pp))"
    using acc [OF less.prems] by (simp add: endpoint_find_start)
  show ?case
  proof (cases "endpoint_find hash (acc qs) i pp")
    case Nil
    then show ?thesis by (subst peer_loop.simps) (auto simp: f filter_empty_conv split: if_splits)
  next
    case (Cons pi rest)
    then have h: "hash \<noteq> None" and d: "dropWhile (\<lambda>pi. \<not> ?ok pi) (find_start hash i pp) = pi # rest"
      by (auto simp: f split: if_splits)
    note filter_dropWhile [of ?ok "find_start hash i pp"]
    moreover have "?ok pi" using d by (metis (mono_tags, lifting) dropWhile_eq_Cons_conv)
    ultimately have flt: "filter ?ok (find_start hash i pp) = pi # filter ?ok rest" using d by simp
    have "length rest < length (find_start hash i pp)"
      using length_dropWhile_le [of "\<lambda>pi. \<not> ?ok pi" "find_start hash i pp"] d by simp
    then have IH: "peer_loop hash acc i (\<lambda>_. prt) False (Some rest) (prt pi qs) = fold prt (filter ?ok rest) (prt pi qs)"
      using less.hyps [of "Some rest" "prt pi qs" False] prt less.prems h by (simp add: find_start_def)
    then show ?thesis unfolding if_not_P [OF h] flt
      by (subst peer_loop.simps) (simp add: Cons Let_def)
  qed
qed

lemma static_marks [simp]:
  "static_file (add_nma t l) = static_file l" "static_file (l\<lparr> lf_chend := c \<rparr>) = static_file l"
  "static_file (l\<lparr> lf_sf := f \<rparr>) = static_file l"
  by (simp_all add: static_file_def add_nma_def split: option.splits)

lemma static_prt_peer [simp]: "static_ps (prt_peer n c e i j pre later pp ps) = static_ps ps"
  by (auto simp: prt_peer_def Let_def static_upd_file static_upd_proc split: option.splits)

lemma peer_loop_peers:
  assumes "static_ps qs = static_ps ps"
  shows "peer_loop hash (\<lambda>qs. endpoint_accept_other_than_self qs pid l) i (\<lambda>_. prt_peer n c e a b pre later) True None qs =
    fold (prt_peer n c e a b pre later) (peers hash (endpoint_accept_other_than_self ps pid l) i) qs"
proof -
  have "endpoint_accept_other_than_self qs' pid l = endpoint_accept_other_than_self ps pid l" if "static_ps qs' = static_ps ps" for qs'
    using static_accept [OF that refl] by blast
  from peer_loop_fold [of ps "\<lambda>qs. endpoint_accept_other_than_self qs pid l", OF this _ assms]
  show ?thesis by (cases hash) (simp_all add: peers_def find_start_def)
qed

section \<open>The name column lists the peers\<close>

definition nma_add :: "cstring \<Rightarrow> cstring option \<Rightarrow> cstring option" where
  "nma_add cp n =
    (if cp = [] then n else case n of None \<Rightarrow> Some cp | Some s \<Rightarrow> Some (if s \<noteq> [] then s @ '' '' @ cp else cp))"

lemma add_nma_nma: "lf_nma (add_nma cp l) = nma_add cp (lf_nma l)"
  by (simp add: add_nma_def nma_add_def split: option.splits)

lemma add_nma_other [simp]: "lf_chend (add_nma cp l) = lf_chend l" "lf_sf (add_nma cp l) = lf_sf l"
  by (simp_all add: add_nma_def split: option.splits)

lemma prt_peer_fget:
  assumes "ok_ix ps a b"
  shows "lf_nma (fget (prt_peer n c e i j pre later pp ps) a b) =
      (if a = i \<and> b = j \<and> ok_ix ps (px_lpx pp) (px_lf pp)
       then nma_add (peer_text n pre (ps ! px_lpx pp) (fget ps (px_lpx pp) (px_lf pp))) (lf_nma (fget ps a b))
       else lf_nma (fget ps a b))"
    and "lf_sf (fget (prt_peer n c e i j pre later pp ps) a b) = lf_sf (fget ps a b)"
    and "lf_chend (fget (prt_peer n c e i j pre later pp ps) a b) =
      (if later \<and> a = px_lpx pp \<and> b = px_lf pp then c else lf_chend (fget ps a b))"
  using assms by (auto simp: prt_peer_def px_file_ix Let_def fget_upd_file fget_upd_proc add_nma_nma)

lemma prt_peer_fold_fget:
  assumes "ok_ix ps a b" "\<forall>pp \<in> set pps. ok_ix ps (px_lpx pp) (px_lf pp)" "static_ps qs = static_ps ps"
  shows "lf_nma (fget (fold (prt_peer n c e i j pre later) pps qs) a b) =
      (if a = i \<and> b = j
       then fold nma_add (map (\<lambda>pp. peer_text n pre (ps ! px_lpx pp) (fget ps (px_lpx pp) (px_lf pp))) pps) (lf_nma (fget qs a b))
       else lf_nma (fget qs a b))"
    and "lf_sf (fget (fold (prt_peer n c e i j pre later) pps qs) a b) = lf_sf (fget qs a b)"
  using assms
proof (induction pps arbitrary: qs)
  case (Cons pp pps)
  case 1
  have ok: "ok_ix qs a b" "ok_ix qs (px_lpx pp) (px_lf pp)" using 1 static_ok_ix [OF 1(3)] by auto
  note ptext = static_peer_text [OF 1(3) ok(2), of n pre]
  show ?case using 1 ok ptext Cons.IH(1) [of "prt_peer n c e i j pre later pp qs"] by (auto simp: prt_peer_fget)
next
  case (Cons pp pps)
  case 2
  have ok: "ok_ix qs a b" using 2 static_ok_ix [OF 2(3)] by auto
  show ?case using 2 ok Cons.IH(2) [of "prt_peer n c e i j pre later pp qs"] by (auto simp: prt_peer_fget)
qed simp_all

text \<open>The files of a process are handled in order, and none changes another's name addition or selection.\<close>

definition pipe_peers :: "px_hash \<Rightarrow> lproc list \<Rightarrow> int \<Rightarrow> lfile \<Rightarrow> pxinfo list" where
  "pipe_peers hash ps pid l = peers hash (endpoint_accept_other_than_self ps pid l) (int_of_ino (lf_inode l))"

lemma pipe_peers_ok: "pp \<in> set (pipe_peers hash ps pid l) \<Longrightarrow> ok_ix ps (px_lpx pp) (px_lf pp)"
  by (auto simp: pipe_peers_def peers_def endpoint_accept_other_than_self_def px_file_ix split: if_splits)

definition pipe_step :: "nat \<Rightarrow> lsof_context \<Rightarrow> px_hash \<Rightarrow> nat \<Rightarrow> nat \<Rightarrow> int \<Rightarrow> nat \<Rightarrow> lproc list \<Rightarrow> lproc list" where
  "pipe_step n ctx hash f i pid =
    process_file ctx f i (\<lambda>l. lf_ntype l = N_FIFO \<and> lf_inp_ty l = 1) CHEND_PIPE
      (\<lambda>j later l. peer_loop hash (\<lambda>qs. endpoint_accept_other_than_self qs pid l) (int_of_ino (lf_inode l))
         (\<lambda>_. prt_pinfo n i j later) True None)"

lemma process_pinfo_steps:
  "process_pinfo n ctx hash f i ps =
    (if fepte ctx = 0 then ps else fold (pipe_step n ctx hash f i (lp_pid (ps ! i))) [0..<length (lp_file (ps ! i))] ps)"
  by (simp add: process_pinfo_def process_files_def pipe_step_def)

lemma prt_pinfo_fun: "prt_pinfo n i j later = prt_peer n CHEND_PIPE EPT_PIPE_END i j [] later"
  by (simp add: prt_pinfo_def fun_eq_iff)

lemma pipe_step_0:
  "pipe_step n ctx hash 0 i pid j ps =
    (let l = fget ps i j in
     if lf_ntype l = N_FIFO \<and> lf_inp_ty l = 1 \<and> is_file_sel ctx (Some l)
     then fold (prt_peer n CHEND_PIPE EPT_PIPE_END i j [] (fepte ctx = 2)) (pipe_peers hash ps pid l) ps else ps)"
  by (simp add: pipe_step_def process_file_def Let_def fget_def prt_pinfo_fun peer_loop_peers [OF refl] pipe_peers_def)

lemma pipe_step_1:
  "pipe_step n ctx hash (Suc 0) i pid j ps =
    (let l = fget ps i j;
         qs = upd_proc i (\<lambda>p. p\<lparr> lp_pss := lp_pss p OR PS_SEC \<rparr>) (upd_file i j (\<lambda>l. l\<lparr> lf_sf := selflags ctx \<rparr>) ps) in
     if lf_ntype l = N_FIFO \<and> lf_inp_ty l = 1 \<and> \<not> is_file_sel ctx (Some l) \<and> has_flag (lf_chend l) CHEND_PIPE
     then fold (prt_peer n CHEND_PIPE EPT_PIPE_END i j [] False) (pipe_peers hash qs pid l) qs else ps)"
  by (simp add: pipe_step_def process_file_def Let_def fget_def prt_pinfo_fun peer_loop_peers [OF refl] pipe_peers_def)

lemma is_file_sel_sf: "lf_sf k = lf_sf l \<Longrightarrow> is_file_sel ctx (Some k) = is_file_sel ctx (Some l)"
  by (simp add: is_file_sel_def)

lemma static_pipe_peers:
  assumes "static_ps qs = static_ps ps" "static_file k = static_file l"
  shows "pipe_peers hash qs pid k = pipe_peers hash ps pid l"
proof -
  have "endpoint_accept_other_than_self qs pid k = endpoint_accept_other_than_self ps pid l"
    using static_accept [OF assms] by blast
  then show ?thesis by (simp add: pipe_peers_def static_file_members [OF assms(2)])
qed

lemma static_fold_prt [simp]: "static_ps (fold (prt_peer n c e i j pre later) pps ps) = static_ps ps"
  by (induction pps arbitrary: ps) simp_all

definition pipe_texts :: "nat \<Rightarrow> px_hash \<Rightarrow> lproc list \<Rightarrow> int \<Rightarrow> lfile \<Rightarrow> cstring list" where
  "pipe_texts n hash ps pid l =
    map (\<lambda>pp. peer_text n [] (ps ! px_lpx pp) (fget ps (px_lpx pp) (px_lf pp))) (pipe_peers hash ps pid l)"

definition pipe_sel :: "lsof_context \<Rightarrow> lfile \<Rightarrow> bool" where
  "pipe_sel ctx l \<longleftrightarrow> lf_ntype l = N_FIFO \<and> lf_inp_ty l = 1 \<and> is_file_sel ctx (Some l)"

text \<open>
  The first pass over files, whatever the eligible files and their peers \<open>pl\<close>: nothing changes but the name
  additions, and those of the eligible selected files gain their peers.
\<close>

definition peer_texts :: "nat \<Rightarrow> lproc list \<Rightarrow> pxinfo list \<Rightarrow> cstring list" where
  "peer_texts n ps pps = map (\<lambda>pp. peer_text n [] (ps ! px_lpx pp) (fget ps (px_lpx pp) (px_lf pp))) pps"

definition pass_run ::
  "nat \<Rightarrow> flags32 \<Rightarrow> flags32 \<Rightarrow> nat \<Rightarrow> lproc list \<Rightarrow> (lfile \<Rightarrow> bool) \<Rightarrow> (lfile \<Rightarrow> pxinfo list)
    \<Rightarrow> (nat \<Rightarrow> bool \<Rightarrow> lfile \<Rightarrow> lproc list \<Rightarrow> lproc list) \<Rightarrow> bool" where
  "pass_run n c e i ps elig pl run \<longleftrightarrow>
    (\<forall>j later l qs. static_ps qs = static_ps ps \<longrightarrow> run j later l qs = fold (prt_peer n c e i j [] later) (pl l) qs) \<and>
    (\<forall>k l. static_file k = static_file l \<longrightarrow> elig k = elig l \<and> pl k = pl l) \<and>
    (\<forall>l. \<forall>pp \<in> set (pl l). ok_ix ps (px_lpx pp) (px_lf pp))"

lemma file_0_effect:
  assumes run: "pass_run n c e i ps elig pl run" and st: "static_ps qs = static_ps ps" and ix: "ok_ix ps i j" "ok_ix ps a b"
    and sf: "lf_sf (fget qs i j) = lf_sf (fget ps i j)"
  shows "static_ps (process_file ctx 0 i elig chend run j qs) = static_ps ps"
    and "lf_sf (fget (process_file ctx 0 i elig chend run j qs) a b) = lf_sf (fget qs a b)"
    and "lf_nma (fget (process_file ctx 0 i elig chend run j qs) a b) =
      (if a = i \<and> b = j \<and> elig (fget ps i j) \<and> is_file_sel ctx (Some (fget ps i j))
       then fold nma_add (peer_texts n ps (pl (fget ps i j))) (lf_nma (fget qs a b)) else lf_nma (fget qs a b))"
proof -
  have fst: "static_file (fget qs i j) = static_file (fget ps i j)" using static_fget [OF st] ix(1) static_ok_ix [OF st] by auto
  have m: "elig (fget qs i j) = elig (fget ps i j)" "pl (fget qs i j) = pl (fget ps i j)" using run fst unfolding pass_run_def by blast+
  have "run j later l qs = fold (prt_peer n c e i j [] later) (pl l) qs" for later l using run st unfolding pass_run_def by blast
  then have step: "process_file ctx 0 i elig chend run j qs =
      (if elig (fget ps i j) \<and> is_file_sel ctx (Some (fget ps i j))
       then fold (prt_peer n c e i j [] (fepte ctx = 2)) (pl (fget ps i j)) qs else qs)"
    using m is_file_sel_sf [OF sf, of ctx] by (simp add: process_file_def fget_def Let_def)
  have ok: "\<forall>pp \<in> set (pl (fget ps i j)). ok_ix ps (px_lpx pp) (px_lf pp)" using run unfolding pass_run_def by blast
  note eff = prt_peer_fold_fget [OF ix(2) ok st]
  show "static_ps (process_file ctx 0 i elig chend run j qs) = static_ps ps" using st by (simp add: step)
  show "lf_sf (fget (process_file ctx 0 i elig chend run j qs) a b) = lf_sf (fget qs a b)" using eff(2) by (simp add: step)
  show "lf_nma (fget (process_file ctx 0 i elig chend run j qs) a b) =
      (if a = i \<and> b = j \<and> elig (fget ps i j) \<and> is_file_sel ctx (Some (fget ps i j))
       then fold nma_add (peer_texts n ps (pl (fget ps i j))) (lf_nma (fget qs a b)) else lf_nma (fget qs a b))"
    unfolding step peer_texts_def
    by (cases "elig (fget ps i j) \<and> is_file_sel ctx (Some (fget ps i j))") (simp_all only: if_True if_False eff(1) simp_thms)
qed

lemma files_0_effect:
  assumes run: "pass_run n c e i ps elig pl run" and "m \<le> length (lp_file (ps ! i))" "i < length ps"
    and "qs = fold (process_file ctx 0 i elig chend run) [0..<m] ps"
  shows "static_ps qs = static_ps ps \<and> (\<forall>a b. ok_ix ps a b \<longrightarrow> lf_sf (fget qs a b) = lf_sf (fget ps a b) \<and>
    lf_nma (fget qs a b) =
      (if a = i \<and> b < m \<and> elig (fget ps a b) \<and> is_file_sel ctx (Some (fget ps a b))
       then fold nma_add (peer_texts n ps (pl (fget ps a b))) (lf_nma (fget ps a b)) else lf_nma (fget ps a b)))"
  using assms(2) unfolding assms(4)
proof (induction m)
  case (Suc m)
  let ?step = "process_file ctx 0 i elig chend run"
  let ?qs = "fold ?step [0..<m] ps"
  have IH: "static_ps ?qs = static_ps ps" "\<And>a b. ok_ix ps a b \<Longrightarrow> lf_sf (fget ?qs a b) = lf_sf (fget ps a b)"
    "\<And>a b. ok_ix ps a b \<Longrightarrow> lf_nma (fget ?qs a b) =
      (if a = i \<and> b < m \<and> elig (fget ps a b) \<and> is_file_sel ctx (Some (fget ps a b))
       then fold nma_add (peer_texts n ps (pl (fget ps a b))) (lf_nma (fget ps a b)) else lf_nma (fget ps a b))"
    using Suc by auto
  have ix: "ok_ix ps i m" using Suc.prems assms(3) by (simp add: ok_ix_def)
  note eff = file_0_effect [OF run IH(1) ix _ IH(2) [OF ix], of _ _ ctx chend]
  have "lf_sf (fget (?step m ?qs) a b) = lf_sf (fget ps a b)" if "ok_ix ps a b" for a b
    using eff(2) [OF that] IH(2) [OF that] by simp
  moreover have "lf_nma (fget (?step m ?qs) a b) =
      (if a = i \<and> b < Suc m \<and> elig (fget ps a b) \<and> is_file_sel ctx (Some (fget ps a b))
       then fold nma_add (peer_texts n ps (pl (fget ps a b))) (lf_nma (fget ps a b)) else lf_nma (fget ps a b))"
    if "ok_ix ps a b" for a b
    using eff(3) [OF that] IH(3) [OF that] by (auto simp: less_Suc_eq)
  ultimately show ?case using eff(1) [OF ix] by simp
qed simp

lemma process_files_0_nma:
  assumes "pass_run n c e i ps elig pl run" "fepte ctx \<noteq> 0" "ok_ix ps i j"
  shows "lf_nma (fget (process_files ctx 0 i elig chend run ps) i j) =
    (if elig (fget ps i j) \<and> is_file_sel ctx (Some (fget ps i j))
     then fold nma_add (peer_texts n ps (pl (fget ps i j))) (lf_nma (fget ps i j)) else lf_nma (fget ps i j))"
  using files_0_effect [OF assms(1) order.refl _ refl, of ctx chend] assms(2,3) by (auto simp: process_files_def ok_ix_def)

lemma pipe_run:
  "pass_run n CHEND_PIPE EPT_PIPE_END i ps (\<lambda>l. lf_ntype l = N_FIFO \<and> lf_inp_ty l = 1) (pipe_peers hash ps pid)
    (\<lambda>j later l. peer_loop hash (\<lambda>qs. endpoint_accept_other_than_self qs pid l) (int_of_ino (lf_inode l))
       (\<lambda>_. prt_pinfo n i j later) True None)"
  unfolding pass_run_def prt_pinfo_fun
proof (intro conjI allI impI ballI)
  fix k l :: lfile assume st: "static_file k = static_file l"
  show "(lf_ntype k = N_FIFO \<and> lf_inp_ty k = 1) = (lf_ntype l = N_FIFO \<and> lf_inp_ty l = 1)"
    using static_file_members(5,6) [OF st] by simp
  show "pipe_peers hash ps pid k = pipe_peers hash ps pid l" by (rule static_pipe_peers [OF refl st])
qed (simp_all add: peer_loop_peers pipe_peers_def [symmetric] pipe_peers_ok)

text \<open>
  C13: with endpoint information requested, a selected pipe's name column gains exactly its peers: the
  process, command, descriptor and access of every other descriptor that was entered for its inode, in
  the order they were entered; an unselected file's name column gains nothing.
\<close>

theorem process_pinfo_lists_peers:
  assumes "fepte ctx \<noteq> 0" "ok_ix ps i j"
  shows "lf_nma (fget (process_pinfo n ctx hash 0 i ps) i j) =
    (if pipe_sel ctx (fget ps i j)
     then fold nma_add (pipe_texts n hash ps (lp_pid (ps ! i)) (fget ps i j)) (lf_nma (fget ps i j))
     else lf_nma (fget ps i j))"
  unfolding process_pinfo_def pipe_sel_def pipe_texts_def process_files_0_nma [OF pipe_run assms] peer_texts_def by simp

section \<open>Peers are selected\<close>

text \<open>
  What both passes keep: a mark, a selection, and what makes a process take part.
\<close>

definition px_marked :: "lproc list \<Rightarrow> nat \<Rightarrow> nat \<Rightarrow> bool" where
  "px_marked ps a b \<longleftrightarrow> has_flag (lf_chend (fget ps a b)) CHEND_PIPE \<and> has_flag (lp_ept (ps ! a)) EPT_PIPE_END"

definition ep_le :: "lsof_context \<Rightarrow> lproc list \<Rightarrow> lproc list \<Rightarrow> bool" where
  "ep_le ctx ps qs \<longleftrightarrow> static_ps qs = static_ps ps \<and>
    (\<forall>a b. ok_ix ps a b \<longrightarrow> (px_marked ps a b \<longrightarrow> px_marked qs a b) \<and>
      (is_file_sel ctx (Some (fget ps a b)) \<longrightarrow> is_file_sel ctx (Some (fget qs a b)))) \<and>
    (\<forall>a < length ps. (lp_pss (ps ! a) \<noteq> 0 \<longrightarrow> lp_pss (qs ! a) \<noteq> 0) \<and>
      (has_flag (lp_ept (ps ! a)) EPT_PIPE \<longrightarrow> has_flag (lp_ept (qs ! a)) EPT_PIPE))"

lemma ep_le_refl [simp]: "ep_le ctx ps ps"
  by (simp add: ep_le_def)

lemma ep_le_trans: "ep_le ctx ps qs \<Longrightarrow> ep_le ctx qs rs \<Longrightarrow> ep_le ctx ps rs"
  unfolding ep_le_def using static_ok_ix [of qs ps] static_length [of qs ps] by auto

lemma ep_le_fold: "(\<And>x qs. x \<in> set xs \<Longrightarrow> ep_le ctx qs (f x qs)) \<Longrightarrow> ep_le ctx ps (fold f xs ps)"
proof (induction xs arbitrary: ps)
  case (Cons x xs)
  have "ep_le ctx ps (f x ps)" "ep_le ctx (f x ps) (fold f xs (f x ps))" using Cons by auto
  then show ?case using ep_le_trans by auto
qed simp

lemma ep_le_upd_file:
  assumes "\<And>l. static_file (f l) = static_file l"
    and "ok_ix ps i j \<Longrightarrow> has_flag (lf_chend (fget ps i j)) CHEND_PIPE \<longrightarrow> has_flag (lf_chend (f (fget ps i j))) CHEND_PIPE"
    and "ok_ix ps i j \<Longrightarrow> is_file_sel ctx (Some (fget ps i j)) \<longrightarrow> is_file_sel ctx (Some (f (fget ps i j)))"
  shows "ep_le ctx ps (upd_file i j f ps)"
  using assms by (auto simp: ep_le_def static_upd_file px_marked_def fget_upd_file)

lemma or_keeps_flag: "has_flag w b \<Longrightarrow> has_flag (w OR v) b"
  by (simp add: has_flag_or)

lemma or_nonzero: "(w :: flags32) \<noteq> 0 \<Longrightarrow> w OR v \<noteq> 0"
  by (metis or_eq_0_iff)

lemma nth_upd_proc: "upd_proc i g ps ! a = (if a = i \<and> i < length ps then g (ps ! a) else ps ! a)"
  by (simp add: upd_proc_def nth_list_update)

lemma ep_le_ept: "ep_le ctx ps (upd_proc i (\<lambda>p. p\<lparr> lp_ept := lp_ept p OR e \<rparr>) ps)"
  by (simp add: ep_le_def static_upd_proc px_marked_def fget_upd_proc nth_upd_proc or_keeps_flag)

lemma ep_le_pss: "ep_le ctx ps (upd_proc i (\<lambda>p. p\<lparr> lp_pss := lp_pss p OR e \<rparr>) ps)"
  by (simp add: ep_le_def static_upd_proc px_marked_def fget_upd_proc nth_upd_proc or_nonzero)

lemma ep_le_nma: "ep_le ctx ps (upd_file i j (add_nma t) ps)"
  by (rule ep_le_upd_file) (simp_all add: is_file_sel_def)

lemma ep_le_prt: "ep_le ctx ps (prt_peer n CHEND_PIPE EPT_PIPE_END i j pre later pp ps)"
proof (cases "px_file ps pp")
  case (Some ef)
  let ?ps1 = "upd_file i j (add_nma (peer_text n pre (ps ! px_lpx pp) ef)) ps"
  let ?ps2 = "upd_file (px_lpx pp) (px_lf pp) (\<lambda>f. f\<lparr> lf_chend := CHEND_PIPE \<rparr>) ?ps1"
  have "ep_le ctx ?ps1 ?ps2" by (rule ep_le_upd_file) (simp_all add: is_file_sel_def CHEND_PIPE_def)
  then have "ep_le ctx ps (upd_proc (px_lpx pp) (\<lambda>p. p\<lparr> lp_ept := lp_ept p OR EPT_PIPE_END \<rparr>) ?ps2)"
    using ep_le_trans [OF ep_le_trans [OF ep_le_nma]] ep_le_ept by blast
  then show ?thesis using Some by (simp add: prt_peer_def Let_def ep_le_nma)
qed (simp add: prt_peer_def)

definition sel_flags_ok :: "lsof_context \<Rightarrow> bool" where
  "sel_flags_ok ctx \<longleftrightarrow> selflags ctx \<noteq> 0 \<and> \<not> has_flag (selflags ctx) SELEXCLF"

lemma selflags_select: "sel_flags_ok ctx \<Longrightarrow> is_file_sel ctx (Some (l\<lparr> lf_sf := selflags ctx \<rparr>))"
  by (simp add: sel_flags_ok_def is_file_sel_def)

lemma ep_le_step:
  assumes "sel_flags_ok ctx" "f = 0 \<or> f = Suc 0"
  shows "ep_le ctx ps (pipe_step n ctx hash f i pid j ps)"
  using assms(2)
proof
  assume f: "f = 0"
  show ?thesis unfolding f pipe_step_0 Let_def by (auto intro: ep_le_fold ep_le_prt)
next
  assume f: "f = Suc 0"
  let ?ps1 = "upd_file i j (\<lambda>l. l\<lparr> lf_sf := selflags ctx \<rparr>) ps"
  let ?ps2 = "upd_proc i (\<lambda>p. p\<lparr> lp_pss := lp_pss p OR PS_SEC \<rparr>) ?ps1"
  have "ep_le ctx ps ?ps1" by (rule ep_le_upd_file) (simp_all add: selflags_select [OF assms(1)])
  then have "ep_le ctx ps ?ps2" using ep_le_pss ep_le_trans by blast
  moreover have "ep_le ctx ?ps2 (fold (prt_peer n CHEND_PIPE EPT_PIPE_END i j [] False) pps ?ps2)" for pps
    by (intro ep_le_fold ep_le_prt)
  ultimately show ?thesis unfolding f pipe_step_1 Let_def using ep_le_trans by auto
qed

lemma ep_le_process: "sel_flags_ok ctx \<Longrightarrow> f = 0 \<or> f = Suc 0 \<Longrightarrow> ep_le ctx ps (process_pinfo n ctx hash f i ps)"
  unfolding process_pinfo_steps by (auto intro: ep_le_fold ep_le_step)

lemma ep_le_pass: "sel_flags_ok ctx \<Longrightarrow> f = 0 \<or> f = Suc 0 \<Longrightarrow> ep_le ctx ps (pipe_pass n ctx hash f order ps)"
  unfolding pipe_pass_def by (rule ep_le_fold) (auto intro: ep_le_process)

lemma ep_le_static: "ep_le ctx ps qs \<Longrightarrow> static_ps qs = static_ps ps"
  by (simp add: ep_le_def)

lemma fold_reaches:
  assumes "x \<in> set xs" "\<And>y qs. y \<in> set xs \<Longrightarrow> ep_le ctx qs (f y qs)"
    "\<And>qs. ep_le ctx ps qs \<Longrightarrow> Q (f x qs)" "\<And>qs rs. ep_le ctx ps qs \<Longrightarrow> Q qs \<Longrightarrow> ep_le ctx qs rs \<Longrightarrow> Q rs"
  shows "Q (fold f xs ps)"
proof -
  obtain ys zs where xs: "xs = ys @ x # zs" using assms(1) by (metis split_list)
  let ?qs = "fold f ys ps"
  have le: "ep_le ctx ps ?qs" "ep_le ctx (f x ?qs) (fold f zs (f x ?qs))"
    using assms(2) xs by (intro ep_le_fold; simp)+
  moreover have "ep_le ctx ?qs (f x ?qs)" using assms(1,2) by blast
  ultimately show ?thesis using assms(3) [OF le(1)] assms(4) ep_le_trans unfolding xs by (metis fold_append fold_simps(2) comp_apply)
qed

lemma marked_mono: "ok_ix ps a b \<Longrightarrow> ep_le ctx ps qs \<Longrightarrow> px_marked qs a b \<Longrightarrow> ep_le ctx qs rs \<Longrightarrow> px_marked rs a b"
  using static_ok_ix [of qs ps a b] unfolding ep_le_def by blast

lemma sel_mono:
  "ok_ix ps a b \<Longrightarrow> ep_le ctx ps qs \<Longrightarrow> is_file_sel ctx (Some (fget qs a b)) \<Longrightarrow> ep_le ctx qs rs \<Longrightarrow> is_file_sel ctx (Some (fget rs a b))"
  using static_ok_ix [of qs ps a b] unfolding ep_le_def by blast

lemma prt_peer_marks:
  assumes "ok_ix ps (px_lpx pp) (px_lf pp)"
  shows "px_marked (prt_peer n CHEND_PIPE EPT_PIPE_END i j pre True pp ps) (px_lpx pp) (px_lf pp)"
proof -
  have "px_lpx pp < length ps" using assms by (simp add: ok_ix_def)
  then show ?thesis using assms
    by (simp add: px_marked_def prt_peer_fget prt_peer_def px_file_ix Let_def nth_upd_proc has_flag_or)
      (simp add: fget_upd_proc fget_upd_file flag_simps)
qed

lemma fold_prt_marks:
  assumes "pp \<in> set pps" "ok_ix ps (px_lpx pp) (px_lf pp)"
  shows "px_marked (fold (prt_peer n CHEND_PIPE EPT_PIPE_END i j pre True) pps ps) (px_lpx pp) (px_lf pp)"
proof (rule fold_reaches [where ctx = undefined, OF assms(1) ep_le_prt])
  fix qs assume "ep_le undefined ps qs"
  then have "ok_ix qs (px_lpx pp) (px_lf pp)" using assms(2) static_ok_ix [OF ep_le_static] by blast
  then show "px_marked (prt_peer n CHEND_PIPE EPT_PIPE_END i j pre True pp qs) (px_lpx pp) (px_lf pp)" by (rule prt_peer_marks)
qed (rule marked_mono [OF assms(2)])

lemma pass_0_marks:
  assumes ctx: "sel_flags_ok ctx" "fepte ctx = 2" and i: "i \<in> set order" "ok_ix ps i j" "pipe_sel ctx (fget ps i j)"
    "lp_pss (ps ! i) \<noteq> 0" "has_flag (lp_ept (ps ! i)) EPT_PIPE"
    and pp: "pp \<in> set (pipe_peers hash ps (lp_pid (ps ! i)) (fget ps i j))"
  shows "px_marked (pipe_pass n ctx hash 0 order ps) (px_lpx pp) (px_lf pp)"
proof -
  note okpp = pipe_peers_ok [OF pp] and ilen = i(2) [unfolded ok_ix_def]
  have step: "px_marked (pipe_step n ctx hash 0 i (lp_pid (ps ! i)) j qs) (px_lpx pp) (px_lf pp)" if le: "ep_le ctx ps qs" for qs
  proof -
    note st = ep_le_static [OF le]
    have sf: "static_file (fget qs i j) = static_file (fget ps i j)" using static_fget [OF st] static_ok_ix [OF st] i(2) by blast
    have "pipe_sel ctx (fget qs i j)"
      using i(3) static_file_members [OF sf] sel_mono [OF i(2) ep_le_refl _ le] by (simp add: pipe_sel_def)
    moreover have "pp \<in> set (pipe_peers hash qs (lp_pid (ps ! i)) (fget qs i j))" using pp static_pipe_peers [OF st sf] by simp
    ultimately show ?thesis using ctx(2) okpp static_ok_ix [OF st] fold_prt_marks
      unfolding pipe_step_0 Let_def pipe_sel_def by simp
  qed
  have proc: "px_marked (process_pinfo n ctx hash 0 i qs) (px_lpx pp) (px_lf pp)" if le: "ep_le ctx ps qs" for qs
  proof -
    note st = ep_le_static [OF le]
    have "lp_pid (qs ! i) = lp_pid (ps ! i)" "j < length (lp_file (qs ! i))"
      using static_proc(1) [OF st [symmetric]] static_ok_ix [OF st, of i j] i(2) by (auto simp: ok_ix_def)
    moreover have okq: "ok_ix qs (px_lpx pp) (px_lf pp)" using okpp static_ok_ix [OF st] by blast
    have "px_marked (fold (pipe_step n ctx hash 0 i (lp_pid (ps ! i))) xs qs) (px_lpx pp) (px_lf pp)" if "j \<in> set xs" for xs
      by (rule fold_reaches [where ctx = ctx, OF that ep_le_step [OF ctx(1)]])
        (simp, erule step [OF ep_le_trans [OF le]], erule (2) marked_mono [OF okq])
    ultimately show ?thesis unfolding process_pinfo_steps using ctx(2) by simp
  qed
  show ?thesis unfolding pipe_pass_def
  proof (rule fold_reaches [where ctx = ctx, OF i(1)])
    fix qs assume le: "ep_le ctx ps qs"
    then show "px_marked (if if 0 = (0 :: nat) then lp_pss (qs ! i) \<noteq> 0 \<and> has_flag (lp_ept (qs ! i)) EPT_PIPE else has_flag (lp_ept (qs ! i)) EPT_PIPE_END
        then process_pinfo n ctx hash 0 i qs else qs) (px_lpx pp) (px_lf pp)"
      using i ilen proc [OF le] by (simp add: ep_le_def)
  qed (auto intro: ep_le_process [OF ctx(1)] marked_mono [OF okpp])
qed

lemma pass_1_selects:
  assumes ctx: "sel_flags_ok ctx" "fepte ctx = 2" and a: "a \<in> set order" "ok_ix ps a b" "px_marked ps a b"
    "lf_ntype (fget ps a b) = N_FIFO" "lf_inp_ty (fget ps a b) = 1"
  shows "is_file_sel ctx (Some (fget (pipe_pass n ctx hash 1 order ps) a b))"
proof -
  have step: "is_file_sel ctx (Some (fget (pipe_step n ctx hash (Suc 0) a pid b qs) a b))" if le: "ep_le ctx ps qs" for pid qs
  proof (cases "is_file_sel ctx (Some (fget qs a b))")
    case True
    have "ok_ix qs a b" using static_ok_ix [OF ep_le_static [OF le]] a(2) by blast
    then show ?thesis using sel_mono [OF _ ep_le_refl True ep_le_step [OF ctx(1)]] by blast
  next
    case False
    note st = ep_le_static [OF le]
    have ok: "ok_ix qs a b" using static_ok_ix [OF st] a(2) by blast
    have sf: "static_file (fget qs a b) = static_file (fget ps a b)" using static_fget [OF st] ok by blast
    have m: "has_flag (lf_chend (fget qs a b)) CHEND_PIPE"
      using marked_mono [OF a(2) ep_le_refl a(3) le] by (simp add: px_marked_def)
    let ?qs = "upd_proc a (\<lambda>p. p\<lparr> lp_pss := lp_pss p OR PS_SEC \<rparr>) (upd_file a b (\<lambda>l. l\<lparr> lf_sf := selflags ctx \<rparr>) qs)"
    have "ok_ix ?qs a b" using ok by (simp add: ok_ix_upd_proc)
    moreover have "is_file_sel ctx (Some (fget ?qs a b))" using ok by (simp add: fget_upd_proc fget_upd_file selflags_select [OF ctx(1)])
    moreover have "ep_le ctx ?qs (fold (prt_peer n CHEND_PIPE EPT_PIPE_END a b [] False) pps ?qs)" for pps
      by (intro ep_le_fold ep_le_prt)
    ultimately show ?thesis
      using False m a(4,5) static_file_members(5,6) [OF sf] sel_mono [OF _ ep_le_refl] unfolding pipe_step_1 Let_def by simp
  qed
  have proc: "is_file_sel ctx (Some (fget (process_pinfo n ctx hash (Suc 0) a qs) a b))" if le: "ep_le ctx ps qs" for qs
  proof -
    have "b < length (lp_file (qs ! a))" using static_ok_ix [OF ep_le_static [OF le], of a b] a(2) by (simp add: ok_ix_def)
    moreover have okq: "ok_ix qs a b" using a(2) static_ok_ix [OF ep_le_static [OF le]] by blast
    have "is_file_sel ctx (Some (fget (fold (pipe_step n ctx hash (Suc 0) a pid) xs qs) a b))" if "b \<in> set xs" for pid xs
      by (rule fold_reaches [where ctx = ctx, OF that ep_le_step [OF ctx(1)]])
        (simp, erule step [OF ep_le_trans [OF le]], erule (2) sel_mono [OF okq])
    ultimately show ?thesis unfolding process_pinfo_steps using ctx(2) by simp
  qed
  show ?thesis unfolding pipe_pass_def
  proof (rule fold_reaches [where ctx = ctx, OF a(1)])
    fix qs assume le: "ep_le ctx ps qs"
    have "has_flag (lp_ept (qs ! a)) EPT_PIPE_END"
      using marked_mono [OF a(2) ep_le_refl a(3) le] by (simp add: px_marked_def)
    then show "is_file_sel ctx (Some (fget (if if 1 = (0 :: nat) then lp_pss (qs ! a) \<noteq> 0 \<and> has_flag (lp_ept (qs ! a)) EPT_PIPE
        else has_flag (lp_ept (qs ! a)) EPT_PIPE_END then process_pinfo n ctx hash 1 a qs else qs) a b))"
      using proc [OF le] by simp
  qed (auto intro: ep_le_process [OF ctx(1)] sel_mono [OF a(2)])
qed


text \<open>Zeroed file and process structures, for the examples.\<close>

definition zero_lts :: ltstate where
  "zero_lts = \<lparr> lt_type = 0, lt_state = 0, lt_pqlens = False, lt_qlens = False, lt_qlims = False, lt_rbszs = False,
    lt_sbszs = False, lt_kai = 0, lt_ltm = 0, lt_opt = 0, lt_pqlen = 0, lt_qlen = 0, lt_qlim = 0, lt_rbsz = 0,
    lt_sbsz = 0, lt_ss = 0, lt_rq = 0, lt_sq = 0, lt_rqs = False, lt_sqs = False \<rparr>"

definition zero_lfile :: lfile where
  "zero_lfile = \<lparr> lf_access = LSOF_FILE_ACCESS_NONE, lf_lock = LSOF_LOCK_NONE, lf_dev_def = False, lf_inp_ty = 0,
    lf_is_com = False, lf_is_nfs = False, lf_is_stream = False, lf_lmi_srch = False, lf_nlink_def = False,
    lf_off_def = False, lf_chend = 0, lf_eventfd_id = - 1, lf_tty_index = - 1, lf_rdev_def = False, lf_sz_def = False,
    lf_fd_type = LSOF_FD_NUMERIC, lf_fd_num = 0, lf_iproto = [], lf_type = 0, lf_unk_type = 0, lf_sf = 0, lf_ch = - 1,
    lf_ntype = 0, lf_off = 0, lf_sz = 0, lf_dev = 0, lf_rdev = 0, lf_inode = 0, lf_nlink = 0, lf_dev_ch = None,
    lf_fsdir = None, lf_fsdev = None, lf_li0 = \<lparr> li_af = 0, li_p = 0, li_ia = [] \<rparr>, lf_li1 = \<lparr> li_af = 0, li_p = 0, li_ia = [] \<rparr>,
    lf_lts = zero_lts, lf_nm = None, lf_nma = None, lf_fsv = 0, lf_fct = 0, lf_ffg = 0, lf_pof = 0 \<rparr>"

definition pipe_file :: "int \<Rightarrow> 64 word \<Rightarrow> lsof_file_access_mode \<Rightarrow> flags32 \<Rightarrow> lfile" where
  "pipe_file fd ino acc sf = zero_lfile\<lparr> lf_fd_num := fd, lf_inode := ino, lf_access := acc, lf_inp_ty := 1, lf_ntype := N_FIFO, lf_sf := sf \<rparr>"

definition pipe_proc :: "int \<Rightarrow> cstring \<Rightarrow> flags32 \<Rightarrow> lfile list \<Rightarrow> lproc" where
  "pipe_proc pid cmd pss fs = \<lparr> lp_cmd = cmd, lp_sf = 0, lp_pss = pss, lp_ept = EPT_PIPE, lp_pid = pid, lp_tid = 0,
    lp_tcmd = None, lp_pgid = 0, lp_ppid = 0, lp_uid = 0, lp_file = fs \<rparr>"

text \<open>The shell's selected end of a pipe and the other program's end.\<close>

definition pipe_ps :: "lproc list" where
  "pipe_ps = [pipe_proc 10 ''sh'' PS_SEC [pipe_file 1 77 LSOF_FILE_ACCESS_WRITE SELPID],
              pipe_proc 20 ''cat'' 0 [pipe_file 0 77 LSOF_FILE_ACCESS_READ 0]]"

definition pipe_hash :: px_hash where
  "pipe_hash = Some ((\<lambda>_. [])(HASHPINFO 77 := [\<lparr> px_ino = 77, px_lf = 0, px_lpx = 0 \<rparr>, \<lparr> px_ino = 77, px_lf = 0, px_lpx = 1 \<rparr>]))"

definition pipe_ctx :: lsof_context where
  "pipe_ctx = lsof_new\<lparr> fepte := 2, selflags := SELPID, allproc := False \<rparr>"

lemma pipe_example:
  "int_of_ino 77 = 77" "ok_ix pipe_ps 0 0" "fget pipe_ps 0 0 = pipe_file 1 77 LSOF_FILE_ACCESS_WRITE SELPID"
  "fget pipe_ps (Suc 0) 0 = pipe_file 0 77 LSOF_FILE_ACCESS_READ 0" "pipe_sel pipe_ctx (pipe_file 1 77 LSOF_FILE_ACCESS_WRITE SELPID)"
  "pipe_peers pipe_hash pipe_ps 10 (pipe_file 1 77 LSOF_FILE_ACCESS_WRITE SELPID) = [\<lparr> px_ino = 77, px_lf = 0, px_lpx = 1 \<rparr>]"
proof -
  show i: "int_of_ino 77 = 77" by (simp add: int_of_ino_def in_s32_def)
  show "ok_ix pipe_ps 0 0" "fget pipe_ps 0 0 = pipe_file 1 77 LSOF_FILE_ACCESS_WRITE SELPID"
    "fget pipe_ps (Suc 0) 0 = pipe_file 0 77 LSOF_FILE_ACCESS_READ 0"
    by (simp_all add: ok_ix_def fget_def pipe_ps_def pipe_proc_def)
  show "pipe_sel pipe_ctx (pipe_file 1 77 LSOF_FILE_ACCESS_WRITE SELPID)"
    by (simp add: pipe_sel_def pipe_file_def is_file_sel_def pipe_ctx_def flag_simps)
  have "lf_inode (pipe_file 1 77 a s) = 77" for a s by (simp add: pipe_file_def)
  then show "pipe_peers pipe_hash pipe_ps 10 (pipe_file 1 77 LSOF_FILE_ACCESS_WRITE SELPID) = [\<lparr> px_ino = 77, px_lf = 0, px_lpx = 1 \<rparr>]"
    by (simp add: pipe_peers_def peers_def find_start_def pipe_hash_def i endpoint_accept_other_than_self_def px_file_def pipe_ps_def pipe_proc_def)
qed

theorem process_pinfo_lists_peers_witness:
  "lf_nma (fget (process_pinfo 9 pipe_ctx pipe_hash 0 0 pipe_ps) 0 0) = Some ''20,cat,0r''"
proof -
  have t: "pipe_texts 9 pipe_hash pipe_ps 10 (pipe_file 1 77 LSOF_FILE_ACCESS_WRITE SELPID) = [''20,cat,0r'']"
    unfolding pipe_texts_def pipe_example(6) by code_simp
  have "fepte pipe_ctx \<noteq> 0" "lp_pid (pipe_ps ! 0) = 10" "lf_nma (pipe_file 1 77 LSOF_FILE_ACCESS_WRITE SELPID) = None"
    by (simp_all add: pipe_ctx_def pipe_ps_def pipe_proc_def pipe_file_def zero_lfile_def)
  then show ?thesis
    using process_pinfo_lists_peers [of pipe_ctx pipe_ps 0 0 9 pipe_hash] pipe_example(2,3,5) t by (simp add: nma_add_def)
qed

text \<open>
  C4: with \<open>+E\<close> every peer of a selected pipe ends up selected.  After the two passes over all processes the
  file at the other end, in whatever process and whether selected before or not, is one that is
  printed.
\<close>

theorem pipe_peers_selected:
  assumes "sel_flags_ok ctx" "fepte ctx = 2" "set order = {..<length ps}" "ok_ix ps i j" "pipe_sel ctx (fget ps i j)"
    "lp_pss (ps ! i) \<noteq> 0" "has_flag (lp_ept (ps ! i)) EPT_PIPE"
    "pp \<in> set (pipe_peers hash ps (lp_pid (ps ! i)) (fget ps i j))"
    "lf_ntype (fget ps (px_lpx pp) (px_lf pp)) = N_FIFO" "lf_inp_ty (fget ps (px_lpx pp) (px_lf pp)) = 1"
  shows "is_file_sel ctx (Some (fget (pipe_pass n ctx hash 1 order (pipe_pass n ctx hash 0 order ps)) (px_lpx pp) (px_lf pp)))"
proof -
  let ?qs = "pipe_pass n ctx hash 0 order ps"
  have le: "ep_le ctx ps ?qs" using ep_le_pass [OF assms(1)] by blast
  note st = ep_le_static [OF le] and okpp = pipe_peers_ok [OF assms(8)]
  have sf: "static_file (fget ?qs (px_lpx pp) (px_lf pp)) = static_file (fget ps (px_lpx pp) (px_lf pp))"
    using static_fget [OF st] static_ok_ix [OF st] okpp by blast
  have "i \<in> set order" "px_lpx pp \<in> set order" using assms(3,4) okpp by (auto simp: ok_ix_def)
  moreover have "px_marked ?qs (px_lpx pp) (px_lf pp)" using pass_0_marks assms(1,2,4-8) calculation(1) by blast
  ultimately show ?thesis
    using pass_1_selects [OF assms(1,2)] static_ok_ix [OF st] okpp static_file_members(5,6) [OF sf] assms(9,10) by simp
qed

theorem pipe_peers_selected_witness:
  "is_file_sel pipe_ctx (Some (fget (pipe_pass 9 pipe_ctx pipe_hash 1 [0, 1] (pipe_pass 9 pipe_ctx pipe_hash 0 [0, 1] pipe_ps)) 1 0))"
proof -
  have "sel_flags_ok pipe_ctx" "fepte pipe_ctx = 2" "set [0, 1] = {..<length pipe_ps}" "lp_pss (pipe_ps ! 0) \<noteq> 0"
    "has_flag (lp_ept (pipe_ps ! 0)) EPT_PIPE" "lp_pid (pipe_ps ! 0) = 10"
    by (auto simp: sel_flags_ok_def pipe_ctx_def pipe_ps_def pipe_proc_def flag_simps)
  then show ?thesis
    using pipe_peers_selected [of pipe_ctx "[0, 1]" pipe_ps 0 0 "\<lparr> px_ino = 77, px_lf = 0, px_lpx = 1 \<rparr>" pipe_hash 9] pipe_example
    by (simp add: pipe_file_def)
qed


section \<open>Where the peers are wrong\<close>

text \<open>A file that was entered and then linked is found for every file with the same identifier.\<close>

lemma entered_is_peer:
  assumes new: "\<not> list_ex (\<lambda>pi. px_ino pi = of_int (int_of_ino (lf_inode l1)) \<and> same_fd ps (lp_pid (last ps)) l1 pi)
      (find_start hash (int_of_ino (lf_inode l1)) None)"
    and ps: "ps \<noteq> []" "qs = butlast ps @ [(last ps)\<lparr> lp_file := lp_file (last ps) @ [k] \<rparr>]"
    and ino: "int_of_ino (lf_inode l1) = int_of_ino (lf_inode l2)"
    and other: "lf_fd_type l2 \<noteq> lf_fd_type k \<or> lf_fd_num l2 \<noteq> lf_fd_num k \<or> pid \<noteq> lp_pid (last ps)"
  shows "\<lparr> px_ino = of_int (int_of_ino (lf_inode l1)), px_lf = length (lp_file (last ps)), px_lpx = length ps - 1 \<rparr>
    \<in> set (pipe_peers (enter_pinfo ps l1 hash) qs pid l2)"
proof -
  let ?i = "int_of_ino (lf_inode l1)"
  let ?pi = "\<lparr> px_ino = of_int ?i, px_lf = length (lp_file (last ps)), px_lpx = length ps - 1 \<rparr> :: pxinfo"
  let ?tbl = "case hash of None \<Rightarrow> (\<lambda>_. []) | Some t \<Rightarrow> t"
  have "find_start hash ?i None = ?tbl (HASHPINFO ?i)" by (simp add: find_start_def split: option.splits)
  then have e: "enter_pinfo ps l1 hash = Some (?tbl(HASHPINFO ?i := ?tbl (HASHPINFO ?i) @ [?pi]))"
    using new by (simp add: enter_pinfo_def endpoint_enter_def Let_def)
  have "qs ! (length ps - 1) = (last ps)\<lparr> lp_file := lp_file (last ps) @ [k] \<rparr>" "length qs = length ps"
    using ps by (simp_all add: nth_append)
  then have "px_file qs ?pi = Some k" "lp_pid (qs ! (length ps - 1)) = lp_pid (last ps)" using ps by (simp_all add: px_file_def)
  then have "endpoint_accept_other_than_self qs pid l2 ?pi" using other by (simp add: endpoint_accept_other_than_self_def)
  then show ?thesis by (simp add: pipe_peers_def peers_def find_start_def e ino)
qed

text \<open>
  C40: two pipes are taken for one when their inode numbers agree in the low 32 bits, because the endpoint
  tables key on an \<open>int\<close>; and with the column limit 0, which means no limit when a command is printed,
  a peer's command is left out altogether.
\<close>

theorem peers_wrong:
  assumes "ps \<noteq> []" "qs = butlast ps @ [(last ps)\<lparr> lp_file := lp_file (last ps) @ [l1] \<rparr>]"
    "lf_inode l2 = lf_inode l1 + 4294967296" "pid \<noteq> lp_pid (last ps)"
  shows "\<exists>pp \<in> set (pipe_peers (enter_pinfo ps l1 None) qs pid l2). px_file qs pp = Some l1 \<and>
    peer_text 0 [] (qs ! px_lpx pp) l1 =
      take 1022 (dec_int (lp_pid (last ps)) @ '',,'' @ fd_to_string (lf_fd_type l1) (lf_fd_num l1) @ [access_to_char (lf_access l1)])"
proof -
  let ?pi = "\<lparr> px_ino = of_int (int_of_ino (lf_inode l1)), px_lf = length (lp_file (last ps)), px_lpx = length ps - 1 \<rparr>"
  have "uint (lf_inode l1 + 4294967296) mod 4294967296 = uint (lf_inode l1) mod 4294967296"
    by (simp add: uint_word_ariths mod_mod_cancel)
  from mod_add_cong [OF this refl, of 2147483648]
  have ino: "int_of_ino (lf_inode l1) = int_of_ino (lf_inode l2)" unfolding int_of_ino_def s32_def assms(3) by simp
  have "?pi \<in> set (pipe_peers (enter_pinfo ps l1 None) qs pid l2)"
    using assms(4) by (intro entered_is_peer [OF _ assms(1,2) ino]) (simp_all add: find_start_def)
  moreover have q: "qs ! (length ps - 1) = (last ps)\<lparr> lp_file := lp_file (last ps) @ [l1] \<rparr>" "length qs = length ps"
    using assms(1,2) by (simp_all add: nth_append)
  then have "px_file qs ?pi = Some l1" using assms(1) by (simp add: px_file_def)
  ultimately show ?thesis using q by (intro bexI [of _ ?pi]) (simp_all add: peer_text_def)
qed

theorem peers_wrong_witness:
  "\<exists>pp \<in> set (pipe_peers (enter_pinfo [pipe_proc 10 ''sh'' 0 []] (pipe_file 1 77 LSOF_FILE_ACCESS_WRITE 0) None)
      [pipe_proc 10 ''sh'' 0 [pipe_file 1 77 LSOF_FILE_ACCESS_WRITE 0]] 20 (pipe_file 0 4294967373 LSOF_FILE_ACCESS_READ 0)).
    px_file [pipe_proc 10 ''sh'' 0 [pipe_file 1 77 LSOF_FILE_ACCESS_WRITE 0]] pp = Some (pipe_file 1 77 LSOF_FILE_ACCESS_WRITE 0)"
proof -
  let ?l1 = "pipe_file 1 77 LSOF_FILE_ACCESS_WRITE 0" and ?l2 = "pipe_file 0 4294967373 LSOF_FILE_ACCESS_READ 0"
  have q: "[pipe_proc 10 ''sh'' 0 [?l1]] = butlast [pipe_proc 10 ''sh'' 0 []] @
      [(last [pipe_proc 10 ''sh'' 0 []])\<lparr> lp_file := lp_file (last [pipe_proc 10 ''sh'' 0 []]) @ [?l1] \<rparr>]"
    by (simp add: pipe_proc_def)
  have i: "lf_inode ?l2 = lf_inode ?l1 + 4294967296" by (simp add: pipe_file_def)
  have d: "20 \<noteq> lp_pid (last [pipe_proc 10 ''sh'' 0 []])" by (simp add: pipe_proc_def)
  from peers_wrong [OF list.distinct(2) q i d] show ?thesis by (elim bexE conjE) (rule bexI)
qed

end
