(* ===== verification/Proc_Lines.thy ===== *)
theory Proc_Lines
  imports Option_Args
begin

text \<open>
  Reading the text files under \<open>/proc\<close>: the field splitter \<open>get_fields\<close>
  (\<open>src/lib/dialects/linux/dnode.c\<close>), and from \<open>dproc.c\<close> \<open>nm2id\<close>, \<open>read_id_stat\<close>, \<open>get_fdinfo\<close>,
  \<open>getlinksrc\<close>, \<open>make_proc_path\<close> and the eventpoll text.  A file is the list of its lines or its
  whole text; \<open>strtoul\<close> and \<open>atoi\<close> are those of the C library with their saturation.
\<close>

section \<open>Fields\<close>

abbreviation tab :: char where "tab \<equiv> CHR 0x09"
abbreviation blank :: char where "blank \<equiv> CHR 0x20"

text \<open>
  One field: blank and the separators end it unless it may have them embedded, a tab always does, and
  a newline ends the line.  The result is the field and the text after its end character.
\<close>

fun gf_scan :: "cstring \<Rightarrow> bool \<Rightarrow> cstring \<Rightarrow> cstring \<times> cstring" where
  "gf_scan sep emb [] = ([], [])"
| "gf_scan sep emb (c # s) =
    (if c = nl then ([], [])
     else if c = tab \<or> \<not> emb \<and> (c = blank \<or> c \<in> set sep) then ([], s)
     else (case gf_scan sep emb s of (f, r) \<Rightarrow> (c # f, r)))"

lemma gf_scan_length: "length (snd (gf_scan sep emb s)) \<le> length s"
  by (induction s) (auto split: prod.splits)

lemma gf_scan_less: "s \<noteq> [] \<Longrightarrow> length (snd (gf_scan sep emb s)) < length s"
  using gf_scan_length [of sep emb "tl s"] by (cases s) (auto split: prod.splits)

lemma gf_scan_shorter:
  assumes "gf_scan sep emb (dropWhile P ln) = (f, r)" "dropWhile P ln \<noteq> []"
  shows "length r < length ln"
  using gf_scan_less [of "dropWhile P ln" sep emb] length_dropWhile_le [of P ln] assms by simp

function get_fields_from :: "cstring \<Rightarrow> nat list \<Rightarrow> nat \<Rightarrow> cstring \<Rightarrow> cstring list" where
  "get_fields_from sep eb n ln =
    (let bp = dropWhile (\<lambda>c. c = blank \<or> c = tab) ln in
     if bp = [] \<or> hd bp = nl then []
     else (case gf_scan sep (n \<in> set eb) bp of (f, r) \<Rightarrow> f # get_fields_from sep eb (n + 1) r))"
  by pat_completeness auto

termination
  by (relation "measure (\<lambda>(_, _, _, ln). length ln)") (auto simp del: dropWhile_eq_Nil_conv dest: gf_scan_shorter [OF sym])

declare get_fields_from.simps [simp del]

definition get_fields :: "cstring \<Rightarrow> cstring \<Rightarrow> nat list \<Rightarrow> cstring list" where
  "get_fields ln sep eb = get_fields_from sep eb 0 ln"

section \<open>Numbers\<close>

definition isspace_c :: "char \<Rightarrow> bool" where
  "isspace_c c \<longleftrightarrow> c = blank \<or> 9 \<le> byte c \<and> byte c \<le> 13"

definition base_digit :: "char \<Rightarrow> nat" where
  "base_digit c =
    (if isdigit_c c then byte c - 48
     else if 97 \<le> byte c \<and> byte c \<le> 122 then byte c - 87
     else if 65 \<le> byte c \<and> byte c \<le> 90 then byte c - 55
     else 99)"

definition base_value :: "nat \<Rightarrow> cstring \<Rightarrow> nat" where
  "base_value b ds = foldl (\<lambda>n c. n * b + base_digit c) 0 ds"

definition ULONG_MAX :: nat where "ULONG_MAX = 18446744073709551615"

definition strto_sign :: "cstring \<Rightarrow> bool \<times> cstring" where
  "strto_sign s = (case dropWhile isspace_c s of [] \<Rightarrow> (False, []) | c # r \<Rightarrow> if c = CHR ''-'' then (True, r) else if c = CHR ''+'' then (False, r) else (False, c # r))"

definition strto_base :: "nat \<Rightarrow> cstring \<Rightarrow> nat \<times> cstring" where
  "strto_base b s =
    (if (b = 0 \<or> b = 16) \<and> 3 \<le> length s \<and> s ! 0 = CHR ''0'' \<and> (s ! 1 = CHR ''x'' \<or> s ! 1 = CHR ''X'') \<and> base_digit (s ! 2) < 16
     then (16, drop 2 s)
     else if b = 0 then (if s \<noteq> [] \<and> hd s = CHR ''0'' then 8 else 10, s)
     else (b, s))"

text \<open>\<open>strtoul\<close> and \<open>strtoull\<close>: the value and the text at \<open>*endptr\<close>.\<close>

definition strtoul :: "nat \<Rightarrow> cstring \<Rightarrow> nat \<times> cstring" where
  "strtoul b s =
    (let (neg, s1) = strto_sign s; (b1, s2) = strto_base b s1;
         ds = takeWhile (\<lambda>c. base_digit c < b1) s2; v = base_value b1 ds in
     if ds = [] then (0, s)
     else (if v > ULONG_MAX then ULONG_MAX else if neg then nat ((- int v) mod 18446744073709551616) else v,
           dropWhile (\<lambda>c. base_digit c < b1) s2))"

definition atoi :: "cstring \<Rightarrow> int" where
  "atoi s =
    (let (neg, s1) = strto_sign s; v = int (base_value 10 (takeWhile isdigit_c s1)) in
     s32 (if neg then max (- v) (- 9223372036854775808) else min v 9223372036854775807))"

text \<open>\<open>nm2id\<close>: \<open>None\<close> for a name that is not a number, else the number and its length.\<close>

fun nm2id_loop :: "cstring \<Rightarrow> int \<Rightarrow> nat \<Rightarrow> (int \<times> nat) option" where
  "nm2id_loop [] tid tidl = Some (tid, tidl)"
| "nm2id_loop (c # nm) tid tidl =
    (if \<not> isdigit_c c then None else nm2id_loop nm (acc_digit tid c) (tidl + 1))"

definition nm2id :: "cstring \<Rightarrow> (int \<times> nat) option" where
  "nm2id nm = nm2id_loop nm 0 0"

section \<open>The status of a process or task\<close>

text \<open>
  The outcomes of \<open>read_id_stat\<close>: unavailable (-1), the state with the command and the parent and group
  identifiers, or reading behind the end of the buffer, which happens when the text has no blank.
\<close>

datatype id_stat = Unavailable | Id_Stat int cstring int int | Overread

definition last_paren :: "cstring \<Rightarrow> (cstring \<times> cstring) option" where
  "last_paren s =
    (if CHR '')'' \<in> set s
     then Some (rev (tl (dropWhile (\<lambda>c. c \<noteq> CHR '')'') (rev s))), rev (takeWhile (\<lambda>c. c \<noteq> CHR '')'') (rev s)))
     else None)"

definition id_state :: "cstring \<Rightarrow> int" where
  "id_state f = (if f = ''Z'' then 1 else if f = ''T'' then 2 else 0)"

definition id_fields :: "cstring \<Rightarrow> cstring \<Rightarrow> id_stat" where
  "id_fields cmd s =
    (let cp = dropWhile (\<lambda>c. c = blank) s in
     if cp = [] then Unavailable
     else case get_fields cp [] [] of
       st # ppid # pgid # _ \<Rightarrow> Id_Stat (id_state st) cmd (atoi ppid) (atoi pgid)
     | _ \<Rightarrow> Unavailable)"

definition read_id_stat :: "cstring option \<Rightarrow> int \<Rightarrow> id_stat" where
  "read_id_stat file n =
    (case file of
       None \<Rightarrow> Unavailable
     | Some cbf \<Rightarrow>
        if cbf = [] then Unavailable
        else
          (let first = takeWhile (\<lambda>c. c \<noteq> blank \<and> c \<noteq> tab) cbf; r = dropWhile (\<lambda>c. c \<noteq> blank \<and> c \<noteq> tab) cbf in
           if atoi first \<noteq> n then Unavailable
           else if r = [] then Overread
           else
             (let cp = dropWhile (\<lambda>c. c = blank) (tl r) in
              if cp = [] \<or> hd cp \<noteq> CHR ''('' then Unavailable
              else case last_paren (tl cp) of
                None \<Rightarrow> Unavailable
              | Some (cmd, rest) \<Rightarrow> id_fields (map (\<lambda>c. if c = nl then CHR ''?'' else c) cmd) rest)))"

section \<open>Reading what the kernel prints\<close>

lemma base_digit_digit: "isdigit_c c \<Longrightarrow> int (base_digit c) = digit_val c"
  by (simp add: base_digit_def digit_val_def isdigit_c_def of_nat_diff)

lemma base_digit_dec: "base_digit c < 10 \<longleftrightarrow> isdigit_c c"
  by (auto simp: base_digit_def isdigit_c_def)

lemma base_value_snoc: "base_value b (ds @ [c]) = base_value b ds * b + base_digit c"
  by (simp add: base_value_def)

lemma base_value_dec: "list_all isdigit_c s \<Longrightarrow> int (base_value 10 s) = dec_value s"
  by (induction s rule: rev_induct) (simp_all add: base_value_def dec_value_def base_digit_digit)

lemma base_value_dec_str [simp]: "base_value 10 (dec_str n) = n"
  using base_value_dec [OF dec_str_digits, of n] by simp

lemma isspace_not_digit [simp]: "isdigit_c c \<Longrightarrow> \<not> isspace_c c"
  by (auto simp: isspace_c_def isdigit_c_def)

lemma isdigit_not [simp]:
  "\<not> isdigit_c (CHR ''-'')" "\<not> isdigit_c (CHR ''+'')" "\<not> isdigit_c blank" "\<not> isdigit_c tab" "\<not> isdigit_c nl"
  "\<not> isdigit_c (CHR ''('')" "\<not> isdigit_c (CHR '')'')" "\<not> isspace_c (CHR ''-'')"
  by (simp_all add: isdigit_c_def isspace_c_def)

lemma strto_sign_digit: "s \<noteq> [] \<Longrightarrow> isdigit_c (hd s) \<Longrightarrow> strto_sign s = (False, s)"
  by (cases s) (auto simp: strto_sign_def)

lemma strto_sign_dec_str [simp]: "strto_sign (dec_str n) = (False, dec_str n)"
  by (rule strto_sign_digit) simp_all

lemma strto_sign_minus [simp]: "strto_sign (CHR ''-'' # s) = (True, s)"
  by (simp add: strto_sign_def)

lemma takeWhile_dec_str [simp]: "takeWhile isdigit_c (dec_str n) = dec_str n"
  by (rule takeWhile_eq_all_conv [THEN iffD2]) (simp add: dec_str_digit)

lemma atoi_dec_str [simp]: "in_s32 (int n) \<Longrightarrow> atoi (dec_str n) = int n"
  by (simp add: atoi_def) (simp add: in_s32_def min_def)

lemma atoi_dec_int [simp]: "in_s32 i \<Longrightarrow> atoi (dec_int i) = i"
  by (auto simp: dec_int_def) (auto simp: atoi_def in_s32_def max_def min_def)

text \<open>A field with no separator in it is one field, whatever follows the separator.\<close>

definition plain_field :: "cstring \<Rightarrow> bool" where
  "plain_field f \<longleftrightarrow> f \<noteq> [] \<and> blank \<notin> set f \<and> tab \<notin> set f \<and> nl \<notin> set f"

lemma gf_scan_plain:
  assumes "tab \<notin> set f" "nl \<notin> set f" "emb \<or> (blank \<notin> set f \<and> set f \<inter> set sep = {})"
  shows "gf_scan sep emb (f @ r) = (f @ fst (gf_scan sep emb r), snd (gf_scan sep emb r))"
  using assms by (induction f) (auto split: prod.splits)

lemma get_fields_from_Nil [simp]: "get_fields_from sep eb n [] = []"
  by (simp add: get_fields_from.simps)

lemma plain_not_dropped: "plain_field f \<Longrightarrow> dropWhile (\<lambda>c. c = blank \<or> c = tab) (f @ r) = f @ r"
  by (cases f) (auto simp: plain_field_def)

lemma get_fields_plain:
  assumes "plain_field f" "set f \<inter> set sep = {}"
  shows "get_fields_from sep eb n (f @ blank # r) =
    (if n \<in> set eb then get_fields_from sep eb n (f @ blank # r) else f # get_fields_from sep eb (n + 1) r)"
proof (cases "n \<in> set eb")
  case False
  have "gf_scan sep False (f @ blank # r) = (f, r)"
    using assms by (subst gf_scan_plain) (auto simp: plain_field_def)
  moreover have "f @ blank # r \<noteq> []" "hd (f @ blank # r) \<noteq> nl"
    using assms(1) by (cases f; auto simp: plain_field_def)+
  ultimately show ?thesis
    using False assms(1) by (subst get_fields_from.simps) (simp add: plain_not_dropped)
qed simp

lemma get_fields_plain_first:
  "plain_field f \<Longrightarrow> get_fields_from [] [] n (f @ blank # r) = f # get_fields_from [] [] (n + 1) r"
  using get_fields_plain [of f "[]" "[]" n r] by simp

lemma get_fields_skip [simp]: "get_fields_from sep eb n (blank # s) = get_fields_from sep eb n s"
  by (simp add: get_fields_from.simps [of sep eb n "blank # s"] get_fields_from.simps [of sep eb n s])

lemma plain_dec_str [simp]: "plain_field (dec_str n)"
  by (simp add: plain_field_def dec_str_no)

lemma plain_dec_int [simp]: "plain_field (dec_int i)"
  by (simp add: dec_int_def plain_field_def dec_str_no)

lemma last_paren_append:
  "CHR '')'' \<notin> set rest \<Longrightarrow> last_paren (cmd @ CHR '')'' # rest) = Some (cmd, rest)"
proof -
  assume "CHR '')'' \<notin> set rest"
  then have "\<forall>x \<in> set (rev rest). x \<noteq> CHR '')''" by auto
  then have "dropWhile (\<lambda>c. c \<noteq> CHR '')'') (rev rest @ CHR '')'' # rev cmd) = CHR '')'' # rev cmd"
    "takeWhile (\<lambda>c. c \<noteq> CHR '')'') (rev rest @ CHR '')'' # rev cmd) = rev rest"
    by (subst dropWhile_append2 takeWhile_append2; simp)+
  then show ?thesis by (simp add: last_paren_def)
qed

text \<open>The line \<open>/proc/<pid>/stat\<close> as the kernel prints it.\<close>

definition stat_line :: "nat \<Rightarrow> cstring \<Rightarrow> char \<Rightarrow> int \<Rightarrow> int \<Rightarrow> cstring \<Rightarrow> cstring" where
  "stat_line n comm st ppid pgid rest =
    dec_str n @ '' ('' @ comm @ '') '' @ [st] @ '' '' @ dec_int ppid @ '' '' @ dec_int pgid @ '' '' @ rest"

text \<open>
  C12: what the kernel prints in a process's stat file is read back: the state, the parent and the group
  and the command, whatever blanks, parentheses and newlines the command's name has (a newline is
  shown as a question mark), as long as the fields behind the group have no closing parenthesis.
\<close>

theorem read_id_stat_line:
  assumes "in_s32 (int n)" "in_s32 ppid" "in_s32 pgid" "st \<notin> {blank, tab, nl, CHR '')''}" "CHR '')'' \<notin> set rest"
  shows "read_id_stat (Some (stat_line n comm st ppid pgid rest)) (int n) =
    Id_Stat (if st = CHR ''Z'' then 1 else if st = CHR ''T'' then 2 else 0)
      (map (\<lambda>c. if c = nl then CHR ''?'' else c) comm) ppid pgid"
proof -
  let ?fs = "st # blank # dec_int ppid @ blank # dec_int pgid @ blank # rest"
  have line: "stat_line n comm st ppid pgid rest = dec_str n @ blank # CHR ''('' # comm @ CHR '')'' # blank # ?fs"
    by (simp add: stat_line_def)
  have "CHR '')'' \<notin> set (blank # ?fs)"
    using assms(4,5) dec_str_no [of "CHR '')''"] by (auto simp: dec_int_def)
  then have lp: "last_paren (comm @ CHR '')'' # blank # ?fs) = Some (comm, blank # ?fs)"
    by (rule last_paren_append)
  have pre: "takeWhile (\<lambda>c. c \<noteq> blank \<and> c \<noteq> tab) (dec_str n @ blank # r) = dec_str n"
    "dropWhile (\<lambda>c. c \<noteq> blank \<and> c \<noteq> tab) (dec_str n @ blank # r) = blank # r" for r
    by (subst takeWhile_append2 dropWhile_append2; auto simp: dec_str_digit dest: dec_str_digit)+
  have "plain_field [st]" using assms(4) by (auto simp: plain_field_def)
  from get_fields_plain_first [OF this]
  have "get_fields ?fs [] [] = [st] # dec_int ppid # dec_int pgid # get_fields_from [] [] 3 rest"
    by (simp add: get_fields_def get_fields_plain_first numeral_3_eq_3)
  with assms(1-4) show ?thesis
    by (simp add: read_id_stat_def line pre lp id_fields_def id_state_def)
qed

theorem read_id_stat_line_witness:
  "read_id_stat (Some (stat_line 7 ''a) (b'' (CHR ''S'') 1 (- 1) ''34816 0'')) 7 = Id_Stat 0 ''a) (b'' 1 (- 1)"
  using read_id_stat_line [of 7 1 "- 1" "CHR ''S''" "''34816 0''" "''a) (b''"] by (simp add: in_s32_def)

text \<open>A stat file that holds the identifier and nothing else is read behind its end.\<close>

lemma read_id_stat_overread: "in_s32 (int n) \<Longrightarrow> read_id_stat (Some (dec_str n)) (int n) = Overread"
proof -
  assume n: "in_s32 (int n)"
  have "\<forall>c \<in> set (dec_str n). c \<noteq> blank \<and> c \<noteq> tab" using dec_str_digit [of _ n] by fastforce
  then have "takeWhile (\<lambda>c. c \<noteq> blank \<and> c \<noteq> tab) (dec_str n) = dec_str n"
    "dropWhile (\<lambda>c. c \<noteq> blank \<and> c \<noteq> tab) (dec_str n) = []" by auto
  with n show ?thesis unfolding read_id_stat_def by (simp del: dropWhile_eq_Nil_conv takeWhile_eq_all_conv)
qed

lemma nm2id_loop_digits: "list_all isdigit_c s \<Longrightarrow> nm2id_loop s t l = Some (foldl acc_digit t s, l + length s)"
  by (induction s arbitrary: t l) auto

lemma nm2id_dec_str: "in_s32 (int n) \<Longrightarrow> nm2id (dec_str n) = Some (int n, length (dec_str n))"
  by (simp add: nm2id_def nm2id_loop_digits dec_str_digits)

lemma nm2id_only_digits: "nm2id_loop s t l = Some r \<Longrightarrow> list_all isdigit_c s"
  by (induction s arbitrary: t l) (auto split: if_splits)

section \<open>The fdinfo file\<close>

text \<open>\<open>struct l_fdinfo\<close>; \<open>tfd_count\<close> is the length of \<open>fi_tfds\<close>.\<close>

record l_fdinfo =
  fi_flags :: int
  fi_pos :: int
  fi_eventfd_id :: int
  fi_tty_index :: int
  fi_pid :: int
  fi_tfds :: "int list"

definition FDINFO_FLAGS :: flags32 where [flag_simps]: "FDINFO_FLAGS = 0x1"
definition FDINFO_POS :: flags32 where [flag_simps]: "FDINFO_POS = 0x2"
definition FDINFO_EVENTFD_ID :: flags32 where [flag_simps]: "FDINFO_EVENTFD_ID = 0x4"
definition FDINFO_TTY_INDEX :: flags32 where [flag_simps]: "FDINFO_TTY_INDEX = 0x8"
definition FDINFO_PID :: flags32 where [flag_simps]: "FDINFO_PID = 0x10"
definition FDINFO_TFD :: flags32 where [flag_simps]: "FDINFO_TFD = 0x20"
definition FDINFO_BASE :: flags32 where [flag_simps]: "FDINFO_BASE = FDINFO_FLAGS OR FDINFO_POS"

definition EPOLL_MAX_TFDS :: nat where "EPOLL_MAX_TFDS = 32"

text \<open>A whole number, or nothing when the text is not one or is the largest.\<close>

definition fdinfo_number :: "cstring \<Rightarrow> nat option" where
  "fdinfo_number s = (case strtoul 0 s of (ul, ep) \<Rightarrow> if ul = ULONG_MAX \<or> ep \<noteq> [] then None else Some ul)"

definition fdinfo_opt :: "flags32 \<Rightarrow> cstring \<Rightarrow> flags32" where
  "fdinfo_opt msk f =
    (if has_flag msk FDINFO_PID \<and> f = ''Pid:'' then FDINFO_PID
     else if has_flag msk FDINFO_TFD \<and> f = ''tfd:'' then FDINFO_TFD
     else if has_flag msk FDINFO_EVENTFD_ID \<and> f = ''eventfd-id:'' then FDINFO_EVENTFD_ID
     else if has_flag msk FDINFO_TTY_INDEX \<and> f = ''tty-index:'' then FDINFO_TTY_INDEX
     else 0)"

definition fdinfo_store :: "flags32 \<Rightarrow> int \<Rightarrow> l_fdinfo \<Rightarrow> l_fdinfo" where
  "fdinfo_store opt val fi =
    (if opt = FDINFO_EVENTFD_ID then fi\<lparr> fi_eventfd_id := val \<rparr>
     else if opt = FDINFO_TTY_INDEX then fi\<lparr> fi_tty_index := val \<rparr>
     else if opt = FDINFO_PID then fi\<lparr> fi_pid := val \<rparr>
     else if opt = FDINFO_TFD then
       (if length (fi_tfds fi) < EPOLL_MAX_TFDS then fi\<lparr> fi_tfds := fi_tfds fi @ [val] \<rparr> else fi)
     else fi)"

text \<open>A \<open>tty-index:\<close>, \<open>eventfd-id:\<close>, \<open>Pid:\<close> or \<open>tfd:\<close> line.\<close>

definition fdinfo_value :: "flags32 \<Rightarrow> flags32 \<Rightarrow> cstring \<Rightarrow> flags32 \<Rightarrow> l_fdinfo \<Rightarrow> flags32 \<times> l_fdinfo \<times> bool" where
  "fdinfo_value msk opt f rv fi =
    (if opt = 0 then (rv, fi, False)
     else case fdinfo_number f of
       None \<Rightarrow> (rv, fi, False)
     | Some ul \<Rightarrow>
        (let val = (if s32 (int ul) < 0 then - 1 else s32 (int ul)); rv1 = rv OR opt; fi1 = fdinfo_store opt val fi in
         (rv1, fi1,
          opt \<noteq> FDINFO_TFD \<and> (rv1 = msk \<or> has_flag rv1 FDINFO_TFD) \<or>
          opt = FDINFO_TFD \<and> rv1 = msk \<and> length (fi_tfds fi1) = EPOLL_MAX_TFDS)))"

text \<open>One line: the obtained bits, the values, and whether the loop is left.\<close>

definition fdinfo_line :: "flags32 \<Rightarrow> cstring list \<Rightarrow> flags32 \<times> l_fdinfo \<Rightarrow> flags32 \<times> l_fdinfo \<times> bool" where
  "fdinfo_line msk fp st =
    (case st of (rv, fi) \<Rightarrow>
     if length fp < 2 \<or> fp ! 0 = [] \<or> fp ! 1 = [] then (rv, fi, False)
     else if has_flag msk FDINFO_FLAGS \<and> fp ! 0 = ''flags:'' then
       (case fdinfo_number (fp ! 1) of
          None \<Rightarrow> (rv, fi, False)
        | Some ul \<Rightarrow> (rv OR FDINFO_FLAGS, fi\<lparr> fi_flags := s32 (int ul) \<rparr>, rv OR FDINFO_FLAGS = msk))
     else if has_flag msk FDINFO_POS \<and> fp ! 0 = ''pos:'' then
       (case fdinfo_number (fp ! 1) of
          None \<Rightarrow> (rv, fi, False)
        | Some ull \<Rightarrow> (rv OR FDINFO_POS, fi\<lparr> fi_pos := sint (of_nat ull :: 64 word) \<rparr>, rv OR FDINFO_POS = msk))
     else fdinfo_value msk (fdinfo_opt msk (fp ! 0)) (fp ! 1) rv fi)"

fun fdinfo_loop :: "flags32 \<Rightarrow> cstring list \<Rightarrow> flags32 \<times> l_fdinfo \<Rightarrow> flags32 \<times> l_fdinfo" where
  "fdinfo_loop msk [] st = st"
| "fdinfo_loop msk (buf # bufs) st =
    (case fdinfo_line msk (get_fields buf [] []) st of
       (rv, fi, stop) \<Rightarrow> if stop then (rv, fi) else fdinfo_loop msk bufs (rv, fi))"

text \<open>\<open>get_fdinfo\<close>: \<open>None\<close> stands for a file that cannot be opened; the lines are what \<open>fgets\<close> returns.\<close>

definition get_fdinfo :: "cstring list option \<Rightarrow> flags32 \<Rightarrow> l_fdinfo \<Rightarrow> flags32 \<times> l_fdinfo" where
  "get_fdinfo file msk fi =
    (let fi0 = fi\<lparr> fi_eventfd_id := - 1, fi_tty_index := - 1, fi_pid := - 1, fi_tfds := [] \<rparr> in
     case file of None \<Rightarrow> (0, fi0) | Some bufs \<Rightarrow> fdinfo_loop msk bufs (0, fi0))"

section \<open>The text of an eventpoll file\<close>

function cal_order :: "int \<Rightarrow> nat" where
  "cal_order n = (let m = sgn n * (\<bar>n\<bar> div 10) in if m = 0 then 1 else cal_order m + 1)"
  by pat_completeness auto

termination by (relation "measure (\<lambda>n. nat \<bar>n\<bar>)") (auto simp: abs_mult sgn_if)

declare cal_order.simps [simp del]

text \<open>
  \<open>snprintf\<close> into a space of \<open>n\<close> bytes: what does not fit is cut, and the terminator stands in its place.
\<close>

definition snpf_in :: "nat \<Rightarrow> cstring \<Rightarrow> cstring" where
  "snpf_in n s = take (n - 1) s @ replicate (length s - (n - 1)) (CHR 0x00)"

fun ep_fds_loop :: "int \<Rightarrow> cstring \<Rightarrow> int list \<Rightarrow> cstring" where
  "ep_fds_loop len t [] = t"
| "ep_fds_loop len t (fd # fds) =
    (let needs = cal_order fd + (if fds = [] then 0 else 3) in
     if len - int (length t) + (if t \<noteq> [] then 2 else 0) \<le> int needs then t
     else
       (let t1 = (if t \<noteq> [] then take (length t - 3) t @ '','' else []) in
        ep_fds_loop len (t1 @ snpf_in (nat (len - int (length t1))) (dec_int fd @ (if fds = [] then [] else ''...''))) fds))"

definition snp_eventpoll_fds :: "int \<Rightarrow> int list \<Rightarrow> cstring" where
  "snp_eventpoll_fds len tfds = ep_fds_loop len [] tfds"

text \<open>
  \<open>snp_eventpoll\<close> on the buffer's text \<open>p\<close>.  \<open>fd_compare\<close> orders descriptors as integers, so \<open>qsort\<close> is
  \<open>sort\<close>.
\<close>

definition snp_eventpoll :: "cstring \<Rightarrow> int \<Rightarrow> int list \<Rightarrow> cstring" where
  "snp_eventpoll p len0 tfds =
    (let len = len0 - 11 - ((if length tfds = EPOLL_MAX_TFDS then 4 else 1) + 1) in
     if len > 1 then
       (let t = snp_eventpoll_fds len (sort tfds) in
        take 10 p @ '':'' @ t @
          (if length t > 3 \<and> last t = CHR ''.'' then '']''
           else if length tfds = EPOLL_MAX_TFDS then ''...]'' else '']''))
     else p)"

section \<open>Links\<close>

text \<open>
  \<open>getlinksrc\<close>: the link's text as \<open>readlink\<close> returns it, \<open>None\<close> for a failure.  The result is the source
  text and what follows its first colon, when the text is no absolute path.
\<close>

definition getlinksrc :: "cstring option \<Rightarrow> nat \<Rightarrow> (cstring \<times> cstring option) option" where
  "getlinksrc link srcl =
    (case link of
       None \<Rightarrow> None
     | Some s \<Rightarrow>
        (let src = take (srcl - 1) s in
         if src = [] then None
         else if hd src = CHR ''/'' then Some (src, None)
         else if CHR '':'' \<in> set src
         then Some (takeWhile (\<lambda>c. c \<noteq> CHR '':'') src, Some (tl (dropWhile (\<lambda>c. c \<noteq> CHR '':'') src)))
         else Some (src, None)))"

definition make_proc_path :: "cstring \<Rightarrow> nat \<Rightarrow> nat \<Rightarrow> cstring \<Rightarrow> cstring \<times> nat \<times> nat" where
  "make_proc_path pp pl nlen sf =
    (let rl = pl + length sf + 1; n = max nlen rl in
     (take pl (take (n - 1) pp) @ take (n - pl - 1) sf, n, rl - 1))"

section \<open>What the fdinfo file yields\<close>

lemma flag_bit_iff: "has_flag msk (2 ^ k :: flags32) \<longleftrightarrow> bit msk k"
  by (simp add: and_exp_eq_0_iff_not_bit)

lemma flag_bit_sub:
  assumes "rv AND msk = rv" "has_flag msk (2 ^ k)"
  shows "(rv OR 2 ^ k) AND msk = (rv OR 2 ^ k :: flags32)"
proof -
  have "2 ^ k AND msk = (2 ^ k :: flags32)"
    using assms(2) by (intro bit_eqI) (auto simp: flag_bit_iff bit_and_iff bit_exp_iff)
  then show ?thesis using assms(1) by (simp add: word_ao_dist)
qed

lemma fdinfo_bits:
  "FDINFO_FLAGS = 2 ^ 0" "FDINFO_POS = 2 ^ 1" "FDINFO_EVENTFD_ID = 2 ^ 2" "FDINFO_TTY_INDEX = 2 ^ 3"
  "FDINFO_PID = 2 ^ 4" "FDINFO_TFD = 2 ^ 5"
  by (simp_all add: flag_simps)

lemmas fdinfo_sub =
  flag_bit_sub [of _ _ 0, folded fdinfo_bits] flag_bit_sub [of _ _ 1, folded fdinfo_bits]
  flag_bit_sub [of _ _ 2, folded fdinfo_bits] flag_bit_sub [of _ _ 3, folded fdinfo_bits]
  flag_bit_sub [of _ _ 4, folded fdinfo_bits] flag_bit_sub [of _ _ 5, folded fdinfo_bits]

lemma fdinfo_opt_sub: "rv AND msk = rv \<Longrightarrow> (rv OR fdinfo_opt msk f) AND msk = rv OR fdinfo_opt msk f"
  unfolding fdinfo_opt_def by (simp add: fdinfo_sub)

definition fdinfo_ok :: "flags32 \<Rightarrow> flags32 \<times> l_fdinfo \<Rightarrow> bool" where
  "fdinfo_ok msk st \<longleftrightarrow>
    (case st of (rv, fi) \<Rightarrow>
      rv AND msk = rv \<and> length (fi_tfds fi) \<le> EPOLL_MAX_TFDS \<and> (\<forall>fd \<in> set (fi_tfds fi). - 1 \<le> fd \<and> in_s32 fd) \<and>
      - 1 \<le> fi_pid fi \<and> - 1 \<le> fi_eventfd_id fi \<and> - 1 \<le> fi_tty_index fi)"

lemma fdinfo_store_ok:
  "fdinfo_ok msk (rv, fi) \<Longrightarrow> rv1 AND msk = rv1 \<Longrightarrow> - 1 \<le> v \<Longrightarrow> in_s32 v \<Longrightarrow> fdinfo_ok msk (rv1, fdinfo_store opt v fi)"
  by (auto simp: fdinfo_ok_def fdinfo_store_def)

lemma fdinfo_value_ok:
  assumes "fdinfo_ok msk (rv, fi)" "(rv OR opt) AND msk = rv OR opt" "fdinfo_value msk opt f rv fi = (rv1, fi1, b)"
  shows "fdinfo_ok msk (rv1, fi1)"
proof (cases "opt = 0 \<or> fdinfo_number f = None")
  case True
  then show ?thesis using assms(1,3) by (cases "opt = 0") (simp_all add: fdinfo_value_def)
next
  case False
  then obtain ul where ul: "opt \<noteq> 0" "fdinfo_number f = Some ul" by auto
  let ?v = "if s32 (int ul) < 0 then - 1 else s32 (int ul)"
  have "- 1 \<le> ?v" "in_s32 ?v" by auto (simp add: in_s32_def)
  then have "fdinfo_ok msk (rv OR opt, fdinfo_store opt ?v fi)" by (rule fdinfo_store_ok [OF assms(1,2)])
  moreover have "rv OR opt = rv1 \<and> fdinfo_store opt ?v fi = fi1"
    using assms(3) ul by (simp add: fdinfo_value_def Let_def)
  ultimately show ?thesis by metis
qed

lemma fdinfo_line_ok:
  assumes "fdinfo_ok msk (rv, fi)" "fdinfo_line msk fp (rv, fi) = (rv1, fi1, b)"
  shows "fdinfo_ok msk (rv1, fi1)"
proof -
  have sub: "rv AND msk = rv" using assms(1) by (simp add: fdinfo_ok_def)
  show ?thesis
  proof (cases "length fp < 2 \<or> fp ! 0 = [] \<or> fp ! 1 = []")
    case True
    then show ?thesis using assms by (simp add: fdinfo_line_def)
  next
    case False
    note neq = False
    show ?thesis
    proof (cases "has_flag msk FDINFO_FLAGS \<and> fp ! 0 = ''flags:'' \<or> has_flag msk FDINFO_POS \<and> fp ! 0 = ''pos:''")
      case True
      then show ?thesis using assms neq
        by (auto simp: fdinfo_line_def fdinfo_ok_def fdinfo_sub split: option.splits)
    next
      case False
      then have other: "\<not> (has_flag msk FDINFO_FLAGS \<and> fp ! 0 = ''flags:'')" "\<not> (has_flag msk FDINFO_POS \<and> fp ! 0 = ''pos:'')"
        by simp_all
      define opt where "opt = fdinfo_opt msk (fp ! 0)"
      have l: "fdinfo_line msk fp (rv, fi) = fdinfo_value msk opt (fp ! 1) rv fi"
        unfolding fdinfo_line_def prod.case if_not_P [OF neq] if_not_P [OF other(1)] if_not_P [OF other(2)] opt_def ..
      show ?thesis
        using fdinfo_value_ok [OF assms(1) fdinfo_opt_sub [OF sub, of "fp ! 0"]] assms(2) l unfolding opt_def by metis
    qed
  qed
qed

lemma fdinfo_loop_ok: "fdinfo_ok msk st \<Longrightarrow> fdinfo_ok msk (fdinfo_loop msk bufs st)"
proof (induction bufs arbitrary: st)
  case (Cons buf bufs)
  obtain rv fi where st: "st = (rv, fi)" by (cases st)
  obtain rv1 fi1 b where l: "fdinfo_line msk (get_fields buf [] []) st = (rv1, fi1, b)" by (metis prod_cases3)
  have "fdinfo_ok msk (rv1, fi1)" using fdinfo_line_ok Cons.prems l st by blast
  then show ?case using Cons.IH l by simp
qed simp

text \<open>
  Whatever the fdinfo file holds, only information that was asked for is reported, at most 32 watched
  descriptors are stored (the array has no more), and every number is -1 or a non-negative \<open>int\<close>.
\<close>

lemma get_fdinfo_ok: "fdinfo_ok msk (get_fdinfo file msk fi)"
  by (auto simp: get_fdinfo_def Let_def split: option.splits intro!: fdinfo_loop_ok) (simp_all add: fdinfo_ok_def)

section \<open>Eventpoll\<close>

lemma cal_order_dec_str: "cal_order (int n) = length (dec_str n)"
proof (induction n rule: dec_str.induct)
  case (1 n)
  show ?case
  proof (cases "n < 10")
    case True
    then show ?thesis by (simp add: cal_order.simps dec_str.simps [of n] zdiv_eq_0_iff)
  next
    case False
    then have "int n div 10 \<noteq> 0" by (simp add: zdiv_eq_0_iff)
    then have "cal_order (int n) = cal_order (int (n div 10)) + 1"
      using False by (subst cal_order.simps) (simp add: zdiv_int Let_def)
    with False 1 show ?thesis by (simp add: dec_str.simps [of n])
  qed
qed

lemma cal_order_dec_int: "0 \<le> fd \<Longrightarrow> cal_order fd = length (dec_int fd)"
  using cal_order_dec_str [of "nat fd"] by (simp add: dec_int_def)

lemma dec_int_nonempty [simp]: "dec_int i \<noteq> []"
  by (simp add: dec_int_def)

lemma dec_int_pos: "0 < length (dec_int i)"
  by simp

lemma snpf_in_fits: "length s < n \<Longrightarrow> snpf_in n s = s"
  by (simp add: snpf_in_def)

text \<open>With room for it, a descriptor is added in full, in place of the dots of the one before it.\<close>

lemma ep_fds_loop_step:
  assumes "0 \<le> fd" "t = [] \<or> (\<exists>u. t = u @ ''...'')"
    "int (length (dec_int fd @ (if fds = [] then [] else ''...''))) < len - int (length t) + (if t \<noteq> [] then 2 else 0)"
  shows "ep_fds_loop len t (fd # fds) =
    ep_fds_loop len ((if t \<noteq> [] then take (length t - 3) t @ '','' else []) @ dec_int fd @ (if fds = [] then [] else ''...'')) fds"
proof -
  let ?t1 = "if t \<noteq> [] then take (length t - 3) t @ '','' else []"
  have "snpf_in (nat (len - int (length ?t1))) (dec_int fd @ (if fds = [] then [] else ''...'')) =
      dec_int fd @ (if fds = [] then [] else ''...'')"
    using assms(2,3) by (intro snpf_in_fits) auto
  then show ?thesis using assms(1,3) by (auto simp: cal_order_dec_int Let_def)
qed

lemma ep_fds_loop_all:
  assumes "fds \<noteq> []" "\<forall>fd \<in> set fds. 0 \<le> fd" "t = [] \<or> (\<exists>u. t = u @ ''...'')"
    and pre: "pre = (if t \<noteq> [] then take (length t - 3) t @ '','' else [])"
    and "int (length (pre @ commas (map dec_int fds))) + 2 \<le> len"
  shows "ep_fds_loop len t fds = pre @ commas (map dec_int fds)"
  using assms
proof (induction fds arbitrary: t pre)
  case (Cons fd fds)
  have lenpre: "int (length pre) = int (length t) - (if t \<noteq> [] then 2 else 0)" using Cons.prems(3,4) by auto
  show ?case
  proof (cases "fds = []")
    case True
    have "int (length (dec_int fd @ (if fds = [] then [] else ''...''))) < len - int (length t) + (if t \<noteq> [] then 2 else 0)"
      using lenpre Cons.prems(5) True by (auto split: if_splits)
    from ep_fds_loop_step [OF _ Cons.prems(3) this] show ?thesis using True Cons.prems(2,4) by simp
  next
    case False
    let ?t = "pre @ dec_int fd @ ''...''"
    obtain g gs where fds: "fds = g # gs" using False by (cases fds) auto
    have "1 \<le> int (length (commas (map dec_int fds)))" by (simp add: fds commas_Cons Suc_le_eq)
    then have "int (length (dec_int fd @ (if fds = [] then [] else ''...''))) < len - int (length t) + (if t \<noteq> [] then 2 else 0)"
      using lenpre Cons.prems(5) False by (auto simp: commas_Cons)
    from ep_fds_loop_step [OF _ Cons.prems(3) this]
    have "ep_fds_loop len t (fd # fds) = ep_fds_loop len ?t fds" using False Cons.prems(2,4) by simp
    also have "\<dots> = (pre @ dec_int fd @ '','') @ commas (map dec_int fds)"
      using Cons.prems(2,5) False by (intro Cons.IH) (auto simp: commas_Cons)
    finally show ?thesis using False by (simp add: commas_Cons)
  qed
qed simp

lemma commas_last_digit:
  "ts \<noteq> [] \<Longrightarrow> \<forall>fd \<in> set ts. 0 \<le> fd \<Longrightarrow> last (commas (map dec_int ts)) \<noteq> CHR ''.''"
proof (induction ts)
  case (Cons t ts)
  have "last (dec_str (nat t)) \<noteq> CHR ''.''" using dec_str_digit [of "last (dec_str (nat t))" "nat t"] by (auto simp: isdigit_c_def)
  moreover have "ts \<noteq> [] \<Longrightarrow> commas (map dec_int ts) \<noteq> []" by (cases ts) (simp_all add: commas_Cons)
  ultimately show ?case using Cons by (auto simp: commas_Cons dec_int_def [of t])
qed simp

lemma snp_eventpoll_all:
  assumes "tfds \<noteq> []" "\<forall>fd \<in> set tfds. 0 \<le> fd" "length p = 11"
    "length (commas (map dec_int (sort tfds))) + 18 \<le> nat len"
  shows "snp_eventpoll p len tfds =
    take 10 p @ '':'' @ commas (map dec_int (sort tfds)) @ (if length tfds = EPOLL_MAX_TFDS then ''...]'' else '']'')"
proof -
  let ?l = "len - 11 - ((if length tfds = EPOLL_MAX_TFDS then 4 else 1) + 1)"
  have ne: "sort tfds \<noteq> []" using assms(1) by (metis length_0_conv length_sort)
  have "snp_eventpoll_fds ?l (sort tfds) = commas (map dec_int (sort tfds))"
    unfolding snp_eventpoll_fds_def using ne assms(2,4) by (subst ep_fds_loop_all [of _ _ "[]"]) auto
  moreover have "?l > 1" using assms(4) by auto
  moreover have "last (commas (map dec_int (sort tfds))) \<noteq> CHR ''.''" using ne assms(2) by (intro commas_last_digit) auto
  ultimately show ?thesis by (simp add: snp_eventpoll_def Let_def)
qed

text \<open>The text stays within its buffer, also for a descriptor number that was reset to -1.\<close>

lemma dec_int_order: "- 1 \<le> fd \<Longrightarrow> length (dec_int fd) \<le> cal_order fd + 1"
proof (cases "0 \<le> fd")
  case False
  assume "- 1 \<le> fd"
  with False have "fd = - 1" by simp
  then show ?thesis by (simp add: dec_int_def dec_str.simps cal_order.simps)
qed (simp add: cal_order_dec_int)

lemma ep_fds_loop_bound:
  assumes "\<forall>fd \<in> set fds. - 1 \<le> fd" "fds = [] \<or> t = [] \<or> 3 \<le> length t" "int (length t) \<le> len"
  shows "int (length (ep_fds_loop len t fds)) \<le> len"
  using assms
proof (induction fds arbitrary: t)
  case (Cons fd fds)
  let ?s = "dec_int fd @ (if fds = [] then [] else ''...'')"
  let ?t1 = "if t \<noteq> [] then take (length t - 3) t @ '','' else []"
  let ?t2 = "?t1 @ snpf_in (nat (len - int (length ?t1))) ?s"
  have l: "int (length ?t1) = int (length t) - (if t \<noteq> [] then 2 else 0)" using Cons.prems(2) by auto
  have s: "length (snpf_in n ?s) = length ?s" for n by (simp add: snpf_in_def)
  show ?case
  proof (cases "len - int (length t) + (if t \<noteq> [] then 2 else 0) \<le> int (cal_order fd + (if fds = [] then 0 else 3))")
    case True
    then show ?thesis using Cons.prems(3) by (simp add: Let_def)
  next
    case False
    have "int (length ?t2) \<le> len" using False l s dec_int_order [of fd] Cons.prems(1) by auto
    moreover have "fds = [] \<or> ?t2 = [] \<or> 3 \<le> length ?t2" using s by auto
    ultimately have "int (length (ep_fds_loop len ?t2 fds)) \<le> len" using Cons.prems(1) by (intro Cons.IH) auto
    then show ?thesis using False by (simp add: Let_def)
  qed
qed simp

lemma snp_eventpoll_bound:
  assumes "\<forall>fd \<in> set tfds. - 1 \<le> fd" "length p = 11" "12 \<le> len"
  shows "int (length (snp_eventpoll p len tfds)) < len"
proof -
  let ?l = "len - 11 - ((if length tfds = EPOLL_MAX_TFDS then 4 else 1) + 1)"
  have "1 < ?l \<Longrightarrow> int (length (snp_eventpoll_fds ?l (sort tfds))) \<le> ?l"
    unfolding snp_eventpoll_fds_def using assms(1) by (intro ep_fds_loop_bound) auto
  then show ?thesis using assms(2,3) by (auto simp: snp_eventpoll_def Let_def)
qed

text \<open>
  The name an eventpoll file is given fits its buffer, whatever its fdinfo file holds, however many
  descriptors it watches and however short the buffer is.
\<close>

theorem eventpoll_name_fits:
  assumes "12 \<le> len"
  shows "int (length (snp_eventpoll ''[eventpoll]'' len (fi_tfds (snd (get_fdinfo file msk fi))))) < len"
proof -
  show ?thesis using get_fdinfo_ok [of msk "file" fi] assms by (intro snp_eventpoll_bound) (auto simp: fdinfo_ok_def split: prod.splits)
qed

theorem eventpoll_name_fits_witness:
  "int (length (snp_eventpoll ''[eventpoll]'' 18 (fi_tfds (snd (get_fdinfo (Some [''tfd: 7'', ''tfd: 12'']) FDINFO_TFD
    \<lparr> fi_flags = 0, fi_pos = 0, fi_eventfd_id = 0, fi_tty_index = 0, fi_pid = 0, fi_tfds = [] \<rparr>))))) < 18"
  by (rule eventpoll_name_fits) simp

section \<open>From the fdinfo file to the name\<close>

lemma dec_str_hd_zero: "hd (dec_str n) = CHR ''0'' \<Longrightarrow> n = 0"
proof (induction n rule: dec_str.induct)
  case (1 n)
  show ?case
  proof (cases "n < 10")
    case True
    have "byte (char_of (48 + n)) = byte (CHR ''0'')" using 1(2) True by (simp add: dec_str.simps [of n])
    then show ?thesis using True by simp
  next
    case False
    then have "hd (dec_str (n div 10)) = CHR ''0''" using 1(2) by (simp add: dec_str.simps [of n])
    then show ?thesis using 1(1) False by simp
  qed
qed

lemma strto_base_dec: "n \<noteq> 0 \<Longrightarrow> strto_base 0 (dec_str n) = (10, dec_str n)"
  using dec_str_hd_zero [of n] by (cases "dec_str n") (auto simp: strto_base_def)

lemma base10_dec_str [simp]: "takeWhile (\<lambda>c. base_digit c < 10) (dec_str n) = dec_str n" "dropWhile (\<lambda>c. base_digit c < 10) (dec_str n) = []"
  by (auto simp: base_digit_dec dec_str_digit)

lemma fdinfo_number_dec: "n < ULONG_MAX \<Longrightarrow> fdinfo_number (dec_str n) = Some n"
proof (cases "n = 0")
  case True
  have "dec_str 0 = ''0''" by code_simp
  then show ?thesis using True
    by (simp add: fdinfo_number_def strtoul_def strto_sign_digit isdigit_c_def strto_base_def base_value_def base_digit_def ULONG_MAX_def)
next
  case False
  assume "n < ULONG_MAX"
  with False show ?thesis by (simp add: fdinfo_number_def strtoul_def strto_base_dec)
qed

lemma get_fields_tab:
  assumes "plain_field f" shows "get_fields_from [] eb n (f @ tab # r) = f # get_fields_from [] eb (n + 1) r"
proof -
  have "gf_scan [] emb (f @ tab # r) = (f, r)" for emb
    using assms by (subst gf_scan_plain) (auto simp: plain_field_def)
  moreover have "f @ tab # r \<noteq> []" "hd (f @ tab # r) \<noteq> nl"
    using assms by (cases f; auto simp: plain_field_def)+
  ultimately show ?thesis
    using assms by (subst get_fields_from.simps) (simp add: plain_not_dropped)
qed

lemma get_fields_nl:
  assumes "plain_field f" shows "get_fields_from [] [] n (f @ [nl]) = [f]"
proof -
  have "gf_scan [] False (f @ [nl]) = (f, [])"
    using assms by (subst gf_scan_plain) (auto simp: plain_field_def)
  moreover have "f @ [nl] \<noteq> []" "hd (f @ [nl]) \<noteq> nl"
    using assms by (cases f; auto simp: plain_field_def)+
  ultimately show ?thesis
    using assms by (subst get_fields_from.simps) (simp add: plain_not_dropped)
qed

text \<open>
  The lines of an eventpoll file's fdinfo as the kernel prints them: the position, the flags, the mount and
  the inode, then one line for each watched descriptor.
\<close>

definition fdinfo_text :: "cstring \<Rightarrow> cstring \<Rightarrow> cstring" where
  "fdinfo_text key val = key @ [tab] @ val @ [nl]"

definition tfd_text :: "cstring \<Rightarrow> nat \<Rightarrow> cstring" where
  "tfd_text rest fd = ''tfd:'' @ replicate (9 - length (dec_str fd)) blank @ [blank] @ dec_str fd @ '' '' @ rest"

lemma get_fields_text:
  "plain_field key \<Longrightarrow> plain_field val \<Longrightarrow> get_fields (fdinfo_text key val) [] [] = [key, val]"
  by (simp add: get_fields_def fdinfo_text_def get_fields_tab get_fields_nl)

lemma get_fields_blanks: "get_fields_from sep eb n (replicate k blank @ s) = get_fields_from sep eb n s"
  by (induction k) simp_all

lemma plain_tfd: "plain_field ''tfd:''"
  by (simp add: plain_field_def)

lemma get_fields_tfd: "get_fields (tfd_text rest fd) [] [] = ''tfd:'' # dec_str fd # get_fields_from [] [] 2 rest"
proof -
  obtain k where "tfd_text rest fd = ''tfd:'' @ blank # replicate k blank @ dec_str fd @ blank # rest"
    unfolding tfd_text_def by (metis append_Cons append_Nil replicate_append_same append_assoc)
  then show ?thesis
    using get_fields_plain_first [OF plain_tfd, of 0 "replicate k blank @ dec_str fd @ blank # rest"]
    by (simp add: get_fields_def get_fields_blanks get_fields_plain_first numeral_2_eq_2)
qed

lemma fdinfo_line_tfd:
  assumes "has_flag msk FDINFO_TFD" "rv OR FDINFO_TFD \<noteq> msk" "fd < 2147483648"
  shows "fdinfo_line msk (''tfd:'' # dec_str fd # fs) (rv, fi) =
    (rv OR FDINFO_TFD, fi\<lparr> fi_tfds := take EPOLL_MAX_TFDS (fi_tfds fi) @ (if length (fi_tfds fi) < EPOLL_MAX_TFDS then [int fd] else drop EPOLL_MAX_TFDS (fi_tfds fi)) \<rparr>, False)"
proof -
  have opt: "fdinfo_opt msk ''tfd:'' = FDINFO_TFD" using assms(1) by (simp add: fdinfo_opt_def)
  have n: "fdinfo_number (dec_str fd) = Some fd" using assms(3) by (intro fdinfo_number_dec) (simp add: ULONG_MAX_def)
  have v: "s32 (int fd) = int fd" using assms(3) by (intro s32_id) (simp add: in_s32_def)
  have "FDINFO_TFD \<noteq> 0" by (simp add: flag_simps)
  with opt n v assms(2) show ?thesis by (simp add: fdinfo_line_def fdinfo_value_def Let_def fdinfo_store_def) (simp add: flag_simps)
qed

lemma fdinfo_loop_tfds:
  assumes "has_flag msk FDINFO_TFD" "rv OR FDINFO_TFD \<noteq> msk" "\<forall>fd \<in> set fds. fd < 2147483648"
    "length (fi_tfds fi) \<le> EPOLL_MAX_TFDS"
  shows "fi_tfds (snd (fdinfo_loop msk (map (tfd_text rest) fds) (rv, fi))) = take EPOLL_MAX_TFDS (fi_tfds fi @ map int fds)"
  using assms
proof (induction fds arbitrary: rv fi)
  case (Cons fd fds)
  have "rv OR FDINFO_TFD OR FDINFO_TFD \<noteq> msk" using Cons.prems(2) by (simp add: or.assoc)
  then show ?case using Cons
    by (auto simp: get_fields_tfd fdinfo_line_tfd take_Cons')
qed simp

lemma insort_map_int: "insort (int x) (map int xs) = map int (insort x xs)"
  by (induction xs) auto

lemma sort_map_int: "sort (map int xs) = map int (sort xs)"
  by (induction xs) (simp_all add: insort_map_int)

lemma plain_keys: "plain_field ''pos:''" "plain_field ''flags:''" "plain_field ''mnt_id:''" "plain_field ''ino:''"
  by (simp_all add: plain_field_def)

lemma fdinfo_loop_text:
  assumes "plain_field key" "plain_field val" "fdinfo_line msk [key, val] st = (rv, fi, False)"
  shows "fdinfo_loop msk (fdinfo_text key val # bufs) st = fdinfo_loop msk bufs (rv, fi)"
  using assms by (simp add: get_fields_text)

lemma fdinfo_line_pos:
  assumes "has_flag msk FDINFO_POS" "rv OR FDINFO_POS \<noteq> msk" "pos < ULONG_MAX"
  shows "fdinfo_line msk [''pos:'', dec_str pos] (rv, fi) = (rv OR FDINFO_POS, fi\<lparr> fi_pos := sint (of_nat pos :: 64 word) \<rparr>, False)"
  using assms fdinfo_number_dec [OF assms(3)] by (simp add: fdinfo_line_def)

lemma fdinfo_line_flags:
  assumes "has_flag msk FDINFO_FLAGS" "rv OR FDINFO_FLAGS \<noteq> msk" "fdinfo_number fl = Some v" "fl \<noteq> []"
  shows "fdinfo_line msk [''flags:'', fl] (rv, fi) = (rv OR FDINFO_FLAGS, fi\<lparr> fi_flags := s32 (int v) \<rparr>, False)"
  using assms by (simp add: fdinfo_line_def)

lemma fdinfo_line_other:
  assumes "key \<notin> {''flags:'', ''pos:'', ''Pid:'', ''tfd:'', ''eventfd-id:'', ''tty-index:''}"
  shows "fdinfo_line msk [key, val] (rv, fi) = (rv, fi, False)"
  using assms by (simp add: fdinfo_line_def fdinfo_opt_def fdinfo_value_def)

lemma fdinfo_header:
  assumes "msk = FDINFO_BASE OR FDINFO_TTY_INDEX OR FDINFO_TFD" "fdinfo_number fl = Some v" "plain_field fl" "pos < ULONG_MAX"
  shows "fdinfo_loop msk (fdinfo_text ''pos:'' (dec_str pos) # fdinfo_text ''flags:'' fl #
       fdinfo_text ''mnt_id:'' (dec_str mnt) # fdinfo_text ''ino:'' (dec_str ino) # bufs) (0, fi) =
     fdinfo_loop msk bufs (FDINFO_BASE, fi\<lparr> fi_pos := sint (of_nat pos :: 64 word), fi_flags := s32 (int v) \<rparr>)"
proof -
  have fl: "fl \<noteq> []" using assms(3) by (simp add: plain_field_def)
  have m: "0 OR FDINFO_POS \<noteq> msk" "(0 OR FDINFO_POS) OR FDINFO_FLAGS \<noteq> msk" "has_flag msk FDINFO_FLAGS" "has_flag msk FDINFO_POS"
    by (simp_all add: assms(1) flag_simps)
  have base: "(0 OR FDINFO_POS) OR FDINFO_FLAGS = FDINFO_BASE" by (simp add: FDINFO_BASE_def or.commute)
  show ?thesis
    unfolding fdinfo_loop_text [OF plain_keys(1) plain_dec_str fdinfo_line_pos [OF m(4,1) assms(4)]]
      fdinfo_loop_text [OF plain_keys(2) assms(3) fdinfo_line_flags [OF m(3,2) assms(2) fl]]
    by (subst fdinfo_loop_text [OF plain_keys(3) plain_dec_str fdinfo_line_other], simp,
        subst fdinfo_loop_text [OF plain_keys(4) plain_dec_str fdinfo_line_other], simp, simp only: base)
qed




section \<open>Fields with separators and hexadecimal numbers\<close>

lemma hex_base_digit: "n < 16 \<Longrightarrow> base_digit (hex_digit n) = n"
proof -
  assume "n < 16"
  then have "n \<in> set [0..<16]" by simp
  then show ?thesis by (auto simp: hex_digit_def base_digit_def isdigit_c_def upt_rec)
qed

lemma get_fields_end:
  assumes "plain_field f" "set f \<inter> set sep = {}" "c = blank \<or> c \<in> set sep" "c \<noteq> nl"
  shows "get_fields_from sep [] n (f @ c # r) = f # get_fields_from sep [] (n + 1) r"
proof -
  have "gf_scan sep False (f @ c # r) = (f, r)"
    using assms by (subst gf_scan_plain) (auto simp: plain_field_def)
  moreover have "f @ c # r \<noteq> []" "hd (f @ c # r) \<noteq> nl"
    using assms(1) by (cases f; auto simp: plain_field_def)+
  ultimately show ?thesis using assms(1) by (subst get_fields_from.simps) (simp add: plain_not_dropped)
qed

lemma get_fields_last:
  assumes "plain_field f" "set f \<inter> set sep = {}"
  shows "get_fields_from sep [] n (f @ [nl]) = [f]"
proof -
  have "gf_scan sep False (f @ [nl]) = (f, [])"
    using assms by (subst gf_scan_plain) (auto simp: plain_field_def)
  moreover have "f @ [nl] \<noteq> []" "hd (f @ [nl]) \<noteq> nl"
    using assms(1) by (cases f; auto simp: plain_field_def)+
  ultimately show ?thesis using assms(1) by (subst get_fields_from.simps) (simp add: plain_not_dropped)
qed

lemma base16_hex_char: "is_hex_char c \<Longrightarrow> base_digit c < 16"
  by (auto simp: is_hex_char_def base_digit_def isdigit_c_def)

lemma base_value_hex_str: "base_value 16 (hex_str n) = n"
proof (induction n rule: hex_str.induct)
  case (1 n)
  show ?case
  proof (cases "n < 16")
    case True
    then show ?thesis by (simp add: hex_str.simps [of n] base_value_def hex_base_digit)
  next
    case False
    then show ?thesis using 1 by (simp add: hex_str.simps [of n] base_value_snoc hex_base_digit)
  qed
qed

lemma hex_char_class: "is_hex_char c \<Longrightarrow> \<not> isspace_c c \<and> c \<noteq> CHR ''-'' \<and> c \<noteq> CHR ''+'' \<and> c \<noteq> CHR ''x'' \<and> c \<noteq> CHR ''X''
    \<and> c \<noteq> blank \<and> c \<noteq> tab \<and> c \<noteq> nl \<and> c \<noteq> CHR '':''"
  by (auto simp: is_hex_char_def isspace_c_def isdigit_c_def)

end
