(* ===== verification/Mounts.thy ===== *)
theory Mounts
  imports Proc_Lines File_Search
begin

text \<open>
  The mount table of \<open>src/lib/dialects/linux/dmnt.c\<close>: the octal escapes of \<open>/proc/mounts\<close>
  (\<open>convert_octal_escaped\<close>), the mount supplement file (\<open>getmntdev\<close>, \<open>hash_mnt\<close>) and the loop of
  \<open>readmnt\<close>.  What \<open>Readlink\<close> and \<open>statsafely\<close> answer is a parameter.
\<close>

section \<open>Octal escapes\<close>

definition is_octal :: "char \<Rightarrow> bool" where
  "is_octal c \<longleftrightarrow> 48 \<le> byte c \<and> byte c \<le> 55"

definition oct_val :: "char \<Rightarrow> char \<Rightarrow> char \<Rightarrow> nat" where
  "oct_val a b d = (byte a - 48) * 64 + (byte b - 48) * 8 + (byte d - 48)"

fun conv_oct :: "cstring \<Rightarrow> cstring" where
  "conv_oct (c # a # b # d # s) =
    (if c = bsl \<and> is_octal a \<and> is_octal b \<and> is_octal d
     then char_of (oct_val a b d mod 256) # conv_oct s
     else c # conv_oct (a # b # d # s))"
| "conv_oct (c # s) = c # conv_oct s"
| "conv_oct [] = []"

text \<open>The copy is a C string: an escaped null ends it.\<close>

definition convert_octal_escaped :: "cstring \<Rightarrow> cstring option" where
  "convert_octal_escaped orig_str =
    (if orig_str = [] then None else Some (takeWhile (\<lambda>c. c \<noteq> CHR 0x00) (conv_oct orig_str)))"

section \<open>The mount supplement\<close>

definition HASHMNT :: nat where "HASHMNT = 128"

fun hash_mnt_loop :: "nat \<Rightarrow> 32 word \<Rightarrow> cstring \<Rightarrow> 32 word" where
  "hash_mnt_loop i h (c # d # s) =
    hash_mnt_loop (i + 1) (h XOR push_bit (i * 3 mod 13) (of_int (schar c) * of_int (schar d))) (d # s)"
| "hash_mnt_loop i h s = h"

definition hash_mnt :: "cstring \<Rightarrow> nat" where
  "hash_mnt dir_name =
    (case dir_name of
       [] \<Rightarrow> 0
     | [c] \<Rightarrow> unat ((of_int (schar c) :: 32 word) AND 127)
     | _ \<Rightarrow> unat (hash_mnt_loop 0 0 dir_name AND 127))"

record mntsup =
  su_dir_name :: cstring
  su_dir_name_len :: nat
  su_dev :: "64 word"
  su_ln :: nat

text \<open>The hash buckets, and the function's static error flag.\<close>

record mntsup_st =
  ms_err :: bool
  ms_hash :: "(nat \<Rightarrow> mntsup list) option"

text \<open>One line of the file: the path and the device number, or nothing when the line is illegal.\<close>

definition sup_line :: "cstring \<Rightarrow> (cstring \<times> 64 word) option" where
  "sup_line line =
    (let buf = takeWhile (\<lambda>c. c \<noteq> nl) line; path = takeWhile (\<lambda>c. c \<noteq> blank) buf; dp = dropWhile (\<lambda>c. c \<noteq> blank) buf in
     if buf = [] \<or> hd buf \<noteq> CHR ''/'' then None
     else if dp = [] \<or> take 2 (tl dp) \<noteq> ''0x'' then None
     else if \<not> list_all is_hex_char (drop 3 dp) then None
     else Some (path, foldl (\<lambda>dev c. push_bit 4 dev + of_nat (base_digit c)) 0 (drop 3 dp)))"

text \<open>
  Entering a line: the chain is searched for an entry that has the path and the length of the directory
  that is asked for.
\<close>

definition sup_enter :: "nat \<Rightarrow> nat \<Rightarrow> cstring \<Rightarrow> mntsup_st \<Rightarrow> mntsup_st" where
  "sup_enter dir_name_len ln line st =
    (case sup_line line of
       None \<Rightarrow> st\<lparr> ms_err := True \<rparr>
     | Some (path, dev) \<Rightarrow>
        (let tbl = (case ms_hash st of None \<Rightarrow> (\<lambda>_. []) | Some t \<Rightarrow> t); h = hash_mnt path in
         case List.find (\<lambda>mp. su_dir_name_len mp = dir_name_len \<and> su_dir_name mp = path) (tbl h) of
           Some mp \<Rightarrow> st\<lparr> ms_hash := Some tbl, ms_err := (ms_err st \<or> su_dev mp \<noteq> dev) \<rparr>
         | None \<Rightarrow>
            st\<lparr> ms_hash := Some (tbl(h := \<lparr> su_dir_name = path, su_dir_name_len = length path, su_dev = dev, su_ln = ln \<rparr> # tbl h)) \<rparr>))"

fun sup_read :: "nat \<Rightarrow> nat \<Rightarrow> cstring list \<Rightarrow> mntsup_st \<Rightarrow> mntsup_st" where
  "sup_read dir_name_len ln [] st = st"
| "sup_read dir_name_len ln (line # lines) st = sup_read dir_name_len (ln + 1) lines (sup_enter dir_name_len (ln + 1) line st)"

text \<open>
  \<open>getmntdev\<close>: the file's lines, \<open>None\<close> when it cannot be read or opened, and whether reading ended with
  an error.  The outer \<open>None\<close> of the result is a read through the null pointer \<open>MSHash\<close>.
\<close>

definition getmntdev ::
  "cstring list option \<Rightarrow> bool \<Rightarrow> cstring \<Rightarrow> nat \<Rightarrow> mntsup_st \<Rightarrow> (64 word option \<times> mntsup_st) option" where
  "getmntdev supfile ferr dir_name dir_name_len st =
    (if ms_err st then Some (None, st)
     else
       (let st1 = (case ms_hash st of
                     Some _ \<Rightarrow> st
                   | None \<Rightarrow>
                      (case supfile of
                         None \<Rightarrow> st\<lparr> ms_err := True \<rparr>
                       | Some lines \<Rightarrow>
                          (let s = sup_read dir_name_len 0 lines st; e = (ms_err s \<or> ferr) in
                           s\<lparr> ms_err := e, ms_hash := (if e then None else ms_hash s) \<rparr>))) in
        if ms_err st1 then Some (None, st1)
        else case ms_hash st1 of
          None \<Rightarrow> None
        | Some tbl \<Rightarrow>
           Some (map_option su_dev (List.find (\<lambda>mp. dir_name_len = su_dir_name_len mp \<and> dir_name = su_dir_name mp) (tbl (hash_mnt dir_name))), st1)))"

section \<open>The mount table\<close>

definition SB_DEV :: nat where "SB_DEV = 0x01"
definition SB_INO :: nat where "SB_INO = 0x02"
definition SB_MODE :: nat where "SB_MODE = 0x04"
definition SB_NLINK :: nat where "SB_NLINK = 0x08"
definition SB_RDEV :: nat where "SB_RDEV = 0x10"
definition SB_SIZE :: nat where "SB_SIZE = 0x20"
definition SB_ALL :: nat where "SB_ALL = 0x3f"

lemmas sb_simps = SB_DEV_def SB_INO_def SB_MODE_def SB_NLINK_def SB_RDEV_def SB_SIZE_def SB_ALL_def

definition N_MQUEUE :: nat where "N_MQUEUE = 55"

record statb =
  st_dev :: "64 word"
  st_ino :: "64 word"
  st_mode :: nat
  st_nlink :: nat
  st_rdev :: "64 word"
  st_size :: int

definition zero_stat :: statb where
  "zero_stat = \<lparr> st_dev = 0, st_ino = 0, st_mode = 0, st_nlink = 0, st_rdev = 0, st_size = 0 \<rparr>"

record efsys_list =
  ef_path :: cstring
  ef_pathl :: nat
  ef_rdlnk :: bool
  ef_mp :: "mounts option"

text \<open>
  What the loop asks of its surroundings: links, file status, the \<open>-e\<close> list, and the \<open>+m\<close> option with
  the lines of its file.
\<close>

record mount_env =
  me_readlink :: "cstring \<Rightarrow> cstring option"
  me_stat :: "cstring \<Rightarrow> statb option"
  me_efsysl :: "efsys_list list"
  me_mntsup :: nat
  me_mntsupp :: bool
  me_supfile :: "cstring list option"
  me_superr :: bool

text \<open>
  The state: the table \<open>Lmi\<close> (its head is the newest entry), \<open>HasNFS\<close>, \<open>MqueueDev\<close>, the supplement, the
  local \<open>sb\<close>, the lines on standard output and the \<open>assuming dev\<close> messages.
\<close>

record mount_st =
  ml_lmi :: "mounts list"
  ml_hasnfs :: nat
  ml_mqdev :: "64 word"
  ml_sup :: mntsup_st
  ml_sb :: statb
  ml_out :: "cstring list"
  ml_assumed :: "(64 word \<times> cstring) list"

definition is_nfs :: "cstring \<Rightarrow> bool" where
  "is_nfs t \<longleftrightarrow> strcasecmp_eq t ''nfs'' \<or> strcasecmp_eq t ''nfs3'' \<or> strcasecmp_eq t ''nfs4''"

definition mnt_ignored :: "cstring \<Rightarrow> cstring \<Rightarrow> bool" where
  "mnt_ignored fp0 t \<longleftrightarrow>
    (let cp = dropWhile (\<lambda>c. c \<noteq> CHR '':'') fp0 in cp \<noteq> [] \<and> strcasecmp_eq (take 4 (tl cp)) ''(pid'') \<or>
    strcasecmp_eq t ''autofs'' \<or> strcasecmp_eq t ''pipefs'' \<or> strcasecmp_eq t ''sockfs''"

text \<open>The new entry replaces the one with the same directory, or becomes the head.\<close>

definition lmi_enter :: "mounts \<Rightarrow> mounts list \<Rightarrow> mounts list" where
  "lmi_enter mp lmi =
    (if \<exists>m \<in> set lmi. mt_dir m = mt_dir mp then map (\<lambda>m. if mt_dir m = mt_dir mp then mp else m) lmi
     else mp # lmi)"

definition sup_text :: "cstring \<Rightarrow> 64 word \<Rightarrow> cstring" where
  "sup_text dir dev = dir @ '' 0x'' @ hex_str (unat dev) @ [nl]"

definition readmnt_fill ::
  "mount_env \<Rightarrow> cstring \<Rightarrow> cstring \<Rightarrow> cstring \<Rightarrow> bool \<Rightarrow> bool \<Rightarrow> nat \<Rightarrow> mount_st \<Rightarrow> mount_st" where
  "readmnt_fill env fp0 dn t ignrdl ignstat ds st =
    (let sb = ml_sb st;
         dev = (if ds AND SB_DEV \<noteq> 0 then st_dev sb else 0);
         ty = (if is_nfs t then N_NFS else if t = ''mqueue'' then N_MQUEUE else N_REGLR);
         plain = (ignrdl \<or> fp0 = [] \<or> hd fp0 \<noteq> CHR ''/'');
         ln = (if plain then Some fp0 else me_readlink env fp0);
         sb2 = (if ignstat \<or> plain then sb\<lparr> st_mode := 0 \<rparr>
                else case ln of
                  None \<Rightarrow> sb\<lparr> st_mode := 0 \<rparr>
                | Some l \<Rightarrow> (case me_stat env l of None \<Rightarrow> sb\<lparr> st_mode := 0 \<rparr> | Some s \<Rightarrow> s));
         mp = \<lparr> mt_dir = Some dn, mt_fsname = Some fp0, mt_fsnmres = ln, mt_dirl = length dn, mt_dev = dev,
                mt_rdev = (if ds AND SB_RDEV \<noteq> 0 then st_rdev sb else 0),
                mt_inode = (if ds AND SB_INO \<noteq> 0 then st_ino sb else 0),
                mt_mode = (if ds AND SB_MODE \<noteq> 0 then st_mode sb else 0),
                mt_ds = ds, mt_fs_mode = st_mode sb2, mt_ty = ty \<rparr> in
     st\<lparr> ml_lmi := lmi_enter mp (ml_lmi st),
         ml_hasnfs := (if is_nfs t \<and> ml_hasnfs st < 2 then 2 else ml_hasnfs st),
         ml_mqdev := (if \<not> is_nfs t \<and> t = ''mqueue'' then dev else ml_mqdev st),
         ml_sb := sb2,
         ml_out := ml_out st @ (if me_mntsup env = 1 then [sup_text dn dev] else []) \<rparr>)"

text \<open>Where \<open>stat\<close> failed or was not called, the supplement is asked.\<close>

definition readmnt_stat ::
  "mount_env \<Rightarrow> cstring \<Rightarrow> cstring \<Rightarrow> cstring \<Rightarrow> bool \<Rightarrow> bool \<Rightarrow> mount_st \<Rightarrow> mount_st option" where
  "readmnt_stat env fp0 dn t ignrdl ignstat st =
    (case (if ignstat then None else me_stat env dn) of
       Some sb \<Rightarrow> Some (readmnt_fill env fp0 dn t ignrdl ignstat SB_ALL (st\<lparr> ml_sb := sb \<rparr>))
     | None \<Rightarrow>
        if me_mntsup env = 2 \<and> me_mntsupp env then
          (case getmntdev (me_supfile env) (me_superr env) dn (length dn) (ml_sup st) of
             None \<Rightarrow> None
           | Some (d, su) \<Rightarrow>
              (let sb = (case d of None \<Rightarrow> ml_sb st | Some dev \<Rightarrow> zero_stat\<lparr> st_dev := dev \<rparr>);
                   ds = (case d of None \<Rightarrow> 0 | Some _ \<Rightarrow> SB_DEV) in
               Some (readmnt_fill env fp0 dn t ignrdl ignstat ds
                 (st\<lparr> ml_sup := su, ml_sb := sb,
                      ml_assumed := ml_assumed st @ (if d \<noteq> None \<or> ds AND SB_DEV = 0 then [(st_dev sb, dn)] else []) \<rparr>))))
        else if \<not> ignstat then Some st
        else Some (readmnt_fill env fp0 dn t ignrdl ignstat 0 st))"

text \<open>A mounted directory: a duplicate is ignored, unless it is the root, NFS-mounted for the first time.\<close>

definition readmnt_dir ::
  "mount_env \<Rightarrow> cstring \<Rightarrow> cstring \<Rightarrow> cstring \<Rightarrow> bool \<Rightarrow> bool \<Rightarrow> mount_st \<Rightarrow> mount_st option" where
  "readmnt_dir env fp0 dn t ignrdl ignstat st =
    (let st0 = (if is_nfs t \<and> ml_hasnfs st = 0 then st\<lparr> ml_hasnfs := 1 \<rparr> else st);
         dup = List.find (\<lambda>m. mt_dirl m = length dn \<and> mt_dir m = Some dn) (ml_lmi st) in
     if (case dup of None \<Rightarrow> False | Some mp \<Rightarrow> dn \<noteq> ''/'' \<or> mt_ty mp = N_NFS \<or> \<not> is_nfs t) then Some st0
     else readmnt_stat env fp0 dn t ignrdl ignstat st0)"

definition readmnt_line :: "mount_env \<Rightarrow> cstring \<Rightarrow> mount_st \<Rightarrow> mount_st option" where
  "readmnt_line env buf st =
    (case get_fields buf [] [] of
       f0 # f1 # t # _ \<Rightarrow>
         (case convert_octal_escaped f0 of
            None \<Rightarrow> Some st
          | Some fp0 \<Rightarrow>
            (case convert_octal_escaped f1 of
               None \<Rightarrow> Some st
             | Some fp1 \<Rightarrow>
                if mnt_ignored fp0 t then Some st
                else
                  (let ep = List.find (\<lambda>e. ef_path e = fp1) (me_efsysl env);
                       ignrdl = (case ep of None \<Rightarrow> False | Some e \<Rightarrow> ef_rdlnk e); ignstat = (ep \<noteq> None) in
                   case (if ignrdl then Some fp1 else me_readlink env fp1) of
                     None \<Rightarrow> Some st
                   | Some dn \<Rightarrow>
                      if dn = [] \<or> hd dn \<noteq> CHR ''/'' then Some st
                      else readmnt_dir env fp0 dn t ignrdl ignstat st)))
     | _ \<Rightarrow> Some st)"

fun readmnt_loop :: "mount_env \<Rightarrow> cstring list \<Rightarrow> mount_st \<Rightarrow> mount_st option" where
  "readmnt_loop env [] st = Some st"
| "readmnt_loop env (buf # bufs) st =
    (case readmnt_line env buf st of None \<Rightarrow> None | Some st1 \<Rightarrow> readmnt_loop env bufs st1)"

text \<open>
  \<open>readmnt\<close>: \<open>lmist\<close> tells that the table was read before.  The program ends when \<open>/proc/mounts\<close> cannot be
  opened; the outer \<open>None\<close> is the null pointer of the supplement.
\<close>

definition readmnt :: "mount_env \<Rightarrow> cstring list option \<Rightarrow> bool \<Rightarrow> mount_st \<Rightarrow> (mount_st \<times> bool) run option" where
  "readmnt env mounts_file lmist st =
    (if ml_lmi st \<noteq> [] \<or> lmist then Some (Done (st, lmist))
     else case mounts_file of
       None \<Rightarrow> Some (Exited LSOF_EXIT_ERROR)
     | Some bufs \<Rightarrow> map_option (\<lambda>s. Done (s, True)) (readmnt_loop env bufs st))"

section \<open>Escapes are undone\<close>

text \<open>The kernel writes the characters of \<open>esc\<close> as a backslash and three octal digits.\<close>

definition oct3 :: "char \<Rightarrow> cstring" where
  "oct3 c = [char_of (48 + byte c div 64), char_of (48 + byte c div 8 mod 8), char_of (48 + byte c mod 8)]"

definition mangle :: "char set \<Rightarrow> cstring \<Rightarrow> cstring" where
  "mangle esc s = concat (map (\<lambda>c. if c \<in> esc then bsl # oct3 c else [c]) s)"

lemma byte_digit_oct: "k < 8 \<Longrightarrow> byte (char_of (48 + k)) = 48 + k"
  by simp

lemma oct3_octal: "byte c div 64 < 8" "byte c div 8 mod 8 < 8" "byte c mod 8 < 8"
  using byte_le [of c] by auto

lemma oct3_val: "byte c div 64 * 64 + byte c div 8 mod 8 * 8 + byte c mod 8 = byte c"
proof -
  have "byte c div 8 = byte c div 8 div 8 * 8 + byte c div 8 mod 8" by simp
  moreover have "byte c div 8 div 8 = byte c div 64" by (simp add: div_mult2_eq [symmetric])
  moreover have "byte c = byte c div 8 * 8 + byte c mod 8" by simp
  ultimately show ?thesis by linarith
qed

lemma conv_oct_plain: "c \<noteq> bsl \<Longrightarrow> conv_oct (c # s) = c # conv_oct s"
  by (cases "(c # s)" rule: conv_oct.cases) auto

lemma conv_oct_oct3: "conv_oct (bsl # oct3 c @ s) = c # conv_oct s"
proof -
  let ?a = "char_of (48 + byte c div 64) :: char" and ?b = "char_of (48 + byte c div 8 mod 8) :: char"
    and ?d = "char_of (48 + byte c mod 8) :: char"
  have "is_octal ?a" "is_octal ?b" "is_octal ?d"
    using oct3_octal [of c] unfolding is_octal_def by (simp_all only: byte_digit_oct) linarith+
  moreover have "oct_val ?a ?b ?d = byte c"
    using oct3_octal [of c] oct3_val [of c] unfolding oct_val_def by (simp only: byte_digit_oct diff_add_inverse)
  moreover have "char_of (byte c mod 256) = c" using byte_le [of c] by simp
  ultimately show ?thesis by (simp add: oct3_def del: byte_char_of)
qed

lemma conv_oct_mangle: "bsl \<in> esc \<Longrightarrow> conv_oct (mangle esc s) = s"
proof (induction s)
  case (Cons c s)
  show ?case
  proof (cases "c \<in> esc")
    case True
    have "mangle esc (c # s) = bsl # oct3 c @ mangle esc s" using True by (simp add: mangle_def)
    then show ?thesis using Cons conv_oct_oct3 by simp
  next
    case False
    then have "c \<noteq> bsl" using Cons.prems by auto
    moreover have "mangle esc (c # s) = c # mangle esc s" using False by (simp add: mangle_def)
    ultimately show ?thesis using Cons conv_oct_plain by simp
  qed
qed (simp add: mangle_def)

lemma mangle_Nil: "mangle esc s = [] \<longleftrightarrow> s = []"
  by (cases s) (auto simp: mangle_def)

lemma convert_octal_mangle:
  assumes "bsl \<in> esc" "s \<noteq> []" "CHR 0x00 \<notin> set s"
  shows "convert_octal_escaped (mangle esc s) = Some s"
proof -
  have "takeWhile (\<lambda>c. c \<noteq> CHR 0x00) s = s" using assms(3) by (auto simp: takeWhile_eq_all_conv)
  then show ?thesis using assms by (simp add: convert_octal_escaped_def conv_oct_mangle mangle_Nil)
qed

lemma mangle_plain:
  assumes "{blank, tab, nl} \<subseteq> esc" "s \<noteq> []"
  shows "plain_field (mangle esc s)"
proof -
  have "x \<notin> set (bsl # oct3 c)" if "x \<in> {blank, tab, nl}" for x c
  proof -
    have "byte x < 48" "x \<noteq> bsl" using that by auto
    moreover have "48 \<le> byte y" if "y \<in> set (oct3 c)" for y
      using that oct3_octal [of c] by (auto simp: oct3_def byte_digit_oct simp del: byte_char_of)
    ultimately show ?thesis by fastforce
  qed
  then have "x \<notin> set (mangle esc s)" if "x \<in> {blank, tab, nl}" for x
    using that assms(1) by (auto simp: mangle_def split: if_splits)
  then show ?thesis using assms(2) by (simp add: plain_field_def mangle_Nil)
qed

section \<open>The supplement file is read back\<close>

lemma sup_dev_hex_str: "foldl (\<lambda>dev c. push_bit 4 dev + of_nat (base_digit c)) (0 :: 64 word) (hex_str n) = of_nat n"
proof (induction n rule: hex_str.induct)
  case (1 n)
  show ?case
  proof (cases "n < 16")
    case False
    have "(of_nat (n div 16) * 16 + of_nat (n mod 16) :: 64 word) = of_nat (n div 16 * 16 + n mod 16)"
      by (simp only: of_nat_add of_nat_mult) simp
    then show ?thesis using 1 False
      by (simp add: hex_str.simps [of n] hex_base_digit push_bit_eq_mult)
  qed (simp add: hex_str.simps [of n] hex_base_digit)
qed

definition sup_dir_ok :: "cstring \<Rightarrow> bool" where
  "sup_dir_ok dir \<longleftrightarrow> dir \<noteq> [] \<and> hd dir = CHR ''/'' \<and> blank \<notin> set dir \<and> nl \<notin> set dir"

lemma hex_str_no_nl: "nl \<notin> set (hex_str n)"
  using hex_str_chars [of n] by (auto simp: list_all_iff is_hex_char_def isdigit_c_def)

lemma sup_line_text: "sup_dir_ok dir \<Longrightarrow> sup_line (sup_text dir dev) = Some (dir, dev)"
proof -
  assume ok: "sup_dir_ok dir"
  let ?d = "'' 0x'' @ hex_str (unat dev)"
  have "nl \<notin> set (dir @ ?d)" using ok hex_str_no_nl by (auto simp: sup_dir_ok_def)
  then have "takeWhile (\<lambda>c. c \<noteq> nl) ((dir @ ?d) @ [nl]) = dir @ ?d"
    by (subst takeWhile_append2) auto
  moreover have "takeWhile (\<lambda>c. c \<noteq> blank) (dir @ ?d) = dir" "dropWhile (\<lambda>c. c \<noteq> blank) (dir @ ?d) = ?d"
    using ok by (subst takeWhile_append2 dropWhile_append2; auto simp: sup_dir_ok_def)+
  moreover have "hd (dir @ ?d) = CHR ''/''" "dir \<noteq> []" using ok by (auto simp: sup_dir_ok_def)
  moreover note hex_str_chars [of "unat dev"] sup_dev_hex_str [of "unat dev"]
  ultimately show ?thesis by (simp add: sup_line_def sup_text_def Let_def numeral_3_eq_3)
qed

text \<open>The buckets as a map from directories to device numbers.\<close>

definition sup_tbl :: "mntsup_st \<Rightarrow> nat \<Rightarrow> mntsup list" where
  "sup_tbl st = (case ms_hash st of None \<Rightarrow> (\<lambda>_. []) | Some t \<Rightarrow> t)"

definition sup_find :: "(nat \<Rightarrow> mntsup list) \<Rightarrow> cstring \<Rightarrow> 64 word option" where
  "sup_find tbl dir = map_option su_dev (List.find (\<lambda>mp. length dir = su_dir_name_len mp \<and> dir = su_dir_name mp) (tbl (hash_mnt dir)))"

definition sup_wf :: "(nat \<Rightarrow> mntsup list) \<Rightarrow> bool" where
  "sup_wf tbl \<longleftrightarrow> (\<forall>h. \<forall>mp \<in> set (tbl h). su_dir_name_len mp = length (su_dir_name mp))"

lemma sup_find_asked:
  assumes "sup_wf tbl"
  shows "map_option su_dev (List.find (\<lambda>mp. su_dir_name_len mp = l \<and> su_dir_name mp = dir) (tbl (hash_mnt dir))) =
    (if l = length dir then sup_find tbl dir else None)"
proof -
  have "List.find (\<lambda>mp. su_dir_name_len mp = l \<and> su_dir_name mp = dir) (tbl (hash_mnt dir)) =
      (if l = length dir then List.find (\<lambda>mp. length dir = su_dir_name_len mp \<and> dir = su_dir_name mp) (tbl (hash_mnt dir)) else None)"
    using assms by (auto simp: sup_wf_def find_None_iff intro!: find_cong)
  then show ?thesis by (simp add: sup_find_def)
qed

text \<open>
  One line enters its pair, unless the length that is searched for is that of its path and the path
  is known.  Only then is a different device number an error.
\<close>

lemma sup_enter_map:
  assumes wf: "sup_wf (sup_tbl st)" and line: "sup_line line = Some (dir, dev)"
    and st1_def: "st1 = sup_enter l n line st"
  shows "sup_wf (sup_tbl st1)" and "ms_hash st1 \<noteq> None"
    and "sup_find (sup_tbl st1) =
      (if l = length dir \<and> sup_find (sup_tbl st) dir \<noteq> None then sup_find (sup_tbl st) else (sup_find (sup_tbl st))(dir \<mapsto> dev))"
    and "ms_err st1 \<longleftrightarrow> ms_err st \<or> l = length dir \<and> (\<exists>d. sup_find (sup_tbl st) dir = Some d \<and> d \<noteq> dev)"
proof -
  let ?tbl = "sup_tbl st" and ?h = "hash_mnt dir"
  let ?mp = "\<lparr> su_dir_name = dir, su_dir_name_len = length dir, su_dev = dev, su_ln = n \<rparr>"
  let ?f = "List.find (\<lambda>mp. su_dir_name_len mp = l \<and> su_dir_name mp = dir) (?tbl ?h)"
  have st1: "st1 = (case ?f of Some mp \<Rightarrow> st\<lparr> ms_hash := Some ?tbl, ms_err := (ms_err st \<or> su_dev mp \<noteq> dev) \<rparr>
      | None \<Rightarrow> st\<lparr> ms_hash := Some (?tbl(?h := ?mp # ?tbl ?h)) \<rparr>)"
    unfolding st1_def sup_enter_def line sup_tbl_def by (simp add: Let_def)
  note asked = sup_find_asked [OF wf, of l dir]
  have "sup_wf (sup_tbl st1) \<and> ms_hash st1 \<noteq> None \<and> sup_find (sup_tbl st1) =
      (if l = length dir \<and> sup_find ?tbl dir \<noteq> None then sup_find ?tbl else (sup_find ?tbl)(dir \<mapsto> dev)) \<and>
    (ms_err st1 \<longleftrightarrow> ms_err st \<or> l = length dir \<and> (\<exists>d. sup_find ?tbl dir = Some d \<and> d \<noteq> dev))"
  proof (cases ?f)
    case None
    have "sup_find (?tbl(?h := ?mp # ?tbl ?h)) = (sup_find ?tbl)(dir \<mapsto> dev)"
      by (auto simp: sup_find_def fun_eq_iff)
    moreover have "sup_wf (?tbl(?h := ?mp # ?tbl ?h))" using wf by (simp add: sup_wf_def)
    ultimately show ?thesis using None asked by (auto simp: st1 sup_tbl_def [of "ms_hash_update _ _"] split: if_splits)
  next
    case (Some mp)
    then show ?thesis using asked wf by (auto simp: st1 sup_tbl_def [of "ms_err_update _ _"] split: if_splits)
  qed
  then show "sup_wf (sup_tbl st1)" "ms_hash st1 \<noteq> None"
    "sup_find (sup_tbl st1) =
      (if l = length dir \<and> sup_find ?tbl dir \<noteq> None then sup_find ?tbl else (sup_find ?tbl)(dir \<mapsto> dev))"
    "ms_err st1 \<longleftrightarrow> ms_err st \<or> l = length dir \<and> (\<exists>d. sup_find ?tbl dir = Some d \<and> d \<noteq> dev)" by blast+
qed

lemma sup_read_map:
  assumes "sup_wf (sup_tbl st)" "\<forall>(dir, dev) \<in> set es. sup_dir_ok dir" "distinct (map fst es)"
    "\<forall>(dir, dev) \<in> set es. sup_find (sup_tbl st) dir = None"
  shows "let st1 = sup_read l n (map (\<lambda>(dir, dev). sup_text dir dev) es) st in
    sup_find (sup_tbl st1) = sup_find (sup_tbl st) ++ map_of es \<and> ms_err st1 = ms_err st \<and> (es \<noteq> [] \<longrightarrow> ms_hash st1 \<noteq> None)"
  using assms
proof (induction es arbitrary: st n)
  case (Cons e es)
  obtain dir dev where e: "e = (dir, dev)" by force
  have line: "sup_line (sup_text dir dev) = Some (dir, dev)" using Cons.prems(2) e by (auto intro: sup_line_text)
  let ?st = "sup_enter l (n + 1) (sup_text dir dev) st"
  note st1 = sup_enter_map [OF Cons.prems(1) line refl, of l "n + 1"]
  have none: "sup_find (sup_tbl st) dir = None" using Cons.prems(4) e by auto
  then have find: "sup_find (sup_tbl ?st) = (sup_find (sup_tbl st))(dir \<mapsto> dev)" and err: "ms_err ?st = ms_err st"
    using st1(3,4) by auto
  have "\<forall>(d, v) \<in> set es. sup_find (sup_tbl ?st) d = None" using Cons.prems(3,4) e find by (force simp: image_iff)
  moreover have "\<forall>(d, v) \<in> set es. sup_dir_ok d" "distinct (map fst es)" using Cons.prems(2,3) by auto
  ultimately have IH: "let st2 = sup_read l (n + 1) (map (\<lambda>(dir, dev). sup_text dir dev) es) ?st in
      sup_find (sup_tbl st2) = sup_find (sup_tbl ?st) ++ map_of es \<and> ms_err st2 = ms_err ?st \<and> (es \<noteq> [] \<longrightarrow> ms_hash st2 \<noteq> None)"
    using Cons.IH st1(1) by blast
  have "dir \<notin> dom (map_of es)" using Cons.prems(3) e by (auto simp: dom_map_of_conv_image_fst)
  then have eq: "(sup_find (sup_tbl st))(dir \<mapsto> dev) ++ map_of es = sup_find (sup_tbl st) ++ map_of (e # es)"
    by (auto simp: e map_add_def fun_eq_iff split: option.splits)
  have r: "sup_read l n (map (\<lambda>(dir, dev). sup_text dir dev) (e # es)) st =
      sup_read l (n + 1) (map (\<lambda>(dir, dev). sup_text dir dev) es) ?st" by (simp add: e)
  show ?case using IH st1(2) unfolding r Let_def eq [symmetric] find err by (cases "es = []") auto
qed simp



text \<open>
  C39: contradictory lines of the supplement go unnoticed when the first directory that is looked up has
  another length than theirs, and the later line wins; and an empty supplement file makes the lookup
  read through a null pointer.
\<close>

theorem getmntdev_misses_duplicate:
  assumes "sup_dir_ok dir" "length q \<noteq> length dir"
  shows "(\<exists>st. getmntdev (Some [sup_text dir d1, sup_text dir d2]) False q (length q) \<lparr> ms_err = False, ms_hash = None \<rparr> = Some (None, st) \<and>
      getmntdev None False dir (length dir) st = Some (Some d2, st)) \<and>
    getmntdev (Some []) False q (length q) \<lparr> ms_err = False, ms_hash = None \<rparr> = None"
proof -
  let ?st0 = "\<lparr> ms_err = False, ms_hash = None \<rparr>"
  let ?st1 = "sup_enter (length q) 1 (sup_text dir d1) ?st0"
  define st where "st = sup_enter (length q) 2 (sup_text dir d2) ?st1"
  have tbl0: "sup_tbl ?st0 = (\<lambda>_. [])" by (simp add: sup_tbl_def)
  then have "sup_wf (sup_tbl ?st0)" and find0: "sup_find (sup_tbl ?st0) = Map.empty"
    by (auto simp: sup_wf_def sup_find_def)
  note m1 = sup_enter_map [OF this(1) sup_line_text [OF assms(1)] refl, of "length q" 1 d1]
  note m2 = sup_enter_map [OF m1(1) sup_line_text [OF assms(1)] st_def]
  have find: "sup_find (sup_tbl st) = [dir \<mapsto> d2]" and err: "\<not> ms_err st"
    using m1(3,4) m2(3,4) assms(2) find0 by simp_all
  obtain t where t: "ms_hash st = Some t" using m2(2) by auto
  then have look: "map_option su_dev (List.find (\<lambda>mp. length x = su_dir_name_len mp \<and> x = su_dir_name mp) (t (hash_mnt x))) = [dir \<mapsto> d2] x" for x
    using find by (simp add: sup_find_def sup_tbl_def fun_eq_iff)
  have "st\<lparr> ms_err := False, ms_hash := Some t \<rparr> = st" using err t by simp
  moreover have "sup_read (length q) 0 [sup_text dir d1, sup_text dir d2] ?st0 = st"
    by (simp add: st_def numeral_2_eq_2)
  ultimately have "getmntdev (Some [sup_text dir d1, sup_text dir d2]) False q (length q) ?st0 = Some (None, st)"
    using look [of q] err t assms(2) by (auto simp: getmntdev_def Let_def)
  moreover have "getmntdev None False dir (length dir) st = Some (Some d2, st)"
    using look [of dir] err t by (simp add: getmntdev_def Let_def)
  moreover have "getmntdev (Some []) False q (length q) ?st0 = None" by (simp add: getmntdev_def)
  ultimately show ?thesis by blast
qed

theorem getmntdev_misses_duplicate_witness:
  "\<exists>st. getmntdev (Some [sup_text ''/a'' 1, sup_text ''/a'' 2]) False ''/'' (length ''/'') \<lparr> ms_err = False, ms_hash = None \<rparr> = Some (None, st) \<and>
      getmntdev None False ''/a'' (length ''/a'') st = Some (Some 2, st)"
  using getmntdev_misses_duplicate [of "''/a''" "''/''" 1 2] by (simp add: sup_dir_ok_def)

section \<open>The table's invariant\<close>

definition mount_ok :: "mounts \<Rightarrow> bool" where
  "mount_ok m \<longleftrightarrow>
    (case mt_dir m of None \<Rightarrow> False | Some d \<Rightarrow> d \<noteq> [] \<and> hd d = CHR ''/'' \<and> mt_dirl m = length d) \<and>
    mt_ty m \<in> {N_NFS, N_MQUEUE, N_REGLR}"

definition mount_inv :: "mount_st \<Rightarrow> bool" where
  "mount_inv st \<longleftrightarrow>
    (\<forall>m \<in> set (ml_lmi st). mount_ok m) \<and> distinct (map mt_dir (ml_lmi st)) \<and> ml_hasnfs st \<le> 2 \<and>
    (ml_hasnfs st = 2 \<longleftrightarrow> (\<exists>m \<in> set (ml_lmi st). mt_ty m = N_NFS))"

lemma lmi_enter_dirs:
  "map mt_dir (lmi_enter mp lmi) = (if mt_dir mp \<in> mt_dir ` set lmi then map mt_dir lmi else mt_dir mp # map mt_dir lmi)"
  by (auto simp: lmi_enter_def intro: rev_image_eqI)

lemma lmi_enter_mem: "m \<in> set (lmi_enter mp lmi) \<Longrightarrow> m = mp \<or> m \<in> set lmi"
  by (auto simp: lmi_enter_def split: if_splits)

lemma lmi_enter_new: "mp \<in> set (lmi_enter mp lmi)"
  by (auto simp: lmi_enter_def image_iff)

lemma type_distinct: "N_NFS \<noteq> N_MQUEUE" "N_NFS \<noteq> N_REGLR" "N_MQUEUE \<noteq> N_REGLR"
  by (simp_all add: N_NFS_def N_MQUEUE_def N_REGLR_def)

lemma readmnt_fill_lmi:
  obtains mp where "ml_lmi (readmnt_fill env fp0 dn t ignrdl ignstat ds st) = lmi_enter mp (ml_lmi st)"
    "mt_dir mp = Some dn" "mt_dirl mp = length dn" "mt_fsname mp = Some fp0" "mt_ds mp = ds"
    "mt_dev mp = (if ds AND SB_DEV \<noteq> 0 then st_dev (ml_sb st) else 0)"
    "mt_ty mp = (if is_nfs t then N_NFS else if t = ''mqueue'' then N_MQUEUE else N_REGLR)"
  unfolding readmnt_fill_def by (simp add: Let_def)

lemma readmnt_fill_nfs:
  "ml_hasnfs (readmnt_fill env fp0 dn t ignrdl ignstat ds st) = (if is_nfs t \<and> ml_hasnfs st < 2 then 2 else ml_hasnfs st)"
  by (simp add: readmnt_fill_def Let_def)

lemma readmnt_fill_inv:
  assumes "mount_inv st" "dn \<noteq> []" "hd dn = CHR ''/''" "\<forall>m \<in> set (ml_lmi st). mt_dir m = Some dn \<longrightarrow> is_nfs t"
  shows "mount_inv (readmnt_fill env fp0 dn t ignrdl ignstat ds st)"
proof -
  let ?st = "readmnt_fill env fp0 dn t ignrdl ignstat ds st"
  obtain mp where l: "ml_lmi ?st = lmi_enter mp (ml_lmi st)" and mp: "mt_dir mp = Some dn" "mt_dirl mp = length dn"
    "mt_ty mp = (if is_nfs t then N_NFS else if t = ''mqueue'' then N_MQUEUE else N_REGLR)"
    by (rule readmnt_fill_lmi)
  have "mount_ok mp" using mp assms(2,3) by (simp add: mount_ok_def)
  then have "\<forall>m \<in> set (ml_lmi ?st). mount_ok m" using assms(1) lmi_enter_mem l unfolding mount_inv_def by metis
  moreover have "distinct (map mt_dir (ml_lmi ?st))"
    using assms(1) unfolding l lmi_enter_dirs by (auto simp: mount_inv_def)
  moreover have "ml_hasnfs ?st \<le> 2" using assms(1) by (simp add: readmnt_fill_nfs mount_inv_def)
  moreover have "ml_hasnfs ?st = 2 \<longleftrightarrow> (\<exists>m \<in> set (ml_lmi ?st). mt_ty m = N_NFS)"
  proof (cases "is_nfs t")
    case True
    then have "mt_ty mp = N_NFS" using mp by simp
    moreover have "ml_hasnfs ?st = 2" using True assms(1) by (auto simp: readmnt_fill_nfs mount_inv_def)
    ultimately show ?thesis using lmi_enter_new [of mp "ml_lmi st"] by (auto simp: l)
  next
    case False
    then have "ml_lmi ?st = mp # ml_lmi st" using assms(4) mp(1) by (auto simp: l lmi_enter_def)
    moreover have "mt_ty mp \<noteq> N_NFS" using False mp(3) type_distinct by simp
    ultimately show ?thesis using assms(1) False by (simp add: readmnt_fill_nfs mount_inv_def)
  qed
  ultimately show ?thesis by (simp add: mount_inv_def)
qed

lemma mount_inv_hasnfs: "mount_inv st \<Longrightarrow> ml_hasnfs st = 0 \<Longrightarrow> mount_inv (st\<lparr> ml_hasnfs := 1 \<rparr>)"
  by (simp add: mount_inv_def)

lemma mount_inv_other:
  "mount_inv (st\<lparr> ml_sb := sb \<rparr>) = mount_inv st" "mount_inv (st\<lparr> ml_sup := su, ml_sb := sb, ml_assumed := a \<rparr>) = mount_inv st"
  "mount_inv (st\<lparr> ml_sup := su, ml_assumed := a \<rparr>) = mount_inv st"
  by (simp_all add: mount_inv_def)

lemma readmnt_stat_inv:
  assumes "mount_inv st" "dn \<noteq> []" "hd dn = CHR ''/''" "\<forall>m \<in> set (ml_lmi st). mt_dir m = Some dn \<longrightarrow> is_nfs t"
    "readmnt_stat env fp0 dn t ignrdl ignstat st = Some st1"
  shows "mount_inv st1"
proof -
  have fill: "mount_inv (readmnt_fill env fp0 dn t ignrdl i ds s)" if "mount_inv s" "ml_lmi s = ml_lmi st" for i ds s
    using readmnt_fill_inv [OF that(1) assms(2,3)] assms(4) that(2) by simp
  show ?thesis using assms(1,5) unfolding readmnt_stat_def Let_def
    by (auto simp: mount_inv_other split: option.splits if_splits simp del: not_None_eq intro!: fill)
qed

lemma readmnt_dir_inv:
  assumes inv: "mount_inv st" and dn: "dn \<noteq> []" "hd dn = CHR ''/''" and r: "readmnt_dir env fp0 dn t ignrdl ignstat st = Some st1"
  shows "mount_inv st1"
proof -
  let ?st0 = "if is_nfs t \<and> ml_hasnfs st = 0 then st\<lparr> ml_hasnfs := 1 \<rparr> else st"
  let ?dup = "List.find (\<lambda>m. mt_dirl m = length dn \<and> mt_dir m = Some dn) (ml_lmi st)"
  have inv0: "mount_inv ?st0" using inv mount_inv_hasnfs [OF inv] by (simp only: if_split) blast
  show ?thesis
  proof (cases "case ?dup of None \<Rightarrow> False | Some mp \<Rightarrow> dn \<noteq> ''/'' \<or> mt_ty mp = N_NFS \<or> \<not> is_nfs t")
    case True
    then show ?thesis using r inv0 unfolding readmnt_dir_def Let_def if_P [OF True] by auto
  next
    case False
    have len: "mt_dir m = Some dn \<Longrightarrow> m \<in> set (ml_lmi st) \<Longrightarrow> mt_dirl m = length dn" for m
      using inv by (auto simp: mount_inv_def mount_ok_def)
    have nfs: "\<forall>m \<in> set (ml_lmi st). mt_dir m = Some dn \<longrightarrow> is_nfs t"
      using False len by (auto simp: find_None_iff split: option.splits)
    have "ml_lmi ?st0 = ml_lmi st" by simp
    with nfs have nfs0: "\<forall>m \<in> set (ml_lmi ?st0). mt_dir m = Some dn \<longrightarrow> is_nfs t" by simp
    have "readmnt_stat env fp0 dn t ignrdl ignstat ?st0 = Some st1"
      using r unfolding readmnt_dir_def Let_def if_not_P [OF False] .
    from readmnt_stat_inv [OF inv0 dn nfs0 this] show ?thesis .
  qed
qed

lemma readmnt_line_inv: "mount_inv st \<Longrightarrow> readmnt_line env buf st = Some st1 \<Longrightarrow> mount_inv st1"
  unfolding readmnt_line_def Let_def
  by (auto split: list.splits option.splits if_splits intro: readmnt_dir_inv)

lemma readmnt_loop_inv: "mount_inv st \<Longrightarrow> readmnt_loop env bufs st = Some st1 \<Longrightarrow> mount_inv st1"
  by (induction bufs arbitrary: st) (auto split: option.splits intro: readmnt_line_inv)

text \<open>
  C23: whatever \<open>/proc/mounts\<close>, the links and the file status say, the mount table has absolute directories
  with their lengths, no directory twice, one of the three node types each, and \<open>HasNFS\<close> is 2 exactly
  when an entry is an NFS mount.
\<close>

theorem readmnt_keeps_inv:
  assumes "mount_inv st" "readmnt env mfile lmist st = Some (Done (st1, lmist1))"
  shows "mount_inv st1"
proof (cases "ml_lmi st \<noteq> [] \<or> lmist")
  case False
  then obtain bufs where "readmnt_loop env bufs st = Some st1"
    using assms(2) by (auto simp: readmnt_def split: option.splits)
  then show ?thesis using readmnt_loop_inv assms(1) by blast
qed (use assms in \<open>auto simp: readmnt_def\<close>)


text \<open>A state before the first read, for the examples.\<close>

definition mount_st0 :: mount_st where
  "mount_st0 = \<lparr> ml_lmi = [], ml_hasnfs = 0, ml_mqdev = 0, ml_sup = \<lparr> ms_err = False, ms_hash = None \<rparr>,
    ml_sb = zero_stat, ml_out = [], ml_assumed = [] \<rparr>"

definition mount_env0 :: mount_env where
  "mount_env0 = \<lparr> me_readlink = Some, me_stat = (\<lambda>_. Some (zero_stat\<lparr> st_dev := 2049 \<rparr>)), me_efsysl = [],
    me_mntsup = 0, me_mntsupp = False, me_supfile = None, me_superr = False \<rparr>"

section \<open>Every mounted file system is entered\<close>

text \<open>A line of \<open>/proc/mounts\<close>, with the characters the kernel escapes.\<close>

definition mount_line :: "char set \<Rightarrow> cstring \<Rightarrow> cstring \<Rightarrow> cstring \<Rightarrow> cstring \<Rightarrow> cstring" where
  "mount_line esc dev dir t opts = mangle esc dev @ '' '' @ mangle esc dir @ '' '' @ t @ '' '' @ opts"

lemma get_fields_mount_line:
  assumes "{blank, tab, nl} \<subseteq> esc" "dev \<noteq> []" "dir \<noteq> []" "plain_field t"
  shows "\<exists>fs. get_fields (mount_line esc dev dir t opts) [] [] = mangle esc dev # mangle esc dir # t # fs"
  using assms by (simp add: get_fields_def mount_line_def mangle_plain get_fields_plain_first)

definition mount_plain :: "mount_env \<Rightarrow> cstring \<times> cstring \<times> cstring \<times> cstring \<Rightarrow> bool" where
  "mount_plain env m \<longleftrightarrow>
    (case m of (dev, dir, t, opts) \<Rightarrow>
      dev \<noteq> [] \<and> CHR 0x00 \<notin> set dev \<and> dir \<noteq> [] \<and> hd dir = CHR ''/'' \<and> CHR 0x00 \<notin> set dir \<and> plain_field t \<and>
      \<not> mnt_ignored dev t \<and> me_readlink env dir = Some dir \<and> me_stat env dir \<noteq> None)"

definition mount_view :: "mounts \<Rightarrow> cstring option \<times> cstring option \<times> 64 word \<times> nat \<times> nat" where
  "mount_view m = (mt_fsname m, mt_dir m, mt_dev m, mt_ds m, mt_ty m)"

definition mount_spec :: "mount_env \<Rightarrow> cstring \<times> cstring \<times> cstring \<times> cstring \<Rightarrow> cstring option \<times> cstring option \<times> 64 word \<times> nat \<times> nat" where
  "mount_spec env m =
    (case m of (dev, dir, t, opts) \<Rightarrow>
      (Some dev, Some dir, st_dev (the (me_stat env dir)), SB_ALL,
       if is_nfs t then N_NFS else if t = ''mqueue'' then N_MQUEUE else N_REGLR))"

lemma readmnt_line_enters:
  assumes esc: "{blank, tab, nl, bsl} \<subseteq> esc" and m: "mount_plain env (dev, dir, t, opts)" and ef: "me_efsysl env = []"
    and new: "Some dir \<notin> mt_dir ` set (ml_lmi st)"
  shows "\<exists>st1 mp. readmnt_line env (mount_line esc dev dir t opts) st = Some st1 \<and>
    ml_lmi st1 = mp # ml_lmi st \<and> mount_view mp = mount_spec env (dev, dir, t, opts) \<and> mt_dir mp = Some dir"
proof -
  obtain fs where fs: "get_fields (mount_line esc dev dir t opts) [] [] = mangle esc dev # mangle esc dir # t # fs"
    using get_fields_mount_line [of esc dev dir t opts] esc m by (auto simp: mount_plain_def)
  have conv: "convert_octal_escaped (mangle esc dev) = Some dev" "convert_octal_escaped (mangle esc dir) = Some dir"
    using esc m by (auto simp: mount_plain_def intro!: convert_octal_mangle)
  obtain sb where sb: "me_stat env dir = Some sb" using m by (auto simp: mount_plain_def)
  let ?st0 = "if is_nfs t \<and> ml_hasnfs st = 0 then st\<lparr> ml_hasnfs := 1 \<rparr> else st"
  have none: "List.find (\<lambda>m. mt_dirl m = length dir \<and> mt_dir m = Some dir) (ml_lmi st) = None"
    using new by (force simp: find_None_iff)
  let ?st = "?st0\<lparr> ml_sb := sb \<rparr>"
  have "readmnt_line env (mount_line esc dev dir t opts) st = readmnt_dir env dev dir t False False st"
    using m ef by (simp add: readmnt_line_def fs conv mount_plain_def)
  also have "\<dots> = Some (readmnt_fill env dev dir t False False SB_ALL ?st)"
    by (simp add: readmnt_dir_def none readmnt_stat_def sb)
  finally have line: "readmnt_line env (mount_line esc dev dir t opts) st = Some (readmnt_fill env dev dir t False False SB_ALL ?st)" .
  obtain mp where mp: "ml_lmi (readmnt_fill env dev dir t False False SB_ALL ?st) = lmi_enter mp (ml_lmi ?st)"
    "mt_dir mp = Some dir" "mt_fsname mp = Some dev" "mt_ds mp = SB_ALL"
    "mt_dev mp = (if SB_ALL AND SB_DEV \<noteq> 0 then st_dev (ml_sb ?st) else 0)"
    "mt_ty mp = (if is_nfs t then N_NFS else if t = ''mqueue'' then N_MQUEUE else N_REGLR)"
    by (rule readmnt_fill_lmi)
  have "lmi_enter mp (ml_lmi ?st) = mp # ml_lmi st" using new mp(2) by (auto simp: lmi_enter_def image_iff)
  moreover have "mount_view mp = mount_spec env (dev, dir, t, opts)"
    using mp(2-6) sb by (simp add: mount_view_def mount_spec_def sb_simps)
  ultimately show ?thesis using line mp(1,2) by metis
qed

theorem readmnt_keeps_inv_witness:
  "\<exists>st1 mp. readmnt mount_env0 (Some [mount_line {blank, tab, nl, bsl} ''srv:/x'' ''/my home'' ''nfs4'' ''rw 0 0'']) False mount_st0 =
      Some (Done (st1, True)) \<and> ml_lmi st1 = [mp] \<and> mount_inv st1"
proof -
  have "mount_plain mount_env0 (''srv:/x'', ''/my home'', ''nfs4'', ''rw 0 0'')"
    by (simp add: mount_env0_def mount_plain_def plain_field_def mnt_ignored_def strcasecmp_eq_def tolower_c_def isupper_c_def)
  then obtain st1 mp where "readmnt_line mount_env0 (mount_line {blank, tab, nl, bsl} ''srv:/x'' ''/my home'' ''nfs4'' ''rw 0 0'') mount_st0 = Some st1"
    "ml_lmi st1 = mp # ml_lmi mount_st0"
    using readmnt_line_enters [of "{blank, tab, nl, bsl}" mount_env0 "''srv:/x''" "''/my home''" "''nfs4''" "''rw 0 0''" mount_st0]
    by (auto simp: mount_st0_def mount_env0_def)
  note st1 = this
  have run: "readmnt mount_env0 (Some [mount_line {blank, tab, nl, bsl} ''srv:/x'' ''/my home'' ''nfs4'' ''rw 0 0'']) False mount_st0 = Some (Done (st1, True))"
    by (simp add: readmnt_def st1(1)) (simp add: mount_st0_def)
  have "mount_inv mount_st0" by (simp add: mount_inv_def mount_st0_def)
  from readmnt_keeps_inv [OF this run] run st1(2) show ?thesis by (simp add: mount_st0_def)
qed



end
