(* ===== verification/Nodes.thy ===== *)
theory Nodes
  imports Endpoints Mounts
begin

text \<open>
  The rest of \<open>src/lib/dialects/linux/dnode.c\<close>: the locks of \<open>/proc/locks\<close> (\<open>get_locks\<close>, \<open>check_lock\<close>)
  and \<open>process_proc_node\<close>, which fills the current file structure from what \<open>stat\<close> and \<open>lstat\<close>
  said of a file.  Sockets are handed to \<open>process_proc_sock\<close>, which is a parameter here.
\<close>

section \<open>Locks\<close>

record llock =
  lk_pid :: int
  lk_dev :: "64 word"
  lk_inode :: "64 word"
  lk_type :: lsof_lock_mode

definition PIDBUCKS :: int where "PIDBUCKS = 64"
definition OFFSET_MAX :: nat where "OFFSET_MAX = 0x7fffffff"

definition HASHPID :: "int \<Rightarrow> nat" where
  "HASHPID pid = nat ((s32 (pid * 31415) div 8) mod PIDBUCKS)"

text \<open>\<open>strtol\<close> with its saturation.\<close>

definition strtol :: "nat \<Rightarrow> cstring \<Rightarrow> int \<times> cstring" where
  "strtol b s =
    (let (neg, s1) = strto_sign s; (b1, s2) = strto_base b s1;
         ds = takeWhile (\<lambda>c. base_digit c < b1) s2; v = int (base_value b1 ds) in
     if ds = [] then (0, s)
     else (if neg then max (- v) (- 9223372036854775808) else min v 9223372036854775807,
           dropWhile (\<lambda>c. base_digit c < b1) s2))"

definition long_field :: "cstring \<Rightarrow> int option" where
  "long_field f =
    (if f = [] then None
     else case strtol 16 f of (v, ec) \<Rightarrow>
       if v = - 9223372036854775808 \<or> v = 9223372036854775807 \<or> ec \<noteq> [] then None else Some v)"

definition makedev :: "int \<Rightarrow> int \<Rightarrow> 64 word" where
  "makedev maj mnr =
    (let a = of_int (maj mod 4294967296); b = of_int (mnr mod 4294967296) in
     push_bit 8 (a AND 0xfff) OR push_bit 32 (a AND 0xfffff000) OR (b AND 0xff) OR push_bit 12 (b AND 0xffffff00))"

definition lock_mode_of :: "bool \<Rightarrow> bool \<Rightarrow> lsof_lock_mode" where
  "lock_mode_of wr ex =
    (if wr then (if ex then LSOF_LOCK_WRITE_FULL else LSOF_LOCK_WRITE_PARTIAL)
     else (if ex then LSOF_LOCK_READ_FULL else LSOF_LOCK_READ_PARTIAL))"

text \<open>The end of a lock: \<open>EOF\<close> stands for the largest offset.\<close>

definition lock_extent :: "cstring \<Rightarrow> cstring \<Rightarrow> bool option" where
  "lock_extent f8 f9 =
    (if f8 = [] \<or> f9 = [] then None
     else case fdinfo_number f8 of
       None \<Rightarrow> None
     | Some bp \<Rightarrow>
        (case (if f9 = ''EOF'' then Some OFFSET_MAX else fdinfo_number f9) of
           None \<Rightarrow> None
         | Some ep \<Rightarrow> Some (bp = 0 \<and> ep = OFFSET_MAX)))"

definition lock_line :: "cstring \<Rightarrow> llock option" where
  "lock_line buf =
    (case get_fields buf '':'' [] of
       _ # f1 # _ # f3 # f4 # f5 # f6 # f7 # f8 # f9 # _ \<Rightarrow>
         if f1 = ''->'' \<or> f3 = [] \<or> hd f3 \<notin> {CHR ''R'', CHR ''W''} \<or> f4 = [] then None
         else
           (case (long_field f5, long_field f6) of
              (Some maj, Some mnr) \<Rightarrow>
                if f7 = [] then None
                else (case fdinfo_number f7 of
                  None \<Rightarrow> None
                | Some ino \<Rightarrow>
                   map_option (\<lambda>ex. \<lparr> lk_pid = atoi f4, lk_dev = makedev (s32 maj) (s32 mnr), lk_inode = of_nat ino,
                                     lk_type = lock_mode_of (hd f3 = CHR ''W'') ex \<rparr>) (lock_extent f8 f9))
            | _ \<Rightarrow> None)
     | _ \<Rightarrow> None)"

type_synonym lock_tab = "nat \<Rightarrow> llock list"

definition enter_lock :: "llock \<Rightarrow> lock_tab \<Rightarrow> lock_tab" where
  "enter_lock k tbl =
    (let h = HASHPID (lk_pid k) in if k \<in> set (tbl h) then tbl else tbl(h := k # tbl h))"

text \<open>\<open>get_locks\<close>: the table starts empty; \<open>None\<close> is a file that cannot be opened.\<close>

definition get_locks :: "cstring list option \<Rightarrow> lock_tab" where
  "get_locks file =
    (case file of
       None \<Rightarrow> (\<lambda>_. [])
     | Some bufs \<Rightarrow> fold (\<lambda>buf tbl. case lock_line buf of None \<Rightarrow> tbl | Some k \<Rightarrow> enter_lock k tbl) bufs (\<lambda>_. []))"

definition check_lock :: "lock_tab \<Rightarrow> int \<Rightarrow> lfile \<Rightarrow> lfile" where
  "check_lock tbl pid l =
    (case List.find (\<lambda>k. pid = lk_pid k \<and> lf_dev l = lk_dev k \<and> lf_inode l = lk_inode k) (tbl (HASHPID pid)) of
       None \<Rightarrow> l
     | Some k \<Rightarrow> l\<lparr> lf_lock := lk_type k \<rparr>)"

section \<open>A file's node\<close>

definition S_IFMT :: nat where "S_IFMT = 0xf000"
definition S_IFSOCK :: nat where "S_IFSOCK = 0xc000"
definition S_IFLNK :: nat where "S_IFLNK = 0xa000"
definition S_IFREG :: nat where "S_IFREG = 0x8000"
definition S_IFDIR :: nat where "S_IFDIR = 0x4000"
definition S_IFIFO :: nat where "S_IFIFO = 0x1000"
definition N_BLK :: nat where "N_BLK = 6"
definition N_CHR :: nat where "N_CHR = 10"

lemmas ifmt_simps = S_IFMT_def S_IFSOCK_def S_IFLNK_def S_IFREG_def S_IFDIR_def S_IFIFO_def S_IFCHR_def S_IFBLK_def

definition LSOF_FILE_FIFO :: nat where "LSOF_FILE_FIFO = 1"
definition LSOF_FILE_CHAR :: nat where "LSOF_FILE_CHAR = 2"
definition LSOF_FILE_DIR :: nat where "LSOF_FILE_DIR = 3"
definition LSOF_FILE_BLOCK :: nat where "LSOF_FILE_BLOCK = 4"
definition LSOF_FILE_REGULAR :: nat where "LSOF_FILE_REGULAR = 5"
definition LSOF_FILE_LINK :: nat where "LSOF_FILE_LINK = 6"
definition LSOF_FILE_ANON_INODE :: nat where "LSOF_FILE_ANON_INODE = 70"
definition LSOF_FILE_UNKNOWN_STAT :: nat where "LSOF_FILE_UNKNOWN_STAT = 85"
definition LSOF_FILE_UNKNOWN_RAW :: nat where "LSOF_FILE_UNKNOWN_RAW = 86"
definition LSOF_FILE_POSIX_MQ :: nat where "LSOF_FILE_POSIX_MQ = 90"

text \<open>What the node code reads of its surroundings, and the endpoint tables it enters files in.\<close>

record node_env =
  ne_hasnfs :: nat
  ne_lmi :: "mounts list"
  ne_mqdev :: "64 word"
  ne_locks :: lock_tab
  ne_offtype :: nat
  ne_nlink :: int

record ep_tabs =
  et_pipe :: px_hash
  et_pty :: px_hash
  et_mq :: px_hash
  et_evt :: px_hash

abbreviation sb_has :: "nat \<Rightarrow> nat \<Rightarrow> bool" where
  "sb_has ss b \<equiv> ss AND b \<noteq> 0"

definition node_access :: "statb option \<Rightarrow> nat \<Rightarrow> lfile \<Rightarrow> lfile" where
  "node_access ln ls f =
    (case ln of
       None \<Rightarrow> f
     | Some l \<Rightarrow>
        if sb_has ls SB_MODE \<and> st_mode l AND S_IFMT = S_IFLNK then
          (let access = st_mode l AND 0x180 in
           f\<lparr> lf_access := (if access = 0x100 then LSOF_FILE_ACCESS_READ else if access = 0x80 then LSOF_FILE_ACCESS_WRITE
                           else LSOF_FILE_ACCESS_READ_WRITE) \<rparr>)
        else f)"

definition node_ntype :: "nat \<Rightarrow> cstring \<Rightarrow> lfile \<Rightarrow> lfile" where
  "node_ntype ty p f =
    (if ty = S_IFBLK then f\<lparr> lf_ntype := N_BLK \<rparr>
     else if ty = S_IFCHR then f\<lparr> lf_ntype := N_CHR \<rparr>
     else if ty = S_IFIFO then f\<lparr> lf_ntype := N_FIFO \<rparr>
     else if ty = 0 \<and> p = ''anon_inode'' then f\<lparr> lf_ntype := N_ANON_INODE \<rparr>
     else f)"

definition node_dev :: "lsof_context \<Rightarrow> statb \<Rightarrow> nat \<Rightarrow> lfile \<times> ep_tabs \<Rightarrow> lfile \<times> ep_tabs" where
  "node_dev ctx s ss st =
    (case st of (f, tabs) \<Rightarrow>
     let f1 = (if sb_has ss SB_DEV then f\<lparr> lf_dev := st_dev s, lf_dev_def := True \<rparr> else f) in
     if (lf_ntype f1 = N_CHR \<or> lf_ntype f1 = N_BLK) \<and> sb_has ss SB_RDEV then
       (let f2 = f1\<lparr> lf_rdev := st_rdev s, lf_rdev_def := True \<rparr> in
        if fepte ctx \<noteq> 0 \<and> lf_ntype f2 = N_CHR \<and> is_pty_slave (maj_dev (lf_rdev f2)) then
          (f2\<lparr> lf_sf := lf_sf f2 OR SELPTYINFO \<rparr>, tabs\<lparr> et_pty := enter_ptmxi (lprocs ctx) f2 (s32 (min_dev (lf_rdev f2))) (et_pty tabs) \<rparr>)
        else (f2, tabs))
     else (f1, tabs))"

text \<open>The NFS mount a regular node is on.\<close>

definition node_mount :: "node_env \<Rightarrow> cstring \<Rightarrow> lfile \<Rightarrow> mounts option" where
  "node_mount env p f =
    (if lf_ntype f = N_REGLR \<and> ne_hasnfs env = 2 then
       List.find (\<lambda>mp. mt_ty mp = N_NFS \<and> sb_has (mt_ds mp) SB_DEV \<and> lf_dev_def f \<and> lf_dev f = mt_dev mp \<and>
         (case mt_dir mp of None \<Rightarrow> False | Some d \<Rightarrow> mt_dirl mp \<noteq> 0 \<and> take (mt_dirl mp) d = take (mt_dirl mp) p)) (ne_lmi env)
     else None)"

definition node_inode :: "node_env \<Rightarrow> lsof_context \<Rightarrow> statb \<Rightarrow> nat \<Rightarrow> lfile \<times> ep_tabs \<Rightarrow> lfile \<times> ep_tabs" where
  "node_inode env ctx s ss st =
    (case st of (f, tabs) \<Rightarrow>
     if sb_has ss SB_INO then
       (let f1 = f\<lparr> lf_inode := st_ino s, lf_inp_ty := 1 \<rparr> in
        if lf_ntype f1 = N_FIFO \<and> fepte ctx \<noteq> 0 then
          (f1\<lparr> lf_sf := lf_sf f1 OR SELPINFO \<rparr>, tabs\<lparr> et_pipe := enter_pinfo (lprocs ctx) f1 (et_pipe tabs) \<rparr>)
        else if lf_dev f1 = ne_mqdev env \<and> fepte ctx \<noteq> 0 then
          (f1\<lparr> lf_sf := lf_sf f1 OR SELPSXMQINFO \<rparr>, tabs\<lparr> et_mq := enter_psxmqinfo (lprocs ctx) f1 (et_mq tabs) \<rparr>)
        else (f1, tabs))
     else (f, tabs))"

definition node_size :: "node_env \<Rightarrow> statb \<Rightarrow> nat \<Rightarrow> statb option \<Rightarrow> nat \<Rightarrow> lfile \<Rightarrow> lfile" where
  "node_size env s ss ln ls f =
    (let f1 = (case ln of
                 None \<Rightarrow> f
               | Some l \<Rightarrow> if sb_has ls SB_SIZE \<and> ne_offtype env \<noteq> 0 then f\<lparr> lf_off := of_int (st_size l), lf_off_def := True \<rparr> else f) in
     if lf_ntype f \<in> {N_BLK, N_CHR, N_FIFO} then f1
     else if sb_has ss SB_SIZE then f1\<lparr> lf_sz := of_int (st_size s), lf_sz_def := True \<rparr> else f1)"

definition node_nlink :: "node_env \<Rightarrow> statb \<Rightarrow> nat \<Rightarrow> lfile \<Rightarrow> lfile" where
  "node_nlink env s ss f =
    (if sb_has ss SB_NLINK then
       (let f1 = f\<lparr> lf_nlink := int (st_nlink s), lf_nlink_def := True \<rparr> in
        if ne_nlink env \<noteq> 0 \<and> lf_nlink f1 < ne_nlink env then f1\<lparr> lf_sf := lf_sf f1 OR SELNLINK \<rparr> else f1)
     else f)"

definition node_type :: "node_env \<Rightarrow> nat \<Rightarrow> nat \<Rightarrow> lfile \<Rightarrow> lfile" where
  "node_type env ss ty f =
    (if sb_has ss SB_MODE then
       (if ty = S_IFBLK then f\<lparr> lf_type := LSOF_FILE_BLOCK \<rparr>
        else if ty = S_IFCHR then f\<lparr> lf_type := LSOF_FILE_CHAR \<rparr>
        else if ty = S_IFDIR then f\<lparr> lf_type := LSOF_FILE_DIR \<rparr>
        else if ty = S_IFIFO then f\<lparr> lf_type := LSOF_FILE_FIFO \<rparr>
        else if ty = S_IFREG then f\<lparr> lf_type := (if lf_dev f = ne_mqdev env then LSOF_FILE_POSIX_MQ else LSOF_FILE_REGULAR) \<rparr>
        else if ty = S_IFLNK then f\<lparr> lf_type := LSOF_FILE_LINK \<rparr>
        else if lf_ntype f = N_ANON_INODE then f\<lparr> lf_type := LSOF_FILE_ANON_INODE \<rparr>
        else f\<lparr> lf_type := LSOF_FILE_UNKNOWN_RAW, lf_unk_type := drop_bit 12 ty AND 0xf \<rparr>)
     else f\<lparr> lf_type := LSOF_FILE_UNKNOWN_STAT \<rparr>)"

definition enter_nm :: "cstring \<Rightarrow> lfile \<Rightarrow> lfile" where
  "enter_nm m l = (if m = [] then l else l\<lparr> lf_nm := Some m \<rparr>)"

text \<open>The name: the one found by the search, or the path with the host and mount point of an NFS file.\<close>

definition node_namech :: "cstring \<Rightarrow> lfile \<Rightarrow> mounts option \<Rightarrow> cstring \<Rightarrow> cstring" where
  "node_namech p f mp nm =
    (if nm \<noteq> [] then nm
     else
       (let n1 = take MAXPATHLEN p in
        case mp of
          Some m \<Rightarrow> (case mt_fsname m of
                       Some fs \<Rightarrow> if lf_ntype f = N_NFS then n1 @ take (MAXPATHLEN - length n1) ('' ('' @ fs @ '')'') else n1
                     | None \<Rightarrow> n1)
        | None \<Rightarrow> n1))"

text \<open>The selection by name and by file system, and the name; \<open>ctx\<close> takes what the search marks.\<close>

definition node_select :: "lsof_context \<Rightarrow> nat \<Rightarrow> cstring \<Rightarrow> mounts option \<Rightarrow> lfile \<Rightarrow> lsof_context" where
  "node_select ctx ty p mp f =
    (let f1 = (if lf_ntype f = N_NFS \<and> fnfs ctx \<noteq> 0 then f\<lparr> lf_sf := lf_sf f OR SELNFS \<rparr> else f);
         (found, ctx1) = (if sfiles ctx \<noteq> [] then is_file_named ctx f1 1 (Some p) mp (ty = S_IFCHR \<or> ty = S_IFBLK) else (False, ctx));
         f2 = (if found then f1\<lparr> lf_sf := lf_sf f1 OR SELNM \<rparr> else f1);
         nm = node_namech p f2 mp (namech ctx1) in
     ctx1\<lparr> namech := nm, lf := Some (enter_nm nm f2) \<rparr>)"

text \<open>Everything but the selection by name: the file, the NFS mount it is on, and the endpoint tables.\<close>

definition node_fill ::
  "node_env \<Rightarrow> int \<Rightarrow> lsof_context \<Rightarrow> nat \<Rightarrow> cstring \<Rightarrow> statb \<Rightarrow> nat \<Rightarrow> statb option \<Rightarrow> nat \<Rightarrow> lfile \<Rightarrow> ep_tabs
    \<Rightarrow> lfile \<times> mounts option \<times> ep_tabs" where
  "node_fill env pid ctx ty p s ss ln ls f2 tabs =
    (let (f3, tabs1) = node_dev ctx s ss (f2, tabs);
         mp = node_mount env p f3;
         f4 = (if mp = None then f3 else f3\<lparr> lf_ntype := N_NFS \<rparr>);
         (f5, tabs2) = node_inode env ctx s ss (f4, tabs1);
         f6 = (if lf_dev_def f5 \<and> lf_inp_ty f5 = 1 then check_lock (ne_locks env) pid f5 else f5) in
     (node_type env ss ty (node_nlink env s ss (node_size env s ss ln ls f6)), mp, tabs2))"

definition process_proc_node ::
  "(cstring \<Rightarrow> cstring \<Rightarrow> statb \<Rightarrow> nat \<Rightarrow> statb option \<Rightarrow> nat \<Rightarrow> lsof_context \<times> ep_tabs \<Rightarrow> lsof_context \<times> ep_tabs)
    \<Rightarrow> node_env \<Rightarrow> int \<Rightarrow> cstring \<Rightarrow> cstring \<Rightarrow> statb \<Rightarrow> nat \<Rightarrow> statb option \<Rightarrow> nat
    \<Rightarrow> lsof_context \<times> ep_tabs \<Rightarrow> lsof_context \<times> ep_tabs" where
  "process_proc_node process_proc_sock env pid p pbr s ss ln ls st =
    (case st of (ctx, tabs) \<Rightarrow>
     case lf ctx of
       None \<Rightarrow> (ctx, tabs)
     | Some f0 \<Rightarrow>
        (let f1 = node_access ln ls f0; ty = (if sb_has ss SB_MODE then st_mode s AND S_IFMT else 0) in
         if sb_has ss SB_MODE \<and> ty = S_IFSOCK then process_proc_sock p pbr s ss ln ls (ctx\<lparr> lf := Some f1 \<rparr>, tabs)
         else
           (let f2 = (if sb_has ss SB_MODE then node_ntype ty p f1 else f1) in
            if selinet ctx then (ctx\<lparr> lf := Some f2 \<rparr>, tabs)
            else
              (let (f7, mp, tabs2) = node_fill env pid ctx ty p s ss ln ls f2 tabs in
               (node_select ctx ty p mp f7, tabs2)))))"

section \<open>The lock a file is shown with\<close>

definition lock_seq :: "llock list \<Rightarrow> llock list" where
  "lock_seq ks = fold (\<lambda>k ls. if k \<in> set ls then ls else k # ls) ks []"

lemma get_locks_seq:
  "get_locks (Some bufs) h = filter (\<lambda>k. HASHPID (lk_pid k) = h) (lock_seq (List.map_filter lock_line bufs))"
proof -
  have "fold (\<lambda>buf tbl. case lock_line buf of None \<Rightarrow> tbl | Some k \<Rightarrow> enter_lock k tbl) bufs tbl h =
      filter (\<lambda>k. HASHPID (lk_pid k) = h) (fold (\<lambda>k ls. if k \<in> set ls then ls else k # ls) (List.map_filter lock_line bufs) ls)"
    if "\<And>h. tbl h = filter (\<lambda>k. HASHPID (lk_pid k) = h) ls" for tbl ls
    using that
  proof (induction bufs arbitrary: tbl ls)
    case (Cons buf bufs)
    show ?case
    proof (cases "lock_line buf")
      case None
      then show ?thesis using Cons by (simp add: map_filter_simps)
    next
      case (Some k)
      have "enter_lock k tbl h = filter (\<lambda>k. HASHPID (lk_pid k) = h) (if k \<in> set ls then ls else k # ls)" for h
        using Cons.prems by (auto simp: enter_lock_def Let_def)
      from Cons.IH [OF this] show ?thesis using Some by (simp add: map_filter_simps del: if_split)
    qed
  qed (simp add: map_filter_simps)
  from this [of "\<lambda>_. []" "[]"] show ?thesis by (simp add: get_locks_def lock_seq_def)
qed

lemma find_filter_implied: "(\<And>x. P x \<Longrightarrow> Q x) \<Longrightarrow> List.find P (filter Q xs) = List.find P xs"
  by (induction xs) auto

lemma check_lock_seq:
  "check_lock (get_locks (Some bufs)) pid l =
    (case List.find (\<lambda>k. pid = lk_pid k \<and> lf_dev l = lk_dev k \<and> lf_inode l = lk_inode k) (lock_seq (List.map_filter lock_line bufs)) of
       None \<Rightarrow> l | Some k \<Rightarrow> l\<lparr> lf_lock := lk_type k \<rparr>)"
proof -
  let ?P = "\<lambda>k :: llock. pid = lk_pid k \<and> lf_dev l = lk_dev k \<and> lf_inode l = lk_inode k"
  have "List.find ?P (filter (\<lambda>k. HASHPID (lk_pid k) = HASHPID pid) ks) = List.find ?P ks" for ks
    by (rule find_filter_implied) simp
  then show ?thesis unfolding check_lock_def get_locks_seq by (simp only:)
qed

section \<open>Reading the lines of the lock file\<close>

text \<open>\<open>%02x\<close>.\<close>

definition hex_pad2 :: "nat \<Rightarrow> cstring" where
  "hex_pad2 n = (if n < 16 then ''0'' else []) @ hex_str n"

lemma hex_pad2_chars: "list_all is_hex_char (hex_pad2 n)"
  using hex_str_chars [of n] by (simp add: hex_pad2_def is_hex_char_def isdigit_c_def)

lemma base_value_hex_pad2: "base_value 16 (hex_pad2 n) = n"
proof -
  have "base_value 16 (CHR ''0'' # s) = base_value 16 s" for s by (simp add: base_value_def base_digit_def isdigit_c_def)
  then show ?thesis by (simp add: hex_pad2_def base_value_hex_str)
qed

lemma strtol_hex:
  assumes "list_all is_hex_char s" "s \<noteq> []" "base_value 16 s < 9223372036854775807"
  shows "strtol 16 s = (int (base_value 16 s), [])"
proof -
  have h: "\<And>c. c \<in> set s \<Longrightarrow> is_hex_char c" using assms(1) by (simp add: list_all_iff)
  have "strto_sign s = (False, s)" using hex_char_class [OF h, of "hd s"] assms(2) by (cases s) (auto simp: strto_sign_def)
  moreover have "strto_base 16 s = (16, s)"
    using hex_char_class [OF h [OF nth_mem, of 1]] by (auto simp: strto_base_def)
  moreover have "takeWhile (\<lambda>c. base_digit c < 16) s = s" "dropWhile (\<lambda>c. base_digit c < 16) s = []"
    using h base16_hex_char by auto
  ultimately show ?thesis using assms(2,3) by (simp add: strtol_def Let_def del: takeWhile_eq_all_conv dropWhile_eq_Nil_conv)
qed

lemma hex_pad2_plain: "plain_field (hex_pad2 n)" "CHR '':'' \<notin> set (hex_pad2 n)"
  using hex_pad2_chars [of n] hex_char_class by (auto simp: plain_field_def list_all_iff hex_pad2_def split: if_splits)

lemma long_field_hex: "n < 9223372036854775807 \<Longrightarrow> long_field (hex_pad2 n) = Some (int n)"
  using strtol_hex [OF hex_pad2_chars, of n] hex_pad2_plain(1) [of n] by (simp add: long_field_def base_value_hex_pad2 plain_field_def)


text \<open>A line of \<open>/proc/locks\<close> as the kernel prints it; \<open>None\<close> for the end stands for \<open>EOF\<close>.\<close>

record lock_rec =
  lr_no :: nat
  lr_kind :: cstring
  lr_adv :: cstring
  lr_wr :: bool
  lr_pid :: int
  lr_maj :: nat
  lr_mnr :: nat
  lr_ino :: nat
  lr_start :: nat
  lr_end :: "nat option"

definition lock_text :: "lock_rec \<Rightarrow> cstring" where
  "lock_text r = dec_str (lr_no r) @ CHR '':'' # blank # lr_kind r @ blank # blank # lr_adv r @ blank # blank #
    (if lr_wr r then ''WRITE'' else ''READ'') @ blank # dec_int (lr_pid r) @ blank # hex_pad2 (lr_maj r) @ CHR '':'' #
    hex_pad2 (lr_mnr r) @ CHR '':'' # dec_str (lr_ino r) @ blank # dec_str (lr_start r) @ blank #
    (case lr_end r of None \<Rightarrow> ''EOF'' | Some e \<Rightarrow> dec_str e) @ [nl]"

definition lock_rec_ok :: "lock_rec \<Rightarrow> bool" where
  "lock_rec_ok r \<longleftrightarrow> plain_field (lr_kind r) \<and> CHR '':'' \<notin> set (lr_kind r) \<and> lr_kind r \<noteq> ''->'' \<and>
    plain_field (lr_adv r) \<and> CHR '':'' \<notin> set (lr_adv r) \<and> in_s32 (lr_pid r) \<and>
    lr_maj r < 2147483648 \<and> lr_mnr r < 2147483648 \<and> lr_ino r < ULONG_MAX \<and> lr_start r < ULONG_MAX \<and>
    (case lr_end r of None \<Rightarrow> True | Some e \<Rightarrow> e < ULONG_MAX)"

definition lock_of :: "lock_rec \<Rightarrow> llock" where
  "lock_of r = \<lparr> lk_pid = lr_pid r, lk_dev = makedev (int (lr_maj r)) (int (lr_mnr r)), lk_inode = of_nat (lr_ino r),
    lk_type = lock_mode_of (lr_wr r) (lr_start r = 0 \<and> (lr_end r = None \<or> lr_end r = Some OFFSET_MAX)) \<rparr>"

lemma dec_no_colon: "CHR '':'' \<notin> set (dec_int i)"
  by (simp add: dec_int_def)

lemma dec_str_not_EOF: "dec_str n \<noteq> ''EOF''"
  using dec_str_digit [of "hd (dec_str n)" n] by (auto simp: isdigit_c_def)

lemma rw_plain: "plain_field (if w then ''WRITE'' else ''READ'')" "CHR '':'' \<notin> set (if w then ''WRITE'' else ''READ'')"
  by (simp_all add: plain_field_def)

lemma end_plain:
  "plain_field (case e of None \<Rightarrow> ''EOF'' | Some n \<Rightarrow> dec_str n)" "CHR '':'' \<notin> set (case e of None \<Rightarrow> ''EOF'' | Some n \<Rightarrow> dec_str n)"
  by (simp_all add: plain_field_def dec_str_no split: option.split)

lemma lock_fields:
  assumes "lock_rec_ok r"
  shows "get_fields (lock_text r) '':'' [] =
    [dec_str (lr_no r), lr_kind r, lr_adv r, if lr_wr r then ''WRITE'' else ''READ'', dec_int (lr_pid r),
     hex_pad2 (lr_maj r), hex_pad2 (lr_mnr r), dec_str (lr_ino r), dec_str (lr_start r),
     case lr_end r of None \<Rightarrow> ''EOF'' | Some e \<Rightarrow> dec_str e]"
  using assms unfolding get_fields_def lock_text_def lock_rec_ok_def
  by (simp add: get_fields_end get_fields_last hex_pad2_plain dec_no_colon rw_plain end_plain del: if_split)

lemma lock_extent_ok:
  assumes "s < ULONG_MAX" "case e of None \<Rightarrow> True | Some n \<Rightarrow> n < ULONG_MAX"
  shows "lock_extent (dec_str s) (case e of None \<Rightarrow> ''EOF'' | Some n \<Rightarrow> dec_str n) = Some (s = 0 \<and> (e = None \<or> e = Some OFFSET_MAX))"
  using assms by (cases e) (simp_all add: lock_extent_def fdinfo_number_dec dec_str_not_EOF)

lemma lock_line_text: "lock_rec_ok r \<Longrightarrow> lock_line (lock_text r) = Some (lock_of r)"
proof -
  assume ok: "lock_rec_ok r"
  have "in_s32 (int (lr_maj r))" "in_s32 (int (lr_mnr r))" using ok by (simp_all add: lock_rec_ok_def in_s32_def)
  moreover have "lr_maj r < 9223372036854775807" "lr_mnr r < 9223372036854775807" using ok by (simp_all add: lock_rec_ok_def)
  moreover have "hd (if lr_wr r then ''WRITE'' else ''READ'') = (if lr_wr r then CHR ''W'' else CHR ''R'')" by simp
  ultimately show ?thesis using ok
    by (simp add: lock_line_def lock_fields lock_extent_ok long_field_hex fdinfo_number_dec lock_rec_ok_def lock_of_def)
qed


definition sample_lock :: "bool \<Rightarrow> lock_rec" where
  "sample_lock w = \<lparr> lr_no = 1, lr_kind = ''POSIX'', lr_adv = ''ADVISORY'', lr_wr = w, lr_pid = 42, lr_maj = 8, lr_mnr = 1,
    lr_ino = 99, lr_start = 0, lr_end = None \<rparr>"



section \<open>What selects a node\<close>

lemma node_access_keeps [simp]:
  "lf_sf (node_access ln ls f) = lf_sf f" "lf_ntype (node_access ln ls f) = lf_ntype f" "lf_dev (node_access ln ls f) = lf_dev f"
  by (simp_all add: node_access_def Let_def split: option.split)

lemma node_ntype_keeps [simp]: "lf_sf (node_ntype ty p f) = lf_sf f" "lf_dev (node_ntype ty p f) = lf_dev f"
  by (simp_all add: node_ntype_def)

lemma check_lock_keeps [simp]:
  "lf_sf (check_lock tbl pid f) = lf_sf f" "lf_ntype (check_lock tbl pid f) = lf_ntype f"
  by (simp_all add: check_lock_def split: option.split)

lemma node_size_keeps [simp]: "lf_sf (node_size env s ss ln ls f) = lf_sf f" "lf_ntype (node_size env s ss ln ls f) = lf_ntype f"
  by (simp_all add: node_size_def Let_def split: option.split)

lemma node_type_keeps [simp]: "lf_sf (node_type env ss ty f) = lf_sf f" "lf_ntype (node_type env ss ty f) = lf_ntype f"
  by (simp_all add: node_type_def)

lemma enter_nm_keeps [simp]: "lf_sf (enter_nm m f) = lf_sf f" "lf_ntype (enter_nm m f) = lf_ntype f"
  by (simp_all add: enter_nm_def)

definition nlink_flag :: "node_env \<Rightarrow> statb \<Rightarrow> nat \<Rightarrow> flags32" where
  "nlink_flag env s ss = (if sb_has ss SB_NLINK \<and> ne_nlink env \<noteq> 0 \<and> int (st_nlink s) < ne_nlink env then SELNLINK else 0)"

lemma node_nlink_sf [simp]:
  "lf_sf (node_nlink env s ss f) = lf_sf f OR nlink_flag env s ss" "lf_ntype (node_nlink env s ss f) = lf_ntype f"
  by (simp_all add: node_nlink_def nlink_flag_def Let_def)

text \<open>The flags that mark a file for the endpoint passes.\<close>

definition ept_info :: flags32 where
  "ept_info = SELPTYINFO OR SELPINFO OR SELPSXMQINFO"

definition ept_only :: "lsof_context \<Rightarrow> flags32 \<Rightarrow> flags32 \<Rightarrow> bool" where
  "ept_only ctx a b \<longleftrightarrow> b AND NOT ept_info = a AND NOT ept_info \<and> (fepte ctx = 0 \<longrightarrow> b = a)"

lemma ept_or:
  "(a OR SELPTYINFO) AND NOT ept_info = a AND NOT ept_info" "(a OR SELPINFO) AND NOT ept_info = a AND NOT ept_info"
  "(a OR SELPSXMQINFO) AND NOT ept_info = a AND NOT ept_info"
  by (simp_all add: word_ao_dist) (simp_all add: ept_info_def flag_simps)

lemma node_dev_sf:
  "ept_only ctx (lf_sf f) (lf_sf (fst (node_dev ctx s ss (f, tabs))))" "lf_ntype (fst (node_dev ctx s ss (f, tabs))) = lf_ntype f"
  by (simp_all add: node_dev_def ept_only_def ept_or Let_def)

lemma node_inode_sf:
  "ept_only ctx (lf_sf f) (lf_sf (fst (node_inode env ctx s ss (f, tabs))))" "lf_ntype (fst (node_inode env ctx s ss (f, tabs))) = lf_ntype f"
  by (simp_all add: node_inode_def ept_only_def ept_or Let_def)

lemma ept_only_trans: "ept_only ctx a b \<Longrightarrow> ept_only ctx b c \<Longrightarrow> ept_only ctx a c"
  by (simp add: ept_only_def)

lemma process_proc_node_fill:
  assumes "lf ctx = Some f" "\<not> (sb_has ss SB_MODE \<and> st_mode s AND S_IFMT = S_IFSOCK)" "\<not> selinet ctx"
    "ty = (if sb_has ss SB_MODE then st_mode s AND S_IFMT else 0)"
    "node_fill env pid ctx ty p s ss ln ls (if sb_has ss SB_MODE then node_ntype ty p (node_access ln ls f) else node_access ln ls f) tabs
      = (f7, mp, tabs2)"
  shows "process_proc_node sock env pid p pbr s ss ln ls (ctx, tabs) = (node_select ctx ty p mp f7, tabs2)"
proof -
  have sock: "\<not> (sb_has ss SB_MODE \<and> ty = S_IFSOCK)" using assms(2,4) by auto
  show ?thesis
    unfolding process_proc_node_def Let_def prod.case assms(1) option.case assms(4) [symmetric] if_not_P [OF sock] if_not_P [OF assms(3)] assms(5) ..
qed

lemma node_fill_sf:
  assumes "node_fill env pid ctx ty p s ss ln ls f2 tabs = (f7, mp, tabs2)"
  shows "\<exists>a. ept_only ctx (lf_sf f2) a \<and> lf_sf f7 = a OR nlink_flag env s ss"
    and "lf_ntype f2 \<noteq> N_NFS \<Longrightarrow> lf_ntype f7 = N_NFS \<longleftrightarrow> mp \<noteq> None"
proof -
  obtain f3 tabs1 where d: "node_dev ctx s ss (f2, tabs) = (f3, tabs1)" by force
  let ?f4 = "if node_mount env p f3 = None then f3 else f3\<lparr> lf_ntype := N_NFS \<rparr>"
  obtain f5 tabs3 where i: "node_inode env ctx s ss (?f4, tabs1) = (f5, tabs3)" by force
  have mp: "mp = node_mount env p f3" and f7: "lf_sf f7 = lf_sf f5 OR nlink_flag env s ss" "lf_ntype f7 = lf_ntype f5"
    using assms unfolding node_fill_def Let_def d prod.case i by auto
  have "ept_only ctx (lf_sf f2) (lf_sf f3)" "lf_ntype f3 = lf_ntype f2" using node_dev_sf [where f = f2 and tabs = tabs and s = s and ss = ss and ctx = ctx] d by simp_all
  moreover have "ept_only ctx (lf_sf f3) (lf_sf f5)" "lf_ntype f5 = lf_ntype ?f4"
    using node_inode_sf [where f = ?f4 and tabs = tabs1 and s = s and ss = ss and ctx = ctx and env = env] i by (simp_all split: if_splits)
  ultimately show "\<exists>a. ept_only ctx (lf_sf f2) a \<and> lf_sf f7 = a OR nlink_flag env s ss"
    "lf_ntype f2 \<noteq> N_NFS \<Longrightarrow> lf_ntype f7 = N_NFS \<longleftrightarrow> mp \<noteq> None"
    using f7 mp ept_only_trans by (blast, auto split: if_splits)
qed


lemma find_frame:
  "find_by_inode ctx (f\<lparr> lf_sf := x \<rparr>) n = find_by_inode ctx f n" "find_by_fs ctx (f\<lparr> lf_sf := x \<rparr>) n p mp = find_by_fs ctx f n p mp"
  "find_by_rdev ctx (f\<lparr> lf_sf := x \<rparr>) n cd = find_by_rdev ctx f n cd"
  "find_by_inode ctx (f\<lparr> lf_nm := m \<rparr>) n = find_by_inode ctx f n" "find_by_fs ctx (f\<lparr> lf_nm := m \<rparr>) n p mp = find_by_fs ctx f n p mp"
  "find_by_rdev ctx (f\<lparr> lf_nm := m \<rparr>) n cd = find_by_rdev ctx f n cd"
  by (simp_all add: find_by_inode_def find_by_fs_def find_by_rdev_def fs_match_def cong: if_cong split del: if_split)

lemma named_frame:
  "is_file_named ctx (f\<lparr> lf_sf := x \<rparr>) n p mp cd = is_file_named ctx f n p mp cd"
  "is_file_named ctx (enter_nm m f) n p mp cd = is_file_named ctx f n p mp cd"
proof -
  show sf: "is_file_named ctx (f\<lparr> lf_sf := x \<rparr>) n p mp cd = is_file_named ctx f n p mp cd"
    unfolding is_file_named_def find_frame ..
  have "is_file_named ctx (f\<lparr> lf_nm := k \<rparr>) n p mp cd = is_file_named ctx f n p mp cd" for k
    unfolding is_file_named_def find_frame ..
  then show "is_file_named ctx (enter_nm m f) n p mp cd = is_file_named ctx f n p mp cd" by (simp add: enter_nm_def)
qed

definition node_named :: "lsof_context \<Rightarrow> lfile \<Rightarrow> nat \<Rightarrow> cstring \<Rightarrow> mounts option \<Rightarrow> bool" where
  "node_named ctx f ty p mp \<longleftrightarrow> sfiles ctx \<noteq> [] \<and> fst (is_file_named ctx f 1 (Some p) mp (ty = S_IFCHR \<or> ty = S_IFBLK))"

lemma node_select_file:
  "\<exists>f1. lf (node_select ctx ty p mp f) = Some f1 \<and> lf_ntype f1 = lf_ntype f \<and>
    node_named ctx f1 ty p mp = node_named ctx f ty p mp \<and>
    lf_sf f1 = lf_sf f OR (if lf_ntype f = N_NFS \<and> fnfs ctx \<noteq> 0 then SELNFS else 0) OR (if node_named ctx f ty p mp then SELNM else 0)"
proof -
  let ?f1 = "if lf_ntype f = N_NFS \<and> fnfs ctx \<noteq> 0 then f\<lparr> lf_sf := lf_sf f OR SELNFS \<rparr> else f"
  obtain found ctx1 where r: "(if sfiles ctx \<noteq> [] then is_file_named ctx ?f1 1 (Some p) mp (ty = S_IFCHR \<or> ty = S_IFBLK) else (False, ctx)) = (found, ctx1)"
    by force
  have found: "found = node_named ctx f ty p mp"
    using arg_cong [OF r, of fst] by (auto simp: node_named_def named_frame split: if_splits)
  let ?f2 = "if found then ?f1\<lparr> lf_sf := lf_sf ?f1 OR SELNM \<rparr> else ?f1"
  have "lf (node_select ctx ty p mp f) = Some (enter_nm (node_namech p ?f2 mp (namech ctx1)) ?f2)"
    unfolding node_select_def Let_def r prod.case by simp
  moreover have "lf_ntype (enter_nm m ?f2) = lf_ntype f" for m by simp
  moreover have "node_named ctx (enter_nm m ?f2) ty p mp = node_named ctx f ty p mp" for m
    unfolding node_named_def named_frame by (cases found; cases "lf_ntype f = N_NFS \<and> fnfs ctx \<noteq> 0") (simp_all add: named_frame)
  moreover have "lf_sf (enter_nm m ?f2) =
      lf_sf f OR (if lf_ntype f = N_NFS \<and> fnfs ctx \<noteq> 0 then SELNFS else 0) OR (if node_named ctx f ty p mp then SELNM else 0)" for m
    unfolding found [symmetric] by (cases found; cases "lf_ntype f = N_NFS \<and> fnfs ctx \<noteq> 0") (auto simp: or.assoc)
  ultimately show ?thesis by blast
qed



definition node_env0 :: node_env where
  "node_env0 = \<lparr> ne_hasnfs = 0, ne_lmi = [], ne_mqdev = 99, ne_locks = (\<lambda>_. []), ne_offtype = 2, ne_nlink = 1 \<rparr>"

definition tabs0 :: ep_tabs where
  "tabs0 = \<lparr> et_pipe = None, et_pty = None, et_mq = None, et_evt = None \<rparr>"


end
