(* ===== verification/Net_Tables.thy ===== *)
theory Net_Tables
  imports Endpoints Mounts
begin

text \<open>
  The socket tables of \<open>src/lib/dialects/linux/dsock.c\<close>: the readers of \<open>/proc/net/ax25\<close>, \<open>icmp\<close>, \<open>ipx\<close>,
  \<open>netlink\<close>, \<open>packet\<close>, \<open>raw\<close>, \<open>raw6\<close>, \<open>sctp\<close>, \<open>tcp\<close>, \<open>tcp6\<close>, \<open>udp\<close>, \<open>udp6\<close>, \<open>udplite\<close>, \<open>udplite6\<close> and \<open>unix\<close>, and
  the lookups by inode (\<open>src/lib/hash.h\<close>).  A file is the list of lines \<open>fgets\<close> returns, \<open>None\<close> when it cannot
  be opened.  A pointer to an entry of the Internet or UNIX tables is its inode, which no two entries of
  a table share.
\<close>

section \<open>Hash tables by inode\<close>

text \<open>A table is \<open>None\<close> before its buckets are allocated.\<close>

type_synonym 'e ino_tab = "(nat \<Rightarrow> 'e list) option"

definition INOBUCKS :: int where "INOBUCKS = 128"
definition IPCBUCKS :: int where "IPCBUCKS = 4096"

text \<open>\<open>INOHASH\<close>, \<open>TCPUDPHASH\<close> and \<open>TCPUDP6HASH\<close> differ in the number of buckets.\<close>

definition ino_hash :: "int \<Rightarrow> 64 word \<Rightarrow> nat" where
  "ino_hash bucks ino = nat (s32 (uint (drop_bit 3 (ino * 31415))) AND (bucks - 1))"

definition INOHASH :: "64 word \<Rightarrow> nat" where
  "INOHASH ino = ino_hash INOBUCKS ino"

definition hash_find_element :: "('e \<Rightarrow> 64 word) \<Rightarrow> (64 word \<Rightarrow> nat) \<Rightarrow> 'e ino_tab \<Rightarrow> 64 word \<Rightarrow> 'e option" where
  "hash_find_element key h tbl i =
    (case tbl of None \<Rightarrow> None | Some t \<Rightarrow> List.find (\<lambda>e. i = key e) (t (h i)))"

definition hash_insert_element :: "('e \<Rightarrow> 64 word) \<Rightarrow> (64 word \<Rightarrow> nat) \<Rightarrow> 'e \<Rightarrow> 'e ino_tab \<Rightarrow> 'e ino_tab" where
  "hash_insert_element key h e tbl = map_option (\<lambda>t. t(h (key e) := e # t (h (key e)))) tbl"

text \<open>A line's entry is added unless its inode is known.\<close>

definition add_row :: "('e \<Rightarrow> 64 word) \<Rightarrow> (64 word \<Rightarrow> nat) \<Rightarrow> 'e \<Rightarrow> 'e ino_tab \<Rightarrow> 'e ino_tab" where
  "add_row key h e tbl =
    (if hash_find_element key h tbl (key e) \<noteq> None then tbl else hash_insert_element key h e tbl)"

section \<open>Reading a table\<close>

text \<open>
  The loops over the lines: lines with too few fields are skipped, and so are lines without an entry.
  Where the file has a title, the first line with enough fields must be it, or the reading ends.
\<close>

definition row_entry :: "nat \<Rightarrow> cstring \<Rightarrow> (cstring list \<Rightarrow> 'e option) \<Rightarrow> cstring \<Rightarrow> 'e option" where
  "row_entry nf seps line buf = (let fp = get_fields buf seps [] in if length fp < nf then None else line fp)"

definition read_rows :: "nat \<Rightarrow> cstring \<Rightarrow> (cstring list \<Rightarrow> 'e option) \<Rightarrow> ('e \<Rightarrow> 't \<Rightarrow> 't) \<Rightarrow> cstring list \<Rightarrow> 't \<Rightarrow> 't" where
  "read_rows nf seps line add bufs t0 =
    fold (\<lambda>buf t. case row_entry nf seps line buf of None \<Rightarrow> t | Some e \<Rightarrow> add e t) bufs t0"

fun read_titled ::
  "nat \<Rightarrow> cstring \<Rightarrow> (cstring list \<Rightarrow> bool) \<Rightarrow> nat \<Rightarrow> cstring \<Rightarrow> (cstring list \<Rightarrow> 'e option) \<Rightarrow> ('e \<Rightarrow> 't \<Rightarrow> 't)
    \<Rightarrow> cstring list \<Rightarrow> 't \<Rightarrow> 't" where
  "read_titled tf tseps title nf seps line add [] t = t"
| "read_titled tf tseps title nf seps line add (buf # bufs) t =
    (let fp = get_fields buf tseps [] in
     if length fp < tf then read_titled tf tseps title nf seps line add bufs t
     else if title fp then read_rows nf seps line add bufs t
     else t)"

text \<open>A number that must fill its field; \<open>ULONG_MAX\<close> stands for an overflow.\<close>

definition ul_field :: "nat \<Rightarrow> cstring \<Rightarrow> nat option" where
  "ul_field b f =
    (if f = [] then None
     else case strtoul b f of (v, ep) \<Rightarrow> if v = ULONG_MAX \<or> ep \<noteq> [] then None else Some v)"

definition ino_field :: "cstring \<Rightarrow> 64 word option" where
  "ino_field f = map_option of_nat (ul_field 0 f)"

definition text_field :: "cstring \<Rightarrow> cstring option" where
  "text_field f = (if f = [] then None else Some f)"

section \<open>The entries\<close>

text \<open>
  The endpoint members of the Internet and UNIX entries (\<open>pxinfo\<close>, \<open>ipc_peer\<close>, \<open>peer\<close>, \<open>icons\<close>, \<open>icstat\<close>) are kept
  beside the tables, by inode.  The members \<open>sqs\<close> and \<open>rqs\<close> of an AX25 entry are always 1, and \<open>lal\<close>, \<open>ral\<close> and \<open>spl\<close> are
  the lengths of the texts they belong to.
\<close>

record ax25sin =
  ax_da :: "cstring option"
  ax_dev_ch :: "cstring option"
  ax_sa :: "cstring option"
  ax_inode :: "64 word"
  ax_sq :: nat
  ax_rq :: nat
  ax_state :: int

record icmpin =
  ic_inode :: "64 word"
  ic_la :: "cstring option"
  ic_ra :: "cstring option"

record ipxsin =
  ipx_inode :: "64 word"
  ipx_la :: "cstring option"
  ipx_ra :: "cstring option"
  ipx_state :: int
  ipx_txq :: nat
  ipx_rxq :: nat

record nlksin =
  nk_inode :: "64 word"
  nk_pr :: nat

record packin =
  pk_inode :: "64 word"
  pk_ty :: int
  pk_pr :: int

record rawsin =
  rw_inode :: "64 word"
  rw_la :: "cstring option"
  rw_ra :: "cstring option"
  rw_sp :: "cstring option"

record sctpsin =
  sc_inode :: "64 word"
  sc_type :: nat
  sc_addr :: "cstring option"
  sc_assocID :: "cstring option"
  sc_lport :: "cstring option"
  sc_rport :: "cstring option"
  sc_laddrs :: "cstring option"
  sc_raddrs :: "cstring option"

record tcp_udp =
  tu_inode :: "64 word"
  tu_faddr :: nat
  tu_laddr :: nat
  tu_fport :: int
  tu_lport :: int
  tu_txq :: nat
  tu_rxq :: nat
  tu_proto :: int
  tu_state :: int

record tcp_udp6 =
  tu6_inode :: "64 word"
  tu6_faddr :: "32 word list"
  tu6_laddr :: "32 word list"
  tu6_fport :: int
  tu6_lport :: int
  tu6_txq :: nat
  tu6_rxq :: nat
  tu6_proto :: int
  tu6_state :: int

record uxsin =
  ux_inode :: "64 word"
  ux_pcb :: "cstring option"
  ux_path :: "cstring option"
  ux_sb :: "statb option"
  ux_ty :: nat
  ux_opt :: nat
  ux_ss :: nat

section \<open>AX25, ICMP, IPX, netlink, packet and raw sockets\<close>

text \<open>\<open>None\<close> stands for buckets that could not be had; clearing and allocating both give empty buckets.\<close>

definition no_rows :: "'e ino_tab" where
  "no_rows = Some (\<lambda>_. [])"

definition ax25_line :: "cstring list \<Rightarrow> ax25sin option" where
  "ax25_line fp =
    (case (ino_field (fp ! 23), ul_field 0 (fp ! 21), ul_field 0 (fp ! 22), ul_field 0 (fp ! 4)) of
       (Some inode, Some sq, Some rq, Some state) \<Rightarrow>
         Some \<lparr> ax_da = text_field (fp ! 3), ax_dev_ch = text_field (fp ! 1), ax_sa = text_field (fp ! 2),
                ax_inode = inode, ax_sq = sq, ax_rq = rq, ax_state = s32 (int state) \<rparr>
     | _ \<Rightarrow> None)"

definition get_ax25 :: "cstring list option \<Rightarrow> ax25sin ino_tab" where
  "get_ax25 file =
    (case file of None \<Rightarrow> no_rows | Some bufs \<Rightarrow> read_rows 24 [] ax25_line (add_row ax_inode INOHASH) bufs no_rows)"

text \<open>
  The title test reads field 11 of a line with at least 11 fields: with exactly 11 it sees the pointer
  an earlier line left there, whose text is \<open>stale\<close>.
\<close>

definition icmp_title :: "cstring \<Rightarrow> cstring list \<Rightarrow> bool" where
  "icmp_title stale fp \<longleftrightarrow>
    fp ! 1 = ''local_address'' \<and> fp ! 2 = ''rem_address'' \<and> (if length fp = 11 then stale else fp ! 11) = ''inode''"

definition icmp_line :: "cstring list \<Rightarrow> icmpin option" where
  "icmp_line fp =
    map_option (\<lambda>inode. \<lparr> ic_inode = inode, ic_la = text_field (fp ! 1), ic_ra = text_field (fp ! 2) \<rparr>) (ino_field (fp ! 9))"

definition get_icmp :: "cstring \<Rightarrow> cstring list option \<Rightarrow> icmpin ino_tab" where
  "get_icmp stale file =
    (case file of
       None \<Rightarrow> no_rows
     | Some bufs \<Rightarrow> read_titled 11 [] (icmp_title stale) 11 [] icmp_line (add_row ic_inode INOHASH) bufs no_rows)"

definition ipx_title :: "cstring list \<Rightarrow> bool" where
  "ipx_title fp \<longleftrightarrow>
    take 7 fp = [''Local_Address'', ''Remote_Address'', ''Tx_Queue'', ''Rx_Queue'', ''State'', ''Uid'', ''Inode'']"

definition ipx_addr :: "cstring \<Rightarrow> cstring option" where
  "ipx_addr f = (if f = [] \<or> f = ''Not_Connected'' then None else Some f)"

definition ipx_line :: "cstring list \<Rightarrow> ipxsin option" where
  "ipx_line fp =
    (case (ino_field (fp ! 6), ul_field 16 (fp ! 2), ul_field 16 (fp ! 3), ul_field 16 (fp ! 4)) of
       (Some inode, Some txq, Some rxq, Some state) \<Rightarrow>
         Some \<lparr> ipx_inode = inode, ipx_la = ipx_addr (fp ! 0), ipx_ra = ipx_addr (fp ! 1),
                ipx_state = s32 (int state), ipx_txq = txq, ipx_rxq = rxq \<rparr>
     | _ \<Rightarrow> None)"

definition get_ipx :: "cstring list option \<Rightarrow> ipxsin ino_tab" where
  "get_ipx file =
    (case file of
       None \<Rightarrow> no_rows
     | Some bufs \<Rightarrow> read_titled 7 [] ipx_title 7 [] ipx_line (add_row ipx_inode INOHASH) bufs no_rows)"

definition netlink_title :: "cstring list \<Rightarrow> bool" where
  "netlink_title fp \<longleftrightarrow> fp ! 1 = ''Eth'' \<and> fp ! 9 = ''Inode''"

definition netlink_line :: "cstring list \<Rightarrow> nlksin option" where
  "netlink_line fp =
    (case ino_field (fp ! 9) of
       None \<Rightarrow> None
     | Some inode \<Rightarrow> if fp ! 1 = [] then None else Some \<lparr> nk_inode = inode, nk_pr = nat (atoi (fp ! 1) mod 4294967296) \<rparr>)"

definition get_netlink :: "cstring list option \<Rightarrow> nlksin ino_tab" where
  "get_netlink file =
    (case file of
       None \<Rightarrow> no_rows
     | Some bufs \<Rightarrow> read_titled 10 [] netlink_title 10 [] netlink_line (add_row nk_inode INOHASH) bufs no_rows)"

definition pack_title :: "cstring list \<Rightarrow> bool" where
  "pack_title fp \<longleftrightarrow> fp ! 2 = ''Type'' \<and> fp ! 3 = ''Proto'' \<and> fp ! 8 = ''Inode''"

definition pack_line :: "cstring list \<Rightarrow> packin option" where
  "pack_line fp =
    (case (ino_field (fp ! 8), ul_field 16 (fp ! 3)) of
       (Some inode, Some pr) \<Rightarrow>
         if fp ! 2 = [] then None else Some \<lparr> pk_inode = inode, pk_ty = atoi (fp ! 2), pk_pr = s32 (int pr) \<rparr>
     | _ \<Rightarrow> None)"

definition get_pack :: "cstring list option \<Rightarrow> packin ino_tab" where
  "get_pack file =
    (case file of
       None \<Rightarrow> no_rows
     | Some bufs \<Rightarrow> read_titled 9 [] pack_title 9 [] pack_line (add_row pk_inode INOHASH) bufs no_rows)"

text \<open>\<open>get_raw\<close> and \<open>get_raw6\<close>: the titles have twelve words, the lines at least ten fields.\<close>

definition raw_title :: "cstring \<Rightarrow> cstring list \<Rightarrow> bool" where
  "raw_title rem fp \<longleftrightarrow> fp ! 1 = ''local_address'' \<and> fp ! 2 = rem \<and> fp ! 3 = ''st'' \<and> fp ! 11 = ''inode''"

definition raw_line :: "cstring list \<Rightarrow> rawsin option" where
  "raw_line fp =
    map_option (\<lambda>inode. \<lparr> rw_inode = inode, rw_la = text_field (fp ! 1), rw_ra = text_field (fp ! 2),
                         rw_sp = text_field (fp ! 3) \<rparr>) (ino_field (fp ! 9))"

definition get_raw :: "cstring list option \<Rightarrow> rawsin ino_tab" where
  "get_raw file =
    (case file of
       None \<Rightarrow> no_rows
     | Some bufs \<Rightarrow> read_titled 12 [] (raw_title ''rem_address'') 10 [] raw_line (add_row rw_inode INOHASH) bufs no_rows)"

definition get_raw6 :: "cstring list option \<Rightarrow> rawsin ino_tab" where
  "get_raw6 file =
    (case file of
       None \<Rightarrow> no_rows
     | Some bufs \<Rightarrow> read_titled 12 [] (raw_title ''remote_address'') 10 [] raw_line (add_row rw_inode INOHASH) bufs no_rows)"

section \<open>SCTP sockets\<close>

text \<open>\<open>isainb\<close>: true (the C result 1) when \<open>a\<close> is none of the comma-separated elements of \<open>b\<close>.\<close>

function isainb_loop :: "cstring \<Rightarrow> cstring \<Rightarrow> bool" where
  "isainb_loop a pp =
    (if pp = [] then True
     else if a = takeWhile (\<lambda>c. c \<noteq> CHR '','') pp then False
     else (case dropWhile (\<lambda>c. c \<noteq> CHR '','') pp of [] \<Rightarrow> True | _ # r \<Rightarrow> isainb_loop a r))"
  by pat_completeness auto

termination
proof (relation "measure (\<lambda>(a, pp). length pp)", simp, goal_cases)
  case (1 a pp c r)
  then have "length (c # r) \<le> length pp" by (metis length_dropWhile_le)
  then show ?case by simp
qed

declare isainb_loop.simps [simp del]

definition isainb :: "cstring \<Rightarrow> cstring \<Rightarrow> bool" where
  "isainb a b =
    (if a = [] \<or> b = [] then True else if CHR '','' \<notin> set b then a \<noteq> b else isainb_loop a b)"

definition sctp_merge :: "cstring option \<Rightarrow> cstring \<Rightarrow> cstring option" where
  "sctp_merge old f =
    (if f = [] then old
     else case old of
       None \<Rightarrow> Some f
     | Some a \<Rightarrow> Some (if isainb f a then (if a = [] then f else a @ '','' @ f) else a))"

text \<open>
  \<open>get_sctpaddrs\<close> from the fields on: the addresses joined by commas, \<open>None\<close> when there is none, and the
  index of the field \<open><->\<close> that ends them, else 0.
\<close>

fun get_sctpaddrs :: "nat \<Rightarrow> cstring list \<Rightarrow> cstring option \<Rightarrow> cstring option \<times> nat" where
  "get_sctpaddrs i [] cp = (cp, 0)"
| "get_sctpaddrs i (f # fs) cp =
    (if f = [] then (cp, 0)
     else if f = ''<->'' then (cp, i)
     else if CHR ''.'' \<notin> set f \<and> CHR '':'' \<notin> set f then (cp, 0)
     else get_sctpaddrs (i + 1) fs (Some (case cp of None \<Rightarrow> f | Some a \<Rightarrow> a @ '','' @ f)))"

text \<open>
  The addresses of a line added to those known: \<open>field\<close> is the first of them, \<open>fs\<close> the fields from there on.  The
  program ends when there is a field but no address in it.
\<close>

definition sctp_addrs :: "cstring option \<Rightarrow> cstring \<Rightarrow> nat \<Rightarrow> cstring list \<Rightarrow> (cstring option \<times> nat) run" where
  "sctp_addrs old field i fs =
    (if field = [] then Done (old, 0)
     else case get_sctpaddrs i fs None of
       (None, x) \<Rightarrow> Exited LSOF_EXIT_ERROR
     | (Some ta, x) \<Rightarrow>
        Done (case old of None \<Rightarrow> Some ta | Some la \<Rightarrow> Some (if isainb ta la then la @ '','' @ ta else la), x))"

definition sctp_title :: "bool \<Rightarrow> cstring list \<Rightarrow> bool" where
  "sctp_title eps fp \<longleftrightarrow>
    (if eps then fp ! 0 = ''ENDPT'' \<and> fp ! 5 = ''LPORT'' \<and> fp ! 7 = ''INODE'' \<and> fp ! 8 = ''LADDRS''
     else fp ! 0 = ''ASSOC'' \<and> fp ! 6 = ''ASSOC-ID'' \<and> fp ! 10 = ''INODE'' \<and> fp ! 11 = ''LPORT'' \<and> fp ! 12 = ''RPORT'' \<and>
       fp ! 13 = ''LADDRS'' \<and> fp ! 14 = ''<->'' \<and> fp ! 15 = ''RADDRS'')"

definition sctp_none :: "64 word \<Rightarrow> sctpsin" where
  "sctp_none inode = \<lparr> sc_inode = inode, sc_type = 0, sc_addr = None, sc_assocID = None, sc_lport = None, sc_rport = None,
    sc_laddrs = None, sc_raddrs = None \<rparr>"

text \<open>
  A line of \<open>assocs\<close> (or of \<open>eps\<close>): \<open>old\<close> is the entry found for its inode.  The entry has the type of the file, or 3
  when it was known from the other file.
\<close>

definition sctp_entry :: "bool \<Rightarrow> cstring \<Rightarrow> cstring list \<Rightarrow> 64 word \<Rightarrow> sctpsin option \<Rightarrow> sctpsin run" where
  "sctp_entry eps stale fp inode old =
    (let sp = (case old of None \<Rightarrow> sctp_none inode | Some e \<Rightarrow> e); i = (if eps then 1 else 0); j = (if eps then 8 else 13) in
     case sctp_addrs (sc_laddrs sp) (fp ! j) j (drop j fp) of
       Exited v \<Rightarrow> Exited v
     | Done (la, x) \<Rightarrow>
        (let rest = (if x + 1 < length fp then fp ! (x + 1) else stale) in
         case (if \<not> eps \<and> x \<noteq> 0 then sctp_addrs (sc_raddrs sp) rest (x + 1) (drop (x + 1) fp) else Done (sc_raddrs sp, 0)) of
           Exited v \<Rightarrow> Exited v
         | Done (ra, _) \<Rightarrow>
            Done \<lparr> sc_inode = inode, sc_type = (if old = None \<or> sc_type sp = i then i else 3),
                   sc_addr = sctp_merge (sc_addr sp) (fp ! 0),
                   sc_assocID = (if eps then sc_assocID sp else sctp_merge (sc_assocID sp) (fp ! 6)),
                   sc_lport = sctp_merge (sc_lport sp) (fp ! (if eps then 5 else 11)),
                   sc_rport = (if eps then sc_rport sp else sctp_merge (sc_rport sp) (fp ! 12)),
                   sc_laddrs = la, sc_raddrs = ra \<rparr>))"

definition hash_replace_element :: "('e \<Rightarrow> 64 word) \<Rightarrow> (64 word \<Rightarrow> nat) \<Rightarrow> 'e \<Rightarrow> 'e ino_tab \<Rightarrow> 'e ino_tab" where
  "hash_replace_element key h e tbl =
    map_option (\<lambda>t. t(h (key e) := map (\<lambda>d. if key d = key e then e else d) (t (h (key e))))) tbl"

definition sctp_line :: "bool \<Rightarrow> cstring \<Rightarrow> cstring list \<Rightarrow> sctpsin ino_tab \<Rightarrow> sctpsin ino_tab run" where
  "sctp_line eps stale fp tbl =
    (case ino_field (fp ! (if eps then 7 else 10)) of
       None \<Rightarrow> Done tbl
     | Some inode \<Rightarrow>
        (let old = hash_find_element sc_inode INOHASH tbl inode in
         case sctp_entry eps stale fp inode old of
           Exited v \<Rightarrow> Exited v
         | Done e \<Rightarrow> Done (if old = None then hash_insert_element sc_inode INOHASH e tbl
                          else hash_replace_element sc_inode INOHASH e tbl)))"

fun sctp_lines :: "bool \<Rightarrow> cstring \<Rightarrow> bool \<Rightarrow> cstring list \<Rightarrow> sctpsin ino_tab \<Rightarrow> sctpsin ino_tab run" where
  "sctp_lines eps stale fl [] tbl = Done tbl"
| "sctp_lines eps stale fl (buf # bufs) tbl =
    (let fp = get_fields buf [] [] in
     if length fp < (if eps then 9 else 16) then sctp_lines eps stale fl bufs tbl
     else if fl then (if sctp_title eps fp then sctp_lines eps stale False bufs tbl else Done tbl)
     else (case sctp_line eps stale fp tbl of Exited v \<Rightarrow> Exited v | Done tbl1 \<Rightarrow> sctp_lines eps stale fl bufs tbl1))"

definition get_sctp :: "cstring \<Rightarrow> cstring list option \<Rightarrow> cstring list option \<Rightarrow> sctpsin ino_tab run" where
  "get_sctp stale assocs eps =
    (case (case assocs of None \<Rightarrow> Done no_rows | Some bufs \<Rightarrow> sctp_lines False stale True bufs no_rows) of
       Exited v \<Rightarrow> Exited v
     | Done tbl \<Rightarrow> (case eps of None \<Rightarrow> Done tbl | Some bufs \<Rightarrow> sctp_lines True stale True bufs tbl))"

section \<open>TCP, UDP and UDPLITE sockets\<close>

text \<open>The number of buckets: doubled until it reaches the number of sockets.\<close>

partial_function (option) bucks_loop :: "int \<Rightarrow> int \<Rightarrow> int option" where
  "bucks_loop b h = (if b < h then bucks_loop (s32 (b * 2)) h else Some b)"

fun sockstat_bucks :: "cstring list \<Rightarrow> int option" where
  "sockstat_bucks [] = Some INOBUCKS"
| "sockstat_bucks (buf # bufs) =
    (case get_fields buf [] [] of
       [a, b, c] \<Rightarrow>
         if a = ''sockets:'' \<and> b = ''used'' \<and> c \<noteq> []
         then bucks_loop INOBUCKS (if atoi c < 1 then INOBUCKS else atoi c)
         else sockstat_bucks bufs
     | _ \<Rightarrow> sockstat_bucks bufs)"

text \<open>For IPv6, the sum of two lines, each at least 1 or counted as 128; \<open>nf\<close> tells which were seen.\<close>

fun sockstat6_bucks :: "bool \<Rightarrow> bool \<Rightarrow> int \<Rightarrow> cstring list \<Rightarrow> int option" where
  "sockstat6_bucks t u i [] = Some INOBUCKS"
| "sockstat6_bucks t u i (buf # bufs) =
    (case get_fields buf [] [] of
       [a, b, c] \<Rightarrow>
         if b = ''inuse'' \<and> c \<noteq> [] \<and> (a = ''TCP6:'' \<or> a = ''UDP6:'') then
           (let t1 = (t \<or> a = ''TCP6:''); u1 = (u \<or> a \<noteq> ''TCP6:''); i1 = s32 (i + (if atoi c < 1 then INOBUCKS else atoi c)) in
            if t1 \<and> u1 then bucks_loop INOBUCKS i1 else sockstat6_bucks t1 u1 i1 bufs)
         else sockstat6_bucks t u i bufs
     | _ \<Rightarrow> sockstat6_bucks t u i bufs)"

definition tcp_title :: "cstring \<Rightarrow> cstring list \<Rightarrow> bool" where
  "tcp_title rem fp \<longleftrightarrow>
    fp ! 1 = ''local_address'' \<and> fp ! 2 = rem \<and> fp ! 3 = ''st'' \<and> fp ! 4 = ''tx_queue'' \<and> fp ! 5 = ''rx_queue'' \<and> fp ! 11 = ''inode''"

definition port16 :: "nat \<Rightarrow> int" where
  "port16 p = int (p mod 65536)"

text \<open>The members \<open>pxinfo\<close> and \<open>ipc_peer\<close> start empty.\<close>

definition tcp_line :: "int \<Rightarrow> cstring list \<Rightarrow> tcp_udp option" where
  "tcp_line pr fp =
    (case (ul_field 16 (fp ! 1), ul_field 16 (fp ! 2), ul_field 16 (fp ! 3), ul_field 16 (fp ! 4)) of
       (Some laddr, Some lport, Some faddr, Some fport) \<Rightarrow>
         (case (ul_field 16 (fp ! 5), ul_field 16 (fp ! 6), ul_field 16 (fp ! 7), ino_field (fp ! 13)) of
            (Some state, Some txq, Some rxq, Some inode) \<Rightarrow>
              Some \<lparr> tu_inode = inode, tu_faddr = faddr, tu_laddr = laddr, tu_fport = port16 fport, tu_lport = port16 lport,
                     tu_txq = txq, tu_rxq = rxq, tu_proto = pr, tu_state = s32 (int state) \<rparr>
          | _ \<Rightarrow> None)
     | _ \<Rightarrow> None)"

text \<open>
  \<open>hex_ipv6_to_in6\<close>: four times eight digits.  A group must be a number of its own that fits 32 bits; a blank or
  a sign in front of the digits is accepted.
\<close>

fun hex_groups :: "nat \<Rightarrow> cstring \<Rightarrow> 32 word list \<times> cstring" where
  "hex_groups 0 as = ([], as)"
| "hex_groups (Suc n) as =
    (if length as < 8 then ([], as)
     else case strtoul 16 (take 8 as) of (v, ep) \<Rightarrow>
       if ep \<noteq> [] \<or> v > 4294967295 then ([], as)
       else (case hex_groups n (drop 8 as) of (ws, r) \<Rightarrow> (of_nat v # ws, r)))"

definition hex_ipv6_to_in6 :: "cstring \<Rightarrow> 32 word list option" where
  "hex_ipv6_to_in6 as = (case hex_groups 4 as of (ws, r) \<Rightarrow> if r \<noteq> [] \<or> length ws \<noteq> 4 then None else Some ws)"

definition tcp6_line :: "int \<Rightarrow> cstring list \<Rightarrow> tcp_udp6 option" where
  "tcp6_line pr fp =
    (case (hex_ipv6_to_in6 (fp ! 1), ul_field 16 (fp ! 2), hex_ipv6_to_in6 (fp ! 3), ul_field 16 (fp ! 4)) of
       (Some laddr, Some lport, Some faddr, Some fport) \<Rightarrow>
         (case (ul_field 16 (fp ! 5), ul_field 16 (fp ! 6), ul_field 16 (fp ! 7), ino_field (fp ! 13)) of
            (Some state, Some txq, Some rxq, Some inode) \<Rightarrow>
              Some \<lparr> tu6_inode = inode, tu6_faddr = faddr, tu6_laddr = laddr, tu6_fport = port16 fport, tu6_lport = port16 lport,
                     tu6_txq = txq, tu6_rxq = rxq, tu6_proto = pr, tu6_state = s32 (int state) \<rparr>
          | _ \<Rightarrow> None)
     | _ \<Rightarrow> None)"

text \<open>
  A table of Internet sockets: the buckets and their number, the chains of established sockets that may be
  used between local processes, and beside them the peers and the open files of an entry.  The
  operations are those of \<open>get_tcpudp\<close> and \<open>get_tcpudp6\<close>, which differ in the entries.
\<close>

record 'e inet_tab =
  it_bucks :: int
  it_tab :: "'e ino_tab"
  it_ipc :: "(nat \<Rightarrow> 'e list) option"
  it_peer :: "64 word \<Rightarrow> 64 word option"
  it_px :: "64 word \<Rightarrow> pxinfo list"

definition inet_new :: "'e inet_tab" where
  "inet_new = \<lparr> it_bucks = 0, it_tab = None, it_ipc = None, it_peer = (\<lambda>_. None), it_px = (\<lambda>_. []) \<rparr>"

definition TCP_ESTABLISHED :: int where "TCP_ESTABLISHED = 1"

definition TCPUDP_IPC_HASH :: "tcp_udp \<Rightarrow> nat" where
  "TCPUDP_IPC_HASH tp =
    unat (drop_bit 3 ((of_nat (tu_faddr tp) * 0x109 + of_nat (tu_laddr tp) * 0x109 + of_int (tu_fport tp) * 0x121 +
      of_int (tu_lport tp) * 0x121 + of_int (tu_proto tp) * 0x181) * 31415 :: 64 word) AND 4095)"

definition TCPUDP6_IPC_ADDR_MK_INT :: "32 word list \<Rightarrow> int" where
  "TCPUDP6_IPC_ADDR_MK_INT a =
    s32 (sint (a ! 0) * 0x123 + sint (a ! 1) * 0x111 + sint (a ! 2) * 0x149 + sint (a ! 3) * 0x185)"

definition TCPUDP6_IPC_HASH :: "tcp_udp6 \<Rightarrow> nat" where
  "TCPUDP6_IPC_HASH tp =
    nat ((s32 ((TCPUDP6_IPC_ADDR_MK_INT (tu6_faddr tp) + TCPUDP6_IPC_ADDR_MK_INT (tu6_laddr tp) + tu6_fport tp * 0x109 +
      tu6_lport tp * 0x109 + tu6_proto tp * 0x141) * 31415) div 8) mod IPCBUCKS)"

text \<open>A new entry goes to its bucket, and to its chain when it is established and endpoints are wanted.\<close>

definition add_inet ::
  "bool \<Rightarrow> ('e \<Rightarrow> 64 word) \<Rightarrow> ('e \<Rightarrow> int) \<Rightarrow> ('e \<Rightarrow> nat) \<Rightarrow> 'e \<Rightarrow> 'e inet_tab \<Rightarrow> 'e inet_tab" where
  "add_inet ept key state ipch e t =
    (if hash_find_element key (ino_hash (it_bucks t)) (it_tab t) (key e) \<noteq> None then t
     else t\<lparr> it_tab := hash_insert_element key (ino_hash (it_bucks t)) e (it_tab t),
            it_px := (it_px t)(key e := []),
            it_peer := (it_peer t)(key e := None),
            it_ipc := (if ept \<and> state e = TCP_ESTABLISHED
                       then map_option (\<lambda>c. c(ipch e := e # c (ipch e))) (it_ipc t) else it_ipc t) \<rparr>)"

text \<open>
  \<open>get_netpeeri\<close> and \<open>get_net6peeri\<close>: every entry of a chain without a peer is linked with the first entry of the chain
  that has none and is its opposite.
\<close>

definition pair_one :: "('e \<Rightarrow> 64 word) \<Rightarrow> ('e \<Rightarrow> 'e \<Rightarrow> bool) \<Rightarrow> 'e list \<Rightarrow> 'e \<Rightarrow> (64 word \<Rightarrow> 64 word option) \<Rightarrow> (64 word \<Rightarrow> 64 word option)" where
  "pair_one key opp chain tp peer =
    (if peer (key tp) \<noteq> None then peer
     else case List.find (\<lambda>np. peer (key np) = None \<and> opp tp np) chain of
       None \<Rightarrow> peer
     | Some np \<Rightarrow> peer(key tp := Some (key np), key np := Some (key tp)))"

definition get_netpeeri ::
  "('e \<Rightarrow> 64 word) \<Rightarrow> ('e \<Rightarrow> 'e \<Rightarrow> bool) \<Rightarrow> (nat \<Rightarrow> 'e list) \<Rightarrow> (64 word \<Rightarrow> 64 word option) \<Rightarrow> (64 word \<Rightarrow> 64 word option)" where
  "get_netpeeri key opp ipc peer = fold (\<lambda>h. fold (pair_one key opp (ipc h)) (ipc h)) [0..<nat IPCBUCKS] peer"

definition tcp_opposite :: "tcp_udp \<Rightarrow> tcp_udp \<Rightarrow> bool" where
  "tcp_opposite tp np \<longleftrightarrow>
    tu_faddr tp = tu_laddr np \<and> tu_laddr tp = tu_faddr np \<and> tu_fport tp = tu_lport np \<and> tu_lport tp = tu_fport np \<and>
    tu_proto tp = tu_proto np"

definition tcp6_opposite :: "tcp_udp6 \<Rightarrow> tcp_udp6 \<Rightarrow> bool" where
  "tcp6_opposite tp np \<longleftrightarrow>
    tu6_faddr tp = tu6_laddr np \<and> tu6_laddr tp = tu6_faddr np \<and> tu6_fport tp = tu6_lport np \<and> tu6_lport tp = tu6_fport np \<and>
    tu6_proto tp = tu6_proto np"

text \<open>
  The start: an existing table is cleared for TCP, which comes first; a missing one is allocated.  \<open>None\<close> is an
  endless search for the number of buckets, or the clearing of chains that were never allocated.
\<close>

definition inet_start :: "bool \<Rightarrow> int option \<Rightarrow> bool \<Rightarrow> 'e inet_tab \<Rightarrow> 'e inet_tab option" where
  "inet_start ept bucks clr t =
    (if it_tab t \<noteq> None then
       (if \<not> clr then Some t
        else if \<not> ept then Some (t\<lparr> it_tab := no_rows \<rparr>)
        else if it_ipc t = None then None
        else Some (t\<lparr> it_tab := no_rows, it_ipc := Some (\<lambda>_. []) \<rparr>))
     else case bucks of
       None \<Rightarrow> None
     | Some b \<Rightarrow> Some (t\<lparr> it_bucks := b, it_tab := no_rows, it_ipc := (if ept then Some (\<lambda>_. []) else it_ipc t) \<rparr>))"

definition get_inet ::
  "bool \<Rightarrow> ('e \<Rightarrow> 64 word) \<Rightarrow> ('e \<Rightarrow> int) \<Rightarrow> ('e \<Rightarrow> nat) \<Rightarrow> ('e \<Rightarrow> 'e \<Rightarrow> bool) \<Rightarrow> cstring \<Rightarrow> (cstring list \<Rightarrow> 'e option)
    \<Rightarrow> int option \<Rightarrow> cstring list option \<Rightarrow> bool \<Rightarrow> 'e inet_tab \<Rightarrow> 'e inet_tab option" where
  "get_inet ept key state ipch opp rem line bucks file clr t =
    (case inet_start ept bucks clr t of
       None \<Rightarrow> None
     | Some t1 \<Rightarrow>
        (case file of
           None \<Rightarrow> Some t1
         | Some bufs \<Rightarrow>
            (let t2 = read_titled 12 [] (tcp_title rem) 14 '':'' line (add_inet ept key state ipch) bufs t1 in
             if \<not> ept then Some t2
             else case it_ipc t2 of
               None \<Rightarrow> None
             | Some ipc \<Rightarrow> Some (t2\<lparr> it_peer := get_netpeeri key opp ipc (it_peer t2) \<rparr>))))"

definition get_tcpudp ::
  "bool \<Rightarrow> cstring list option \<Rightarrow> cstring list option \<Rightarrow> int \<Rightarrow> bool \<Rightarrow> tcp_udp inet_tab \<Rightarrow> tcp_udp inet_tab option" where
  "get_tcpudp ept sockstat file pr clr t =
    get_inet ept tu_inode tu_state TCPUDP_IPC_HASH tcp_opposite ''rem_address'' (tcp_line pr)
      (case sockstat of None \<Rightarrow> Some INOBUCKS | Some bufs \<Rightarrow> sockstat_bucks bufs) file clr t"

definition get_tcpudp6 ::
  "bool \<Rightarrow> cstring list option \<Rightarrow> cstring list option \<Rightarrow> int \<Rightarrow> bool \<Rightarrow> tcp_udp6 inet_tab \<Rightarrow> tcp_udp6 inet_tab option" where
  "get_tcpudp6 ept sockstat6 file pr clr t =
    get_inet ept tu6_inode tu6_state TCPUDP6_IPC_HASH tcp6_opposite ''remote_address'' (tcp6_line pr)
      (case sockstat6 of None \<Rightarrow> Some INOBUCKS | Some bufs \<Rightarrow> sockstat6_bucks False False 0 bufs) file clr t"

definition check_inet :: "tcp_udp inet_tab \<Rightarrow> 64 word \<Rightarrow> tcp_udp option" where
  "check_inet t i = hash_find_element tu_inode (ino_hash (it_bucks t)) (it_tab t) i"

definition check_inet6 :: "tcp_udp6 inet_tab \<Rightarrow> 64 word \<Rightarrow> tcp_udp6 option" where
  "check_inet6 t i = hash_find_element tu6_inode (ino_hash (it_bucks t)) (it_tab t) i"

definition inet_proto :: "int \<Rightarrow> cstring" where
  "inet_proto pr = (if pr = 0 then ''TCP'' else if pr = 1 then ''UDP'' else if pr = 2 then ''UDPLITE'' else ''unknown'')"

definition check_tcpudp :: "tcp_udp inet_tab \<Rightarrow> 64 word \<Rightarrow> (tcp_udp \<times> cstring) option" where
  "check_tcpudp t i = map_option (\<lambda>tp. (tp, inet_proto (tu_proto tp))) (check_inet t i)"

definition check_tcpudp6 :: "tcp_udp6 inet_tab \<Rightarrow> 64 word \<Rightarrow> (tcp_udp6 \<times> cstring) option" where
  "check_tcpudp6 t i = map_option (\<lambda>tp. (tp, inet_proto (tu6_proto tp))) (check_inet6 t i)"

text \<open>\<open>clear_netsinfo\<close> and \<open>clear_nets6info\<close>.\<close>

definition clear_netsinfo :: "'e inet_tab \<Rightarrow> 'e inet_tab" where
  "clear_netsinfo t = t\<lparr> it_tab := map_option (\<lambda>_. (\<lambda>_. [])) (it_tab t), it_ipc := map_option (\<lambda>_. (\<lambda>_. [])) (it_ipc t) \<rparr>"

section \<open>UNIX domain sockets\<close>

record ux_tab =
  ut_tab :: "uxsin ino_tab"
  ut_peer :: "64 word \<Rightarrow> 64 word option"
  ut_icons :: "64 word \<Rightarrow> 64 word option"
  ut_px :: "64 word \<Rightarrow> pxinfo list"

definition ux_new :: ux_tab where
  "ux_new = \<lparr> ut_tab = None, ut_peer = (\<lambda>_. None), ut_icons = (\<lambda>_. None), ut_px = (\<lambda>_. []) \<rparr>"

definition unix_title :: "cstring list \<Rightarrow> bool" where
  "unix_title fp \<longleftrightarrow> take 8 fp = [''Num'', ''RefCount'', ''Protocol'', ''Flags'', ''Type'', ''St'', ''Inode'', ''Path'']"

text \<open>The flags and the state: what follows the digits is not looked at, and an overflow counts as 0.\<close>

definition ux_number :: "cstring \<Rightarrow> nat" where
  "ux_number f = (let v = fst (strtoul 16 f) in if f = [] \<or> v = ULONG_MAX then 0 else v mod 4294967296)"

definition ux_type :: "cstring \<Rightarrow> nat" where
  "ux_type f =
    (if f = [] then 4294967295
     else case strtoul 16 f of (v, ep) \<Rightarrow> if v mod 4294967296 = 4294967295 \<or> ep \<noteq> [] then 4294967295 else v mod 4294967296)"

text \<open>A line; an absolute path is examined, and the result kept if it is a socket.\<close>

definition S_IFSOCK_mode :: "nat \<Rightarrow> bool" where
  "S_IFSOCK_mode m \<longleftrightarrow> m AND 0xf000 = 0xc000"

definition unix_line :: "(cstring \<Rightarrow> statb option) \<Rightarrow> cstring list \<Rightarrow> uxsin option" where
  "unix_line stat fp =
    (case ino_field (fp ! 6) of
       None \<Rightarrow> None
     | Some inode \<Rightarrow>
        (let path = (if 8 \<le> length fp then text_field (fp ! 7) else None) in
         Some \<lparr> ux_inode = inode, ux_pcb = (if fp ! 0 = [] then None else Some (''0x'' @ fp ! 0)), ux_path = path,
                ux_sb = (case path of
                           None \<Rightarrow> None
                         | Some p \<Rightarrow>
                            if hd p = CHR ''/'' then
                              (case stat p of None \<Rightarrow> None | Some sb \<Rightarrow> if S_IFSOCK_mode (st_mode sb) then Some sb else None)
                            else None),
                ux_ty = ux_type (fp ! 4), ux_opt = ux_number (fp ! 3), ux_ss = ux_number (fp ! 5) \<rparr>))"

definition check_unix :: "ux_tab \<Rightarrow> 64 word \<Rightarrow> uxsin option" where
  "check_unix t i = hash_find_element ux_inode INOHASH (ut_tab t) i"

definition add_unix :: "uxsin \<Rightarrow> ux_tab \<Rightarrow> ux_tab" where
  "add_unix e t =
    (if check_unix t (ux_inode e) \<noteq> None then t
     else t\<lparr> ut_tab := hash_insert_element ux_inode INOHASH e (ut_tab t), ut_px := (ut_px t)(ux_inode e := []),
            ut_peer := (ut_peer t)(ux_inode e := None), ut_icons := (ut_icons t)(ux_inode e := None) \<rparr>)"

text \<open>
  The peers and pending connections the kernel reports over netlink: the inode of a socket with its
  attributes.  \<open>icstat\<close> and \<open>icons\<close> are set together, so one of them is enough.
\<close>

datatype diag_attr = Diag_Peer nat | Diag_Icons "nat list" | Diag_Other

definition fill_uxpino :: "64 word \<Rightarrow> 64 word \<Rightarrow> ux_tab \<Rightarrow> ux_tab" where
  "fill_uxpino si pi t =
    (if check_unix t si \<noteq> None \<and> ut_peer t si = None \<and> check_unix t pi \<noteq> None
     then t\<lparr> ut_peer := (ut_peer t)(si := Some pi) \<rparr> else t)"

definition fill_uxicino :: "64 word \<Rightarrow> 64 word \<Rightarrow> ux_tab \<Rightarrow> ux_tab" where
  "fill_uxicino si ic t =
    (if check_unix t si \<noteq> None \<and> ut_icons t si = None \<and> check_unix t ic \<noteq> None
     then t\<lparr> ut_icons := (ut_icons t)(si := Some ic) \<rparr> else t)"

fun diag_step :: "64 word \<Rightarrow> diag_attr \<Rightarrow> ux_tab \<Rightarrow> ux_tab" where
  "diag_step inop (Diag_Peer p) t =
    (let inoc = of_nat p in if inoc = 0 then t else fill_uxpino inoc inop (fill_uxpino inop inoc t))"
| "diag_step inop (Diag_Icons ics) t = fold (\<lambda>ic. fill_uxicino inop (of_nat ic)) ics t"
| "diag_step inop Diag_Other t = t"

definition parse_diag :: "nat \<times> diag_attr list \<Rightarrow> ux_tab \<Rightarrow> ux_tab" where
  "parse_diag dm t = (case dm of (ino, attrs) \<Rightarrow> if ino = 0 then t else fold (diag_step (of_nat ino)) attrs t)"

text \<open>\<open>get_unix\<close>; \<open>diag\<close> is what the netlink socket returns, \<open>None\<close> when it cannot be had.\<close>

definition get_unix ::
  "bool \<Rightarrow> (cstring \<Rightarrow> statb option) \<Rightarrow> (nat \<times> diag_attr list) list option \<Rightarrow> cstring list option \<Rightarrow> ux_tab \<Rightarrow> ux_tab run" where
  "get_unix ept stat diag file t =
    (let t0 = t\<lparr> ut_tab := no_rows \<rparr> in
     case file of
       None \<Rightarrow> Done t0
     | Some bufs \<Rightarrow>
        (let t1 = read_titled 7 '':'' (\<lambda>fp. unix_title fp) 7 '':'' (unix_line stat) add_unix bufs t0 in
         if \<not> ept then Done t1
         else case diag of None \<Rightarrow> Exited LSOF_EXIT_ERROR | Some dms \<Rightarrow> Done (fold parse_diag dms t1)))"

definition clear_uxsinfo :: "ux_tab \<Rightarrow> ux_tab" where
  "clear_uxsinfo t = t\<lparr> ut_tab := map_option (\<lambda>_. (\<lambda>_. [])) (ut_tab t) \<rparr>"

section \<open>The contract of a table\<close>

text \<open>
  What the readers rely on: a new entry is found by its inode, and a known inode keeps its entry.  The entries
  of the lines are then found by the first line with the inode.
\<close>

lemma read_rows_keeps: "(\<And>e t. P t \<Longrightarrow> P (add e t)) \<Longrightarrow> P t \<Longrightarrow> P (read_rows nf seps line add bufs t)"
  by (induction bufs arbitrary: t) (auto simp: read_rows_def split: option.split)

lemma read_titled_keeps:
  "(\<And>e t. P t \<Longrightarrow> P (add e t)) \<Longrightarrow> P t \<Longrightarrow> P (read_titled tf tseps title nf seps line add bufs t)"
  by (induction bufs arbitrary: t) (auto simp: Let_def intro: read_rows_keeps)

locale ino_table =
  fixes find_ino :: "'t \<Rightarrow> 64 word \<Rightarrow> 'e option"
    and add :: "'e \<Rightarrow> 't \<Rightarrow> 't"
    and key :: "'e \<Rightarrow> 64 word"
    and ready :: "'t \<Rightarrow> bool"
  assumes ready_add: "ready t \<Longrightarrow> ready (add e t)"
    and find_add: "ready t \<Longrightarrow> find_ino (add e t) i = (if find_ino t i = None \<and> key e = i then Some e else find_ino t i)"
begin

lemma find_rows:
  assumes "ready t"
  shows "find_ino (read_rows nf seps line add bufs t) i =
    (case find_ino t i of
       Some e \<Rightarrow> Some e
     | None \<Rightarrow> List.find (\<lambda>e. key e = i) (List.map_filter (row_entry nf seps line) bufs))"
  using assms
proof (induction bufs arbitrary: t)
  case Nil
  then show ?case by (simp add: read_rows_def map_filter_simps split: option.split)
next
  case (Cons buf bufs)
  let ?r = "row_entry nf seps line buf"
  have step: "read_rows nf seps line add (buf # bufs) t = read_rows nf seps line add bufs (case ?r of None \<Rightarrow> t | Some e \<Rightarrow> add e t)"
    by (simp add: read_rows_def)
  show ?case
  proof (cases ?r)
    case None
    then show ?thesis using step Cons by (simp add: map_filter_simps split: option.split)
  next
    case (Some e)
    then show ?thesis
      using step Cons.IH [OF ready_add [OF Cons.prems, of e]] find_add [OF Cons.prems, of e i]
      by (auto simp: map_filter_simps split: option.split)
  qed
qed

lemma find_titled:
  assumes "ready t" "tf \<le> length (get_fields buf tseps [])" "title (get_fields buf tseps [])"
  shows "find_ino (read_titled tf tseps title nf seps line add (buf # bufs) t) i =
    (case find_ino t i of
       Some e \<Rightarrow> Some e
     | None \<Rightarrow> List.find (\<lambda>e. key e = i) (List.map_filter (row_entry nf seps line) bufs))"
  using assms find_rows [OF assms(1)] by (simp add: Let_def)

lemma ready_titled: "ready t \<Longrightarrow> ready (read_titled tf tseps title nf seps line add bufs t)"
  by (rule read_titled_keeps [where P = ready]) (auto intro: ready_add)

end

lemma find_insert_element:
  assumes "tbl \<noteq> None"
  shows "hash_find_element key h (hash_insert_element key h e tbl) i = (if key e = i then Some e else hash_find_element key h tbl i)"
  using assms by (auto simp: hash_find_element_def hash_insert_element_def)

lemma find_no_rows [simp]: "hash_find_element key h no_rows i = None"
  by (simp add: hash_find_element_def no_rows_def)

lemma insert_element_ready [simp]: "\<exists>t. hash_insert_element key h e (Some y) = Some t"
  by (simp add: hash_insert_element_def)

lemma add_row_table: "ino_table (hash_find_element key h) (add_row key h) key (\<lambda>t. t \<noteq> None)"
  by unfold_locales (auto simp: add_row_def find_insert_element)

interpretation ax25: ino_table "hash_find_element ax_inode INOHASH" "add_row ax_inode INOHASH" ax_inode "\<lambda>t. t \<noteq> None"
  by (rule add_row_table)

interpretation icmp: ino_table "hash_find_element ic_inode INOHASH" "add_row ic_inode INOHASH" ic_inode "\<lambda>t. t \<noteq> None"
  by (rule add_row_table)

interpretation ipx: ino_table "hash_find_element ipx_inode INOHASH" "add_row ipx_inode INOHASH" ipx_inode "\<lambda>t. t \<noteq> None"
  by (rule add_row_table)

interpretation netlink: ino_table "hash_find_element nk_inode INOHASH" "add_row nk_inode INOHASH" nk_inode "\<lambda>t. t \<noteq> None"
  by (rule add_row_table)

interpretation pack: ino_table "hash_find_element pk_inode INOHASH" "add_row pk_inode INOHASH" pk_inode "\<lambda>t. t \<noteq> None"
  by (rule add_row_table)

interpretation raw: ino_table "hash_find_element rw_inode INOHASH" "add_row rw_inode INOHASH" rw_inode "\<lambda>t. t \<noteq> None"
  by (rule add_row_table)

lemma add_inet_table:
  "ino_table (\<lambda>t. hash_find_element key (ino_hash (it_bucks t)) (it_tab t)) (add_inet ept key state ipch) key (\<lambda>t. it_tab t \<noteq> None)"
  by unfold_locales (auto simp: add_inet_def find_insert_element)

interpretation inet: ino_table check_inet "add_inet ept tu_inode tu_state TCPUDP_IPC_HASH" tu_inode "\<lambda>t. it_tab t \<noteq> None" for ept
  unfolding check_inet_def [abs_def] by (rule add_inet_table)

interpretation inet6: ino_table check_inet6 "add_inet ept tu6_inode tu6_state TCPUDP6_IPC_HASH" tu6_inode "\<lambda>t. it_tab t \<noteq> None" for ept
  unfolding check_inet6_def [abs_def] by (rule add_inet_table)

interpretation ux: ino_table check_unix add_unix ux_inode "\<lambda>t. ut_tab t \<noteq> None"
  by unfold_locales (auto simp: check_unix_def add_unix_def find_insert_element)

section \<open>What the kernel prints is found\<close>

text \<open>\<open>%0wX\<close>, and a number right-aligned in \<open>w\<close> columns.\<close>

definition hex_upper :: "nat \<Rightarrow> nat \<Rightarrow> cstring" where
  "hex_upper w n = (let s = map toupper_c (hex_str n) in replicate (w - length s) (CHR ''0'') @ s)"

definition right_al :: "nat \<Rightarrow> cstring \<Rightarrow> cstring" where
  "right_al w s = replicate (w - length s) blank @ s"

lemma hex_chars_upper: "is_hex_char c \<Longrightarrow> base_digit (toupper_c c) = base_digit c \<and> is_hex_char (toupper_c c)"
proof -
  assume "is_hex_char c"
  then have "byte c \<in> {48..57} \<union> {65..70} \<union> {97..102}" by (auto simp: is_hex_char_def isdigit_c_def)
  moreover have "c = char_of (byte c)" by simp
  ultimately show ?thesis
    by (auto simp: toupper_c_def islower_c_def base_digit_def is_hex_char_def isdigit_c_def)
qed

lemma hex_upper_chars: "list_all is_hex_char (hex_upper w n)"
  using hex_str_chars [of n] hex_chars_upper by (auto simp: hex_upper_def Let_def list_all_iff is_hex_char_def isdigit_c_def)

lemma hex_upper_nonempty [simp]: "hex_upper w n \<noteq> []"
  using hex_str_nonempty [of n] by (simp add: hex_upper_def Let_def)

lemma base_value_zeros: "base_value 16 (replicate k (CHR ''0'') @ s) = base_value 16 s"
  by (induction k) (simp_all add: base_value_def base_digit_def isdigit_c_def)

lemma base_value_upper: "list_all is_hex_char s \<Longrightarrow> base_value 16 (map toupper_c s) = base_value 16 s"
  by (induction s rule: rev_induct) (simp_all add: base_value_snoc hex_chars_upper)

lemma base_value_hex_upper: "base_value 16 (hex_upper w n) = n"
  using hex_str_chars [of n] by (simp add: hex_upper_def Let_def base_value_zeros base_value_upper base_value_hex_str)

lemma strtoul_hex:
  assumes "list_all is_hex_char s" "s \<noteq> []" "base_value 16 s \<le> ULONG_MAX"
  shows "strtoul 16 s = (base_value 16 s, [])"
proof -
  have h: "\<And>c. c \<in> set s \<Longrightarrow> is_hex_char c" using assms(1) by (simp add: list_all_iff)
  have "strto_sign s = (False, s)" using hex_char_class [OF h, of "hd s"] assms(2) by (cases s) (auto simp: strto_sign_def)
  moreover have "strto_base 16 s = (16, s)"
    using hex_char_class [OF h [OF nth_mem, of 1]] by (auto simp: strto_base_def)
  moreover have "takeWhile (\<lambda>c. base_digit c < 16) s = s" "dropWhile (\<lambda>c. base_digit c < 16) s = []"
    using h base16_hex_char by auto
  ultimately show ?thesis using assms(2,3) by (simp add: strtoul_def Let_def del: takeWhile_eq_all_conv dropWhile_eq_Nil_conv)
qed

lemma ul_field_hex [simp]: "n < ULONG_MAX \<Longrightarrow> ul_field 16 (hex_upper w n) = Some n"
  using strtoul_hex [OF hex_upper_chars, of w n] by (simp add: ul_field_def base_value_hex_upper)

lemma ul_field_dec [simp]: "n < ULONG_MAX \<Longrightarrow> ul_field 0 (dec_str n) = Some n"
  using fdinfo_number_dec [of n] by (simp add: ul_field_def fdinfo_number_def)

lemma hex_upper_plain [simp]: "plain_field (hex_upper w n)" "CHR '':'' \<notin> set (hex_upper w n)"
  using hex_upper_chars [of w n] hex_char_class by (auto simp: plain_field_def list_all_iff)

lemma get_fields_right [simp]: "get_fields_from sep eb n (right_al w s @ r) = get_fields_from sep eb n (s @ r)"
  by (simp add: right_al_def get_fields_blanks)

text \<open>A row of \<open>/proc/net/tcp\<close> or \<open>udp\<close>; \<open>tr_more\<close> is what follows the inode.\<close>

record tcp_row =
  tr_sl :: nat
  tr_laddr :: nat
  tr_lport :: nat
  tr_faddr :: nat
  tr_fport :: nat
  tr_state :: nat
  tr_txq :: nat
  tr_rxq :: nat
  tr_timer :: nat
  tr_when :: nat
  tr_retr :: nat
  tr_uid :: nat
  tr_timeout :: nat
  tr_inode :: nat
  tr_more :: cstring

definition tcp_text :: "tcp_row \<Rightarrow> cstring" where
  "tcp_text r = right_al 4 (dec_str (tr_sl r)) @ CHR '':'' # blank # hex_upper 8 (tr_laddr r) @ CHR '':'' # hex_upper 4 (tr_lport r) @ blank #
    hex_upper 8 (tr_faddr r) @ CHR '':'' # hex_upper 4 (tr_fport r) @ blank # hex_upper 2 (tr_state r) @ blank #
    hex_upper 8 (tr_txq r) @ CHR '':'' # hex_upper 8 (tr_rxq r) @ blank # hex_upper 2 (tr_timer r) @ CHR '':'' # hex_upper 8 (tr_when r) @ blank #
    hex_upper 8 (tr_retr r) @ blank # right_al 5 (dec_str (tr_uid r)) @ blank # right_al 8 (dec_str (tr_timeout r)) @ blank #
    dec_str (tr_inode r) @ blank # tr_more r"

definition tcp_row_ok :: "tcp_row \<Rightarrow> bool" where
  "tcp_row_ok r \<longleftrightarrow> tr_laddr r < 4294967296 \<and> tr_faddr r < 4294967296 \<and> tr_lport r < 65536 \<and> tr_fport r < 65536 \<and>
    tr_state r < 256 \<and> tr_txq r < 4294967296 \<and> tr_rxq r < 4294967296 \<and> tr_inode r < ULONG_MAX"

definition tcp_entry :: "int \<Rightarrow> tcp_row \<Rightarrow> tcp_udp" where
  "tcp_entry pr r = \<lparr> tu_inode = of_nat (tr_inode r), tu_faddr = tr_faddr r, tu_laddr = tr_laddr r, tu_fport = int (tr_fport r),
    tu_lport = int (tr_lport r), tu_txq = tr_txq r, tu_rxq = tr_rxq r, tu_proto = pr, tu_state = int (tr_state r) \<rparr>"

lemma tcp_fields:
  "\<exists>fs. get_fields (tcp_text r) '':'' [] =
    dec_str (tr_sl r) # hex_upper 8 (tr_laddr r) # hex_upper 4 (tr_lport r) # hex_upper 8 (tr_faddr r) # hex_upper 4 (tr_fport r) #
    hex_upper 2 (tr_state r) # hex_upper 8 (tr_txq r) # hex_upper 8 (tr_rxq r) # hex_upper 2 (tr_timer r) # hex_upper 8 (tr_when r) #
    hex_upper 8 (tr_retr r) # dec_str (tr_uid r) # dec_str (tr_timeout r) # dec_str (tr_inode r) # fs"
  unfolding get_fields_def tcp_text_def by (simp add: get_fields_end)

lemma row_entry_tcp: "tcp_row_ok r \<Longrightarrow> row_entry 14 '':'' (tcp_line pr) (tcp_text r) = Some (tcp_entry pr r)"
proof -
  assume ok: "tcp_row_ok r"
  obtain fs where fs: "get_fields (tcp_text r) '':'' [] =
    dec_str (tr_sl r) # hex_upper 8 (tr_laddr r) # hex_upper 4 (tr_lport r) # hex_upper 8 (tr_faddr r) # hex_upper 4 (tr_fport r) #
    hex_upper 2 (tr_state r) # hex_upper 8 (tr_txq r) # hex_upper 8 (tr_rxq r) # hex_upper 2 (tr_timer r) # hex_upper 8 (tr_when r) #
    hex_upper 8 (tr_retr r) # dec_str (tr_uid r) # dec_str (tr_timeout r) # dec_str (tr_inode r) # fs"
    using tcp_fields by blast
  have "tr_laddr r < ULONG_MAX" "tr_faddr r < ULONG_MAX" "tr_lport r < ULONG_MAX" "tr_fport r < ULONG_MAX" "tr_state r < ULONG_MAX"
    "tr_txq r < ULONG_MAX" "tr_rxq r < ULONG_MAX" "tr_inode r < ULONG_MAX" "s32 (int (tr_state r)) = int (tr_state r)"
    "port16 (tr_lport r) = int (tr_lport r)" "port16 (tr_fport r) = int (tr_fport r)"
    using ok by (auto simp: tcp_row_ok_def ULONG_MAX_def port16_def intro!: s32_id simp: in_s32_def)
  then show ?thesis by (simp add: row_entry_def fs tcp_line_def ino_field_def tcp_entry_def)
qed

text \<open>The title of the tables, and the line of \<open>/proc/net/sockstat\<close>.\<close>

definition tcp_title_text :: cstring where
  "tcp_title_text = ''  sl  local_address rem_address   st tx_queue rx_queue tr tm->when retrnsmt   uid  timeout inode'' @ [nl]"

lemma tcp_title_fields:
  "get_fields tcp_title_text [] [] = [''sl'', ''local_address'', ''rem_address'', ''st'', ''tx_queue'', ''rx_queue'', ''tr'', ''tm->when'',
    ''retrnsmt'', ''uid'', ''timeout'', ''inode'']"
  unfolding get_fields_def tcp_title_text_def by (simp add: get_fields_from.simps)

lemma bucks_loop_grows:
  assumes "k + j = 23" "h \<le> 1073741824"
  shows "\<exists>m. k \<le> m \<and> m \<le> 23 \<and> bucks_loop (128 * 2 ^ k) h = Some (128 * 2 ^ m) \<and> h \<le> 128 * 2 ^ m"
  using assms(1)
proof (induction j arbitrary: k)
  case 0
  then have "k = 23" by simp
  then have "\<not> 128 * 2 ^ k < h" using assms(2) by simp
  with \<open>k = 23\<close> show ?case by (intro exI [of _ 23]) (simp add: bucks_loop.simps)
next
  case (Suc j)
  show ?case
  proof (cases "128 * 2 ^ k < h")
    case True
    have "(2::int) ^ k \<le> 2 ^ 22" using Suc.prems by (intro power_increasing) auto
    then have "(2::int) ^ k \<le> 4194304" by simp
    moreover have "(0::int) < 2 ^ k" by simp
    ultimately have "in_s32 (128 * 2 ^ k * 2)" unfolding in_s32_def by (intro conjI) linarith+
    then have "s32 (128 * 2 ^ k * 2) = 128 * 2 ^ Suc k" by simp
    with True Suc.IH [of "Suc k"] Suc.prems show ?thesis by (subst bucks_loop.simps) (auto intro: Suc_leD)
  next
    case False
    with Suc.prems show ?thesis by (intro exI [of _ k]) (simp add: bucks_loop.simps)
  qed
qed

definition sockstat_text :: "nat \<Rightarrow> cstring" where
  "sockstat_text n = ''sockets: used '' @ dec_str n @ [nl]"

lemma sockstat_bucks_ok:
  assumes "n \<le> 1073741824"
  shows "\<exists>m \<le> 23. sockstat_bucks (sockstat_text n # bufs) = Some (128 * 2 ^ m) \<and> int n \<le> 128 * 2 ^ m"
proof -
  have f: "get_fields (sockstat_text n) [] [] = [''sockets:'', ''used'', dec_str n]"
  proof -
    have "sockstat_text n = ''sockets:'' @ blank # ''used'' @ blank # dec_str n @ [nl]" by (simp add: sockstat_text_def)
    moreover have "plain_field ''sockets:''" "plain_field ''used''" by (simp_all add: plain_field_def)
    ultimately show ?thesis by (simp only: get_fields_def get_fields_plain_first get_fields_nl plain_dec_str)
  qed
  have a: "atoi (dec_str n) = int n" using assms by (intro atoi_dec_str) (simp add: in_s32_def)
  define h where "h = (if int n < 1 then 128 else int n)"
  have "h \<le> 1073741824" "int n \<le> h" using assms by (auto simp: h_def)
  then obtain m where "m \<le> 23" "bucks_loop 128 h = Some (128 * 2 ^ m)" "h \<le> 128 * 2 ^ m"
    using bucks_loop_grows [of 0 23 h] by auto
  then show ?thesis using f a \<open>int n \<le> h\<close> by (intro exI [of _ m]) (auto simp: INOBUCKS_def h_def)
qed

lemma find_map_entry: "List.find (\<lambda>e. P e) (map f xs) = map_option f (List.find (\<lambda>x. P (f x)) xs)"
  by (induction xs) auto

lemma map_filter_all: "\<forall>x \<in> set xs. f (g x) = Some (h x) \<Longrightarrow> List.map_filter f (map g xs) = map h xs"
  by (induction xs) (simp_all add: map_filter_simps)

lemma get_tcpudp_rows:
  assumes "it_tab t = None" "sockstat_bucks socks = Some b" "\<forall>r \<in> set rs. tcp_row_ok r"
  shows "\<exists>t1. get_tcpudp ept (Some socks) (Some (tcp_title_text # map tcp_text rs)) pr clr t = Some t1 \<and>
    (\<forall>i. check_inet t1 i = map_option (tcp_entry pr) (List.find (\<lambda>r. of_nat (tr_inode r) = i) rs))"
proof -
  let ?t0 = "t\<lparr> it_bucks := b, it_tab := no_rows, it_ipc := (if ept then Some (\<lambda>_. []) else it_ipc t) \<rparr>"
  let ?bufs = "tcp_title_text # map tcp_text rs"
  define t1 where "t1 = read_titled 12 [] (tcp_title ''rem_address'') 14 '':'' (tcp_line pr)
      (add_inet ept tu_inode tu_state TCPUDP_IPC_HASH) ?bufs ?t0"
  have i: "check_inet t1 i = map_option (tcp_entry pr) (List.find (\<lambda>r. of_nat (tr_inode r) = i) rs)" for i
  proof -
    have "check_inet ?t0 i = None" by (simp add: check_inet_def)
    moreover have "List.map_filter (row_entry 14 '':'' (tcp_line pr)) (map tcp_text rs) = map (tcp_entry pr) rs"
      using assms(3) by (intro map_filter_all) (simp add: row_entry_tcp)
    moreover have "tu_inode (tcp_entry pr r) = of_nat (tr_inode r)" for r by (simp add: tcp_entry_def)
    ultimately show ?thesis
      unfolding t1_def by (subst inet.find_titled) (simp_all add: tcp_title_fields tcp_title_def find_map_entry no_rows_def)
  qed
  have "ept \<longrightarrow> it_ipc t1 \<noteq> None"
    unfolding t1_def by (rule read_titled_keeps) (auto simp: add_inet_def)
  then obtain ipc where "ept \<longrightarrow> it_ipc t1 = Some ipc" by (cases "it_ipc t1") auto
  moreover have "inet_start ept (Some b) clr t = Some ?t0" using assms(1) by (simp add: inet_start_def)
  ultimately have "get_tcpudp ept (Some socks) (Some ?bufs) pr clr t =
      Some (if ept then t1\<lparr> it_peer := get_netpeeri tu_inode tcp_opposite ipc (it_peer t1) \<rparr> else t1)"
    unfolding get_tcpudp_def get_inet_def option.case assms(2)
    by (simp only: option.case t1_def [symmetric] Let_def) auto
  moreover have "check_inet (t1\<lparr> it_peer := p \<rparr>) = check_inet t1" for p by (rule ext) (simp add: check_inet_def)
  ultimately show ?thesis using i by simp
qed

text \<open>
  C6: every socket of the kernel's table is found.  For any number of rows and at most \<open>2 ^ 30\<close> sockets, the
  reading of \<open>/proc/net/tcp\<close> returns, and afterwards the search for an inode yields exactly the first row with that
  inode, its addresses, ports, state and queues as printed, and nothing for any other inode.
\<close>

theorem tcp_rows_found:
  assumes "it_tab t = None" "n \<le> 1073741824" "\<forall>r \<in> set rs. tcp_row_ok r"
  shows "\<exists>t1. get_tcpudp ept (Some (sockstat_text n # others)) (Some (tcp_title_text # map tcp_text rs)) pr clr t = Some t1 \<and>
    (\<forall>i. check_tcpudp t1 i = map_option (\<lambda>r. (tcp_entry pr r, inet_proto pr)) (List.find (\<lambda>r. of_nat (tr_inode r) = i) rs))"
proof -
  obtain b where "sockstat_bucks (sockstat_text n # others) = Some b" using sockstat_bucks_ok [OF assms(2)] by blast
  from get_tcpudp_rows [OF assms(1) this assms(3)] obtain t1 where
    "get_tcpudp ept (Some (sockstat_text n # others)) (Some (tcp_title_text # map tcp_text rs)) pr clr t = Some t1"
    "\<forall>i. check_inet t1 i = map_option (tcp_entry pr) (List.find (\<lambda>r. of_nat (tr_inode r) = i) rs)" by blast
  moreover have "tu_proto (tcp_entry pr r) = pr" for r by (simp add: tcp_entry_def)
  ultimately show ?thesis by (intro exI [of _ t1]) (auto simp: check_tcpudp_def option.map_comp comp_def)
qed

definition tcp_row_ex :: tcp_row where
  "tcp_row_ex = \<lparr> tr_sl = 0, tr_laddr = 16777343, tr_lport = 22, tr_faddr = 0, tr_fport = 0, tr_state = 10, tr_txq = 0, tr_rxq = 0,
    tr_timer = 0, tr_when = 0, tr_retr = 0, tr_uid = 0, tr_timeout = 0, tr_inode = 17042, tr_more = ''1 0'' @ [nl] \<rparr>"

theorem tcp_rows_found_witness:
  "\<exists>t1. get_tcpudp False (Some [sockstat_text 300]) (Some [tcp_title_text, tcp_text tcp_row_ex]) 0 True inet_new = Some t1 \<and>
    check_tcpudp t1 17042 = Some (tcp_entry 0 tcp_row_ex, ''TCP'') \<and> check_tcpudp t1 17043 = None"
proof -
  have "tcp_row_ok tcp_row_ex" by (simp add: tcp_row_ok_def tcp_row_ex_def ULONG_MAX_def)
  moreover have "tr_inode tcp_row_ex = 17042" by (simp add: tcp_row_ex_def)
  ultimately show ?thesis
    using tcp_rows_found [of inet_new 300 "[tcp_row_ex]" False "[]" 0 True] by (auto simp: inet_new_def inet_proto_def)
qed

text \<open>A row of \<open>/proc/net/unix\<close> with a path.\<close>

record ux_row =
  xr_pcb :: nat
  xr_refs :: nat
  xr_proto :: nat
  xr_flags :: nat
  xr_type :: nat
  xr_state :: nat
  xr_inode :: nat
  xr_path :: cstring

definition hex_lower :: "nat \<Rightarrow> nat \<Rightarrow> cstring" where
  "hex_lower w n = replicate (w - length (hex_str n)) (CHR ''0'') @ hex_str n"

definition unix_text :: "ux_row \<Rightarrow> cstring" where
  "unix_text r = hex_lower 16 (xr_pcb r) @ CHR '':'' # blank # hex_upper 8 (xr_refs r) @ blank # hex_upper 8 (xr_proto r) @ blank #
    hex_upper 8 (xr_flags r) @ blank # hex_upper 4 (xr_type r) @ blank # hex_upper 2 (xr_state r) @ blank #
    right_al 5 (dec_str (xr_inode r)) @ blank # xr_path r @ [nl]"

definition unix_title_text :: cstring where
  "unix_title_text = ''Num       RefCount Protocol Flags    Type St Inode Path'' @ [nl]"

text \<open>A path ends for \<open>get_fields\<close> at the first blank, tab, newline or colon.\<close>

definition path_char :: "char \<Rightarrow> bool" where
  "path_char c \<longleftrightarrow> c \<noteq> nl \<and> c \<noteq> tab \<and> c \<noteq> blank \<and> c \<noteq> CHR '':''"

definition ux_row_ok :: "ux_row \<Rightarrow> bool" where
  "ux_row_ok r \<longleftrightarrow> xr_flags r < 4294967296 \<and> xr_type r < 65536 \<and> xr_state r < 256 \<and> xr_inode r < ULONG_MAX \<and>
    xr_path r \<noteq> [] \<and> path_char (hd (xr_path r))"

definition ux_entry :: "(cstring \<Rightarrow> statb option) \<Rightarrow> ux_row \<Rightarrow> uxsin" where
  "ux_entry stat r = (let p = takeWhile path_char (xr_path r) in
    \<lparr> ux_inode = of_nat (xr_inode r), ux_pcb = Some (''0x'' @ hex_lower 16 (xr_pcb r)), ux_path = Some p,
      ux_sb = (if hd p = CHR ''/'' then Option.bind (stat p) (\<lambda>sb. if S_IFSOCK_mode (st_mode sb) then Some sb else None) else None),
      ux_ty = xr_type r, ux_opt = xr_flags r, ux_ss = xr_state r \<rparr>)"

lemma gf_scan_path: "fst (gf_scan '':'' False (s @ [nl])) = takeWhile path_char s"
  by (induction s) (auto simp: path_char_def split: prod.splits)

lemma get_fields_path:
  assumes "s \<noteq> []" "path_char (hd s)"
  shows "\<exists>fs. get_fields_from '':'' [] n (s @ [nl]) = takeWhile path_char s # fs"
proof -
  obtain c s' where s: "s = c # s'" using assms(1) by (cases s) auto
  moreover have "dropWhile (\<lambda>c. c = blank \<or> c = tab) (s @ [nl]) = s @ [nl]" "c \<noteq> nl" using assms s by (auto simp: path_char_def)
  ultimately show ?thesis
    using gf_scan_path [of s] by (subst get_fields_from.simps) (auto simp del: gf_scan.simps split: prod.splits)
qed

lemma hex_lower_plain [simp]: "plain_field (hex_lower w n)" "CHR '':'' \<notin> set (hex_lower w n)" "hex_lower w n \<noteq> []"
  using hex_str_chars [of n] hex_str_nonempty [of n] hex_char_class
  by (auto simp: hex_lower_def plain_field_def list_all_iff is_hex_char_def isdigit_c_def)

lemma row_entry_unix:
  assumes "ux_row_ok r"
  shows "row_entry 7 '':'' (unix_line stat) (unix_text r) = Some (ux_entry stat r)"
proof -
  obtain fs where "get_fields_from '':'' [] (Suc (Suc (Suc (Suc (Suc (Suc (Suc 0))))))) (xr_path r @ [nl]) = takeWhile path_char (xr_path r) # fs"
    using get_fields_path assms unfolding ux_row_ok_def by blast
  then have fs: "get_fields (unix_text r) '':'' [] =
    hex_lower 16 (xr_pcb r) # hex_upper 8 (xr_refs r) # hex_upper 8 (xr_proto r) # hex_upper 8 (xr_flags r) # hex_upper 4 (xr_type r) #
    hex_upper 2 (xr_state r) # dec_str (xr_inode r) # takeWhile path_char (xr_path r) # fs"
    unfolding get_fields_def unix_text_def by (simp add: get_fields_end)
  have v: "strtoul 16 (hex_upper w n) = (n, [])" if "n < 4294967296" for w n
    using that strtoul_hex [OF hex_upper_chars, of w n] by (simp add: base_value_hex_upper ULONG_MAX_def)
  have "takeWhile path_char (xr_path r) \<noteq> []" using assms by (cases "xr_path r") (auto simp: ux_row_ok_def)
  moreover have "ux_number (hex_upper 8 (xr_flags r)) = xr_flags r" "ux_number (hex_upper 2 (xr_state r)) = xr_state r"
    "ux_type (hex_upper 4 (xr_type r)) = xr_type r" "ul_field 0 (dec_str (xr_inode r)) = Some (xr_inode r)"
    using assms by (simp_all add: ux_row_ok_def ux_number_def ux_type_def v ULONG_MAX_def)
  ultimately show ?thesis
    by (simp add: row_entry_def fs unix_line_def ino_field_def ux_entry_def text_field_def Let_def del: takeWhile_eq_Nil_iff split: option.split)
qed

lemma unix_title_fields:
  "get_fields unix_title_text '':'' [] = [''Num'', ''RefCount'', ''Protocol'', ''Flags'', ''Type'', ''St'', ''Inode'', ''Path'']"
  unfolding get_fields_def unix_title_text_def by (simp add: get_fields_from.simps)

text \<open>
  C15: every UNIX domain socket of the kernel's table with a path is found by its inode, with its control block, type,
  flags and state; its path is only what precedes the first blank, tab, newline or colon, and the file of that shorter name is
  the one that is examined for the device and inode.
\<close>

theorem unix_rows_found:
  assumes "\<forall>r \<in> set rs. ux_row_ok r"
  shows "\<exists>t1. get_unix False stat diag (Some (unix_title_text # map unix_text rs)) t = Done t1 \<and>
    (\<forall>i. check_unix t1 i = map_option (ux_entry stat) (List.find (\<lambda>r. of_nat (xr_inode r) = i) rs))"
proof -
  have "List.map_filter (row_entry 7 '':'' (unix_line stat)) (map unix_text rs) = map (ux_entry stat) rs"
    using assms by (intro map_filter_all) (simp add: row_entry_unix)
  moreover have "ux_inode (ux_entry stat r) = of_nat (xr_inode r)" for r by (simp add: ux_entry_def Let_def)
  ultimately have "check_unix (read_titled 7 '':'' unix_title 7 '':'' (unix_line stat) add_unix (unix_title_text # map unix_text rs)
      (t\<lparr> ut_tab := no_rows \<rparr>)) i = map_option (ux_entry stat) (List.find (\<lambda>r. of_nat (xr_inode r) = i) rs)" for i
    by (subst ux.find_titled) (simp_all add: unix_title_fields unix_title_def no_rows_def, simp add: check_unix_def hash_find_element_def find_map_entry)
  then show ?thesis unfolding get_unix_def by (simp add: Let_def del: read_titled.simps)
qed

definition ux_row_ex :: ux_row where
  "ux_row_ex = \<lparr> xr_pcb = 4096, xr_refs = 2, xr_proto = 0, xr_flags = 65536, xr_type = 1, xr_state = 1, xr_inode = 20101,
    xr_path = ''/run/a b'' \<rparr>"

theorem unix_rows_found_witness:
  "\<exists>t1. get_unix False (\<lambda>_. None) None (Some [unix_title_text, unix_text ux_row_ex]) ux_new = Done t1 \<and>
    map_option ux_path (check_unix t1 20101) = Some (Some ''/run/a'') \<and> check_unix t1 20102 = None"
proof -
  have "ux_row_ok ux_row_ex" by (simp add: ux_row_ok_def ux_row_ex_def path_char_def ULONG_MAX_def)
  moreover have "xr_inode ux_row_ex = 20101" "ux_path (ux_entry (\<lambda>_. None) ux_row_ex) = Some ''/run/a''"
    by (simp_all add: ux_row_ex_def ux_entry_def path_char_def)
  ultimately show ?thesis using unix_rows_found [of "[ux_row_ex]" "\<lambda>_. None" None ux_new] by auto
qed

end
