(* ===== verification/Net_Peers.thy ===== *)
theory Net_Peers
  imports Net_Tables
begin

text \<open>
  The endpoints of sockets (\<open>src/lib/dialects/linux/dsock.c\<close>): the linking of the Internet sockets of local
  processes with their peers, and the marking and printing of the files at the other end.
\<close>

section \<open>The files at the other end\<close>

definition CHEND_UXS :: flags32 where [flag_simps]: "CHEND_UXS = 0x04"
definition CHEND_NETS :: flags32 where [flag_simps]: "CHEND_NETS = 0x08"
definition CHEND_NETS6 :: flags32 where [flag_simps]: "CHEND_NETS6 = 0x20"

definition LSOF_FILE_IPV4 :: nat where "LSOF_FILE_IPV4 = 8"
definition LSOF_FILE_IPV6 :: nat where "LSOF_FILE_IPV6 = 9"
definition LSOF_FILE_UNIX :: nat where "LSOF_FILE_UNIX = 14"

text \<open>
  \<open>enter_netsinfo_common\<close> and \<open>enter_uxsinfo\<close>: the current file \<open>l\<close>, the next of the last process, goes to the front of the
  socket's list unless the descriptor is there.
\<close>

definition enter_netsinfo_common :: "lproc list \<Rightarrow> lfile \<Rightarrow> pxinfo list \<Rightarrow> pxinfo list" where
  "enter_netsinfo_common ps l pxs =
    (let p = last ps in
     if list_ex (\<lambda>pi. px_ino pi = lf_inode l \<and> same_fd ps (lp_pid p) l pi) pxs then pxs
     else \<lparr> px_ino = lf_inode l, px_lf = length (lp_file p), px_lpx = length ps - 1 \<rparr> # pxs)"

definition enter_netsinfo :: "lproc list \<Rightarrow> lfile \<Rightarrow> 64 word \<Rightarrow> 'e inet_tab \<Rightarrow> 'e inet_tab" where
  "enter_netsinfo ps l i t = t\<lparr> it_px := (it_px t)(i := enter_netsinfo_common ps l (it_px t i)) \<rparr>"

definition enter_uxsinfo :: "lproc list \<Rightarrow> lfile \<Rightarrow> 64 word \<Rightarrow> ux_tab \<Rightarrow> ux_tab" where
  "enter_uxsinfo ps l i t = t\<lparr> ut_px := (ut_px t)(i := enter_netsinfo_common ps l (ut_px t i)) \<rparr>"

definition find_netsepti :: "tcp_udp inet_tab \<Rightarrow> lfile \<Rightarrow> 64 word option" where
  "find_netsepti t l = (case check_inet t (lf_inode l) of None \<Rightarrow> None | Some tp \<Rightarrow> it_peer t (tu_inode tp))"

definition find_nets6epti :: "tcp_udp6 inet_tab \<Rightarrow> lfile \<Rightarrow> 64 word option" where
  "find_nets6epti t l = (case check_inet6 t (lf_inode l) of None \<Rightarrow> None | Some tp \<Rightarrow> it_peer t (tu6_inode tp))"

definition find_uxepti :: "ux_tab \<Rightarrow> lfile \<Rightarrow> 64 word option" where
  "find_uxepti t l = (case check_unix t (lf_inode l) of None \<Rightarrow> None | Some up \<Rightarrow> ut_peer t (ux_inode up))"

text \<open>\<open>prt_nets_common\<close> adds the files of the peer to the name of the current file.\<close>

definition prt_nets_common ::
  "nat \<Rightarrow> flags32 \<Rightarrow> flags32 \<Rightarrow> nat \<Rightarrow> nat \<Rightarrow> bool \<Rightarrow> pxinfo list \<Rightarrow> lproc list \<Rightarrow> lproc list" where
  "prt_nets_common cmdlim chend ept i j later pxs ps = fold (prt_peer cmdlim chend ept i j [] later) pxs ps"

definition prt_nets :: "nat \<Rightarrow> nat \<Rightarrow> nat \<Rightarrow> bool \<Rightarrow> pxinfo list \<Rightarrow> lproc list \<Rightarrow> lproc list" where
  "prt_nets cmdlim i j later pxs ps = prt_nets_common cmdlim CHEND_NETS EPT_NETS_END i j later pxs ps"

definition prt_nets6 :: "nat \<Rightarrow> nat \<Rightarrow> nat \<Rightarrow> bool \<Rightarrow> pxinfo list \<Rightarrow> lproc list \<Rightarrow> lproc list" where
  "prt_nets6 cmdlim i j later pxs ps = prt_nets_common cmdlim CHEND_NETS6 EPT_NETS6_END i j later pxs ps"

text \<open>The peer's files; an entry without an inode number is not looked at.\<close>

definition peer_files :: "64 word option \<Rightarrow> (64 word \<Rightarrow> pxinfo list) \<Rightarrow> pxinfo list" where
  "peer_files p px = (case p of None \<Rightarrow> [] | Some i \<Rightarrow> if i = 0 then [] else px i)"

definition process_netsinfo :: "nat \<Rightarrow> lsof_context \<Rightarrow> tcp_udp inet_tab \<Rightarrow> nat \<Rightarrow> nat \<Rightarrow> lproc list \<Rightarrow> lproc list" where
  "process_netsinfo cmdlim ctx t f i ps =
    process_files ctx f i (\<lambda>l. lf_type l = LSOF_FILE_IPV4) CHEND_NETS
      (\<lambda>j later l. prt_nets cmdlim i j later (peer_files (find_netsepti t l) (it_px t))) ps"

definition process_nets6info :: "nat \<Rightarrow> lsof_context \<Rightarrow> tcp_udp6 inet_tab \<Rightarrow> nat \<Rightarrow> nat \<Rightarrow> lproc list \<Rightarrow> lproc list" where
  "process_nets6info cmdlim ctx t f i ps =
    process_files ctx f i (\<lambda>l. lf_type l = LSOF_FILE_IPV6) CHEND_NETS6
      (\<lambda>j later l. prt_nets6 cmdlim i j later (peer_files (find_nets6epti t l) (it_px t))) ps"

text \<open>
  UNIX domain sockets: the peer's inode number comes first, and there are the connections that wait to be
  accepted.  \<open>None\<close> is a chain of them with a cycle that does not lead back to the socket.
\<close>

definition prt_uxs :: "nat \<Rightarrow> ux_tab \<Rightarrow> nat \<Rightarrow> nat \<Rightarrow> bool \<Rightarrow> 64 word \<Rightarrow> lproc list \<Rightarrow> lproc list" where
  "prt_uxs cmdlim t i j later p ps =
    fold (prt_peer cmdlim CHEND_UXS EPT_UXS_END i j [] later) (ut_px t p)
      (upd_file i j (add_nma (''->INO='' @ dec_str (unat p))) ps)"

partial_function (option) icons_chain :: "(64 word \<Rightarrow> 64 word option) \<Rightarrow> 64 word \<Rightarrow> 64 word option \<Rightarrow> 64 word list option" where
  "icons_chain icons tp p =
    (case p of
       None \<Rightarrow> Some []
     | Some q \<Rightarrow> if q = tp then Some [] else Option.bind (icons_chain icons tp (icons q)) (\<lambda>qs. Some (q # qs)))"

definition prt_icons :: "nat \<Rightarrow> ux_tab \<Rightarrow> nat \<Rightarrow> nat \<Rightarrow> bool \<Rightarrow> lfile \<Rightarrow> lproc list \<Rightarrow> lproc list option" where
  "prt_icons cmdlim t i j later l ps =
    (case check_unix t (lf_inode l) of
       None \<Rightarrow> Some ps
     | Some tp \<Rightarrow>
        Option.bind (icons_chain (ut_icons t) (ux_inode tp) (ut_icons t (ux_inode tp)))
          (\<lambda>qs. Some (fold (\<lambda>q ps1. if q = 0 then ps1 else prt_uxs cmdlim t i j later q ps1) qs ps)))"

definition process_uxs_file :: "nat \<Rightarrow> lsof_context \<Rightarrow> ux_tab \<Rightarrow> nat \<Rightarrow> nat \<Rightarrow> nat \<Rightarrow> lproc list \<Rightarrow> lproc list option" where
  "process_uxs_file cmdlim ctx t f i j ps =
    (let l = lp_file (ps ! i) ! j; p = (case find_uxepti t l of None \<Rightarrow> 0 | Some p \<Rightarrow> p) in
     if lf_type l \<noteq> LSOF_FILE_UNIX then Some ps
     else if f = 0 then
       (if is_file_sel ctx (Some l) then
          prt_icons cmdlim t i j (fepte ctx = 2) l (if p = 0 then ps else prt_uxs cmdlim t i j (fepte ctx = 2) p ps)
        else Some ps)
     else if \<not> is_file_sel ctx (Some l) \<and> has_flag (lf_chend l) CHEND_UXS then
       (let ps1 = upd_proc i (\<lambda>p. p\<lparr> lp_pss := lp_pss p OR PS_SEC \<rparr>) (upd_file i j (\<lambda>l. l\<lparr> lf_sf := selflags ctx \<rparr>) ps) in
        if p = 0 then prt_icons cmdlim t i j False l ps1 else Some (prt_uxs cmdlim t i j False p ps1))
     else Some ps)"

definition process_uxsinfo :: "nat \<Rightarrow> lsof_context \<Rightarrow> ux_tab \<Rightarrow> nat \<Rightarrow> nat \<Rightarrow> lproc list \<Rightarrow> lproc list option" where
  "process_uxsinfo cmdlim ctx t f i ps =
    (if fepte ctx = 0 then Some ps
     else fold (\<lambda>j r. Option.bind r (process_uxs_file cmdlim ctx t f i j)) [0..<length (lp_file (ps ! i))] (Some ps))"

section \<open>The peers of the sockets used between local processes\<close>

lemma find_member: "List.find P xs = Some x \<Longrightarrow> x \<in> set xs \<and> P x"
  by (induction xs) (auto split: if_splits)

lemma fold_dom:
  assumes "\<And>x p. dom p \<subseteq> dom (g x p)"
  shows "dom p \<subseteq> dom (fold g xs p)"
proof (induction xs arbitrary: p)
  case (Cons x xs)
  show ?case using Cons.IH [of "g x p"] assms [of p x] by auto
qed simp

lemma fold_settles:
  assumes "\<And>x p. dom p \<subseteq> dom (g x p)" "\<And>x p. Q x (g x p)" "\<And>x p p'. Q x p \<Longrightarrow> dom p \<subseteq> dom p' \<Longrightarrow> Q x p'" "x \<in> set xs"
  shows "Q x (fold g xs p)"
  using assms(4)
proof (induction xs arbitrary: p)
  case (Cons y ys)
  have "dom (g y p) \<subseteq> dom (fold g ys (g y p))" by (rule fold_dom) (rule assms(1))
  then have "Q y (fold g ys (g y p))" by (rule assms(3) [OF assms(2)])
  with Cons show ?case by auto
qed simp

lemma pair_one_dom: "dom p \<subseteq> dom (pair_one key opp chain tp p)"
  by (auto simp: pair_one_def split: option.split)

text \<open>An entry of a chain is settled when it has a peer, or no entry without one is its opposite.\<close>

definition settled :: "('e \<Rightarrow> 64 word) \<Rightarrow> ('e \<Rightarrow> 'e \<Rightarrow> bool) \<Rightarrow> 'e list \<Rightarrow> 'e \<Rightarrow> (64 word \<Rightarrow> 64 word option) \<Rightarrow> bool" where
  "settled key opp chain e p \<longleftrightarrow> p (key e) \<noteq> None \<or> (\<forall>f \<in> set chain. opp e f \<longrightarrow> p (key f) \<noteq> None)"

lemma settled_mono: "settled key opp chain e p \<Longrightarrow> dom p \<subseteq> dom p' \<Longrightarrow> settled key opp chain e p'"
  unfolding settled_def dom_def by blast

lemma pair_one_settles: "settled key opp chain e (pair_one key opp chain e p)"
  by (auto simp: settled_def pair_one_def find_None_iff split: option.split)

lemma get_netpeeri_settles:
  assumes "e \<in> set (ipc h)" "h < nat IPCBUCKS"
  shows "settled key opp (ipc h) e (get_netpeeri key opp ipc p)"
proof -
  let ?g = "\<lambda>h. fold (pair_one key opp (ipc h)) (ipc h)"
  have d: "dom p \<subseteq> dom (?g h p)" for h p by (rule fold_dom) (rule pair_one_dom)
  have "settled key opp (ipc h) e (?g h p)" if "e \<in> set (ipc h)" for h p e
    by (rule fold_settles [where Q = "settled key opp (ipc h)", OF pair_one_dom pair_one_settles settled_mono that])
  then have "\<forall>e \<in> set (ipc h). settled key opp (ipc h) e (fold ?g [0..<nat IPCBUCKS] p)"
    by (intro fold_settles [where Q = "\<lambda>h p. \<forall>e \<in> set (ipc h). settled key opp (ipc h) e p"] d)
      (use assms(2) in \<open>auto elim: settled_mono\<close>)
  then show ?thesis using assms(1) by (simp add: get_netpeeri_def)
qed

text \<open>The peers of the entries \<open>E\<close>: mutual, and opposite.\<close>

definition paired :: "('e \<Rightarrow> 64 word) \<Rightarrow> ('e \<Rightarrow> 'e \<Rightarrow> bool) \<Rightarrow> 'e set \<Rightarrow> (64 word \<Rightarrow> 64 word option) \<Rightarrow> bool" where
  "paired key opp E p \<longleftrightarrow> (\<forall>e \<in> E. \<forall>b. p (key e) = Some b \<longrightarrow> (\<exists>f \<in> E. key f = b \<and> opp e f \<and> p b = Some (key e)))"

lemma pair_one_paired:
  assumes "paired key opp E p" "inj_on key E" "tp \<in> E" "set chain \<subseteq> E" "\<And>a b. opp a b \<Longrightarrow> opp b a"
  shows "paired key opp E (pair_one key opp chain tp p)"
proof (cases "\<exists>np. List.find (\<lambda>np. p (key np) = None \<and> opp tp np) chain = Some np \<and> p (key tp) = None")
  case True
  then obtain np where f: "List.find (\<lambda>np. p (key np) = None \<and> opp tp np) chain = Some np" "p (key tp) = None" by blast
  then have p: "pair_one key opp chain tp p = p(key tp \<mapsto> key np, key np \<mapsto> key tp)" by (simp add: pair_one_def)
  have np: "np \<in> set chain" "opp tp np" "p (key np) = None" using find_member [OF f(1)] by auto
  show ?thesis unfolding paired_def
  proof (intro ballI allI impI)
    fix e b assume e: "e \<in> E" "pair_one key opp chain tp p (key e) = Some b"
    have "e = tp \<or> e = np \<or> key e \<noteq> key tp \<and> key e \<noteq> key np"
      using inj_onD [OF assms(2) _ e(1) assms(3)] inj_onD [OF assms(2) _ e(1), of np] np(1) assms(4) by blast
    then show "\<exists>f \<in> E. key f = b \<and> opp e f \<and> pair_one key opp chain tp p b = Some (key e)"
    proof (elim disjE)
      assume "e = tp"
      then have "b = key np" using e(2) p by (simp split: if_splits)
      then show ?thesis using \<open>e = tp\<close> p np(1,2) assms(4) by (intro bexI [of _ np]) auto
    next
      assume "e = np"
      then have "b = key tp" using e(2) p by simp
      then show ?thesis using \<open>e = np\<close> p assms(3) assms(5) [OF np(2)] by (intro bexI [of _ tp]) simp_all
    next
      assume o: "key e \<noteq> key tp \<and> key e \<noteq> key np"
      then have "p (key e) = Some b" using e(2) p by simp
      then obtain f where f1: "f \<in> E" "key f = b" "opp e f" "p b = Some (key e)"
        using assms(1) e(1) unfolding paired_def by blast
      then have "b \<noteq> key tp" "b \<noteq> key np" using f(2) np(3) by auto
      with f1 show ?thesis using p by (intro bexI [of _ f]) simp_all
    qed
  qed
next
  case False
  then have "pair_one key opp chain tp p = p"
    by (cases "List.find (\<lambda>np. p (key np) = None \<and> opp tp np) chain") (simp_all add: pair_one_def)
  then show ?thesis using assms(1) by simp
qed

lemma pair_one_outside: "tp \<in> set chain \<Longrightarrow> i \<notin> key ` set chain \<Longrightarrow> pair_one key opp chain tp p i = p i"
  using find_member by (fastforce simp: pair_one_def split: option.split)

lemma fold_keeps:
  assumes "\<And>x p. x \<in> set xs \<Longrightarrow> P p \<Longrightarrow> P (g x p)" "P p"
  shows "P (fold g xs p)"
  using assms
proof (induction xs arbitrary: p)
  case (Cons x xs)
  have "P (g x p)" by (rule Cons.prems) (simp_all add: Cons.prems(2))
  moreover have "P (g y q)" if "y \<in> set xs" "P q" for y q using that by (intro Cons.prems(1)) simp_all
  ultimately show ?case using Cons.IH [of "g x p"] by simp
qed simp

lemma get_netpeeri_paired:
  assumes "paired key opp E p" "inj_on key E" "\<And>h. set (ipc h) \<subseteq> E" "\<And>a b. opp a b \<Longrightarrow> opp b a"
  shows "paired key opp E (get_netpeeri key opp ipc p)"
proof -
  have one: "paired key opp E (pair_one key opp (ipc h) x q)" if "x \<in> set (ipc h)" "paired key opp E q" for h x q
    by (rule pair_one_paired [OF that(2) assms(2) _ assms(3) assms(4)]) (use that(1) assms(3) in auto)
  have chain: "paired key opp E (fold (pair_one key opp (ipc h)) (ipc h) q)" if "paired key opp E q" for h q
    by (rule fold_keeps [where P = "paired key opp E"]) (rule one that | assumption)+
  show ?thesis unfolding get_netpeeri_def
    by (rule fold_keeps [where P = "paired key opp E"]) (rule chain assms(1) | assumption)+
qed

lemma get_netpeeri_outside:
  assumes "\<And>h. i \<notin> key ` set (ipc h)"
  shows "get_netpeeri key opp ipc p i = p i"
proof -
  have "fold (pair_one key opp (ipc h)) (ipc h) q i = q i" for h q
    by (rule fold_keeps [where P = "\<lambda>r. r i = q i"]) (use assms [of h] in \<open>auto simp: pair_one_outside\<close>)
  note chain = this
  show ?thesis unfolding get_netpeeri_def by (rule fold_keeps [where P = "\<lambda>r. r i = p i"]) (simp_all add: chain)
qed

text \<open>
  The invariant of a table: the chains hold exactly its established entries, each in the chain of its hash; a
  peer is mutual, established and opposite; and no two established opposite entries are both without a peer.
\<close>

definition est_entries :: "('e \<Rightarrow> 64 word) \<Rightarrow> ('e \<Rightarrow> int) \<Rightarrow> 'e inet_tab \<Rightarrow> 'e set" where
  "est_entries key state t = {e. hash_find_element key (ino_hash (it_bucks t)) (it_tab t) (key e) = Some e \<and> state e = TCP_ESTABLISHED}"

definition chains_ok :: "('e \<Rightarrow> 64 word) \<Rightarrow> ('e \<Rightarrow> int) \<Rightarrow> ('e \<Rightarrow> nat) \<Rightarrow> ('e \<Rightarrow> 'e \<Rightarrow> bool) \<Rightarrow> 'e inet_tab \<Rightarrow> bool" where
  "chains_ok key state ipch opp t \<longleftrightarrow>
    (\<forall>ipc. it_ipc t = Some ipc \<longrightarrow> (\<forall>h. set (ipc h) = {e \<in> est_entries key state t. ipch e = h})) \<and>
    paired key opp (est_entries key state t) (it_peer t)"

definition peers_full :: "('e \<Rightarrow> 64 word) \<Rightarrow> ('e \<Rightarrow> int) \<Rightarrow> ('e \<Rightarrow> 'e \<Rightarrow> bool) \<Rightarrow> 'e inet_tab \<Rightarrow> bool" where
  "peers_full key state opp t \<longleftrightarrow>
    (\<forall>e \<in> est_entries key state t. \<forall>f \<in> est_entries key state t. opp e f \<longrightarrow> it_peer t (key e) \<noteq> None \<or> it_peer t (key f) \<noteq> None)"

lemma est_inj: "inj_on key (est_entries key state t)"
  by (rule inj_onI) (auto simp: est_entries_def)

lemma est_cong: "it_tab t' = it_tab t \<Longrightarrow> it_bucks t' = it_bucks t \<Longrightarrow> est_entries key state t' = est_entries key state t"
  by (simp add: est_entries_def)

lemma est_none [simp]: "it_tab t = no_rows \<Longrightarrow> est_entries key state t = {}" "it_tab t = None \<Longrightarrow> est_entries key state t = {}"
  by (simp_all add: est_entries_def) (simp add: hash_find_element_def)

locale ipc_pairs =
  fixes key :: "'e \<Rightarrow> 64 word"
    and state :: "'e \<Rightarrow> int"
    and ipch :: "'e \<Rightarrow> nat"
    and opp :: "'e \<Rightarrow> 'e \<Rightarrow> bool"
  assumes opp_sym: "opp a b \<Longrightarrow> opp b a"
    and opp_hash: "opp a b \<Longrightarrow> ipch a = ipch b"
    and ipch_bucks: "ipch e < nat IPCBUCKS"
begin

lemma add_ok:
  assumes "it_tab t \<noteq> None" "chains_ok key state ipch opp t"
  shows "chains_ok key state ipch opp (add_inet True key state ipch e t)"
proof (cases "hash_find_element key (ino_hash (it_bucks t)) (it_tab t) (key e)")
  case (Some f)
  then show ?thesis using assms(2) by (simp add: add_inet_def)
next
  case None
  let ?t = "add_inet True key state ipch e t"
  let ?E = "est_entries key state t"
  have E: "est_entries key state ?t = ?E \<union> {f. f = e \<and> state e = TCP_ESTABLISHED}" and n: "\<And>f. f \<in> ?E \<Longrightarrow> key f \<noteq> key e"
    using None assms(1) by (auto simp: est_entries_def add_inet_def find_insert_element)
  have p: "it_peer ?t = (it_peer t)(key e := None)" using None by (simp add: add_inet_def)
  have "paired key opp (est_entries key state ?t) (it_peer ?t)"
    using assms(2) n unfolding E p chains_ok_def paired_def by fastforce
  moreover have "set (ipc' h) = {f \<in> est_entries key state ?t. ipch f = h}" if "it_ipc ?t = Some ipc'" for ipc' h
    using that None assms(2) unfolding E chains_ok_def by (auto simp: add_inet_def split: if_splits)
  ultimately show ?thesis by (simp add: chains_ok_def)
qed

lemma empty_ok:
  assumes "it_tab t = no_rows" "it_ipc t = Some (\<lambda>_. [])"
  shows "it_tab t \<noteq> None \<and> chains_ok key state ipch opp t \<and> peers_full key state opp t"
  using assms by (simp add: chains_ok_def peers_full_def paired_def) (simp add: no_rows_def)

lemma start_ok:
  assumes "chains_ok key state ipch opp t" "peers_full key state opp t" "inet_start True bucks clr t = Some t'"
  shows "it_tab t' \<noteq> None \<and> chains_ok key state ipch opp t' \<and> peers_full key state opp t'"
proof (cases "it_tab t' = no_rows \<and> it_ipc t' = Some (\<lambda>_. [])")
  case True
  then show ?thesis using empty_ok by blast
next
  case False
  then have "t' = t" "it_tab t \<noteq> None" using assms(3) by (auto simp: inet_start_def split: if_splits option.splits)
  then show ?thesis using assms(1,2) by simp
qed

lemma peers_ok:
  assumes "chains_ok key state ipch opp t" "it_ipc t = Some ipc"
  defines "t' \<equiv> t\<lparr> it_peer := get_netpeeri key opp ipc (it_peer t) \<rparr>"
  shows "chains_ok key state ipch opp t' \<and> peers_full key state opp t'"
proof -
  let ?E = "est_entries key state t"
  have E: "est_entries key state t' = ?E" by (rule est_cong) (simp_all add: t'_def)
  have c: "set (ipc h) = {e \<in> ?E. ipch e = h}" for h using assms(1,2) by (simp add: chains_ok_def)
  have p: "it_peer t' = get_netpeeri key opp ipc (it_peer t)" "it_ipc t' = it_ipc t" by (simp_all add: t'_def)
  have "paired key opp ?E (it_peer t)" using assms(1) by (simp add: chains_ok_def)
  then have "paired key opp ?E (it_peer t')"
    unfolding p by (rule get_netpeeri_paired [OF _ est_inj _ opp_sym]) (use c in auto)
  then have "chains_ok key state ipch opp t'" using c assms(2) by (simp add: chains_ok_def E p(2))
  moreover have "it_peer t' (key e) \<noteq> None \<or> it_peer t' (key f) \<noteq> None" if "e \<in> ?E" "f \<in> ?E" "opp e f" for e f
  proof -
    have "settled key opp (ipc (ipch e)) e (it_peer t')" unfolding p by (rule get_netpeeri_settles) (use that c ipch_bucks in auto)
    then show ?thesis using that c opp_hash [OF that(3)] unfolding settled_def by auto
  qed
  ultimately show ?thesis unfolding peers_full_def E by blast
qed

lemma get_inet_ok:
  assumes "chains_ok key state ipch opp t" "peers_full key state opp t"
    "get_inet True key state ipch opp rem line bucks file clr t = Some t'"
  shows "chains_ok key state ipch opp t' \<and> peers_full key state opp t'"
proof -
  obtain t1 where t1: "inet_start True bucks clr t = Some t1" using assms(3) by (auto simp: get_inet_def split: option.splits)
  note s = start_ok [OF assms(1,2) t1]
  let ?t2 = "\<lambda>bufs. read_titled 12 [] (tcp_title rem) 14 '':'' line (add_inet True key state ipch) bufs t1"
  have "it_tab (?t2 bufs) \<noteq> None \<and> chains_ok key state ipch opp (?t2 bufs)" for bufs
    by (rule read_titled_keeps [where P = "\<lambda>t. it_tab t \<noteq> None \<and> chains_ok key state ipch opp t"])
      (use s add_ok in \<open>auto simp: add_inet_def\<close>)
  then show ?thesis using s assms(3) t1 peers_ok by (auto simp: get_inet_def Let_def split: option.splits)
qed

end

interpretation tcp_pairs: ipc_pairs tu_inode tu_state TCPUDP_IPC_HASH tcp_opposite
proof
  show "tcp_opposite a b \<Longrightarrow> tcp_opposite b a" for a b by (simp add: tcp_opposite_def)
  show "tcp_opposite a b \<Longrightarrow> TCPUDP_IPC_HASH a = TCPUDP_IPC_HASH b" for a b
    by (simp add: tcp_opposite_def TCPUDP_IPC_HASH_def add.assoc add.commute add.left_commute)
  have "unat ((x :: 64 word) AND 4095) < 4096" for x using word_and_le1 [of x 4095] by (simp add: word_le_nat_alt)
  then show "TCPUDP_IPC_HASH e < nat IPCBUCKS" for e unfolding TCPUDP_IPC_HASH_def IPCBUCKS_def by simp
qed

interpretation tcp6_pairs: ipc_pairs tu6_inode tu6_state TCPUDP6_IPC_HASH tcp6_opposite
proof
  show "tcp6_opposite a b \<Longrightarrow> tcp6_opposite b a" for a b by (simp add: tcp6_opposite_def)
  show "tcp6_opposite a b \<Longrightarrow> TCPUDP6_IPC_HASH a = TCPUDP6_IPC_HASH b" for a b
    by (simp add: tcp6_opposite_def TCPUDP6_IPC_HASH_def add.assoc add.commute add.left_commute)
  show "TCPUDP6_IPC_HASH e < nat IPCBUCKS" for e by (simp add: TCPUDP6_IPC_HASH_def IPCBUCKS_def)
qed

text \<open>The tables of several files read one after the other, as \<open>process_proc_sock\<close> reads TCP, UDP and UDPLITE.\<close>

fun read_inets :: "(cstring list option \<times> cstring list option \<times> int \<times> bool) list \<Rightarrow> tcp_udp inet_tab \<Rightarrow> tcp_udp inet_tab option" where
  "read_inets [] t = Some t"
| "read_inets ((socks, file, pr, clr) # fs) t =
    (case get_tcpudp True socks file pr clr t of None \<Rightarrow> None | Some t1 \<Rightarrow> read_inets fs t1)"

lemma read_inets_ok:
  assumes "chains_ok tu_inode tu_state TCPUDP_IPC_HASH tcp_opposite t" "peers_full tu_inode tu_state tcp_opposite t"
    "read_inets fs t = Some t'"
  shows "chains_ok tu_inode tu_state TCPUDP_IPC_HASH tcp_opposite t' \<and> peers_full tu_inode tu_state tcp_opposite t'"
  using assms
proof (induction fs t rule: read_inets.induct)
  case (2 socks tab pr clr fs t)
  then obtain t1 where t1: "get_tcpudp True socks tab pr clr t = Some t1" "read_inets fs t1 = Some t'"
    by (auto split: option.splits)
  then show ?case using 2 tcp_pairs.get_inet_ok [OF 2(2,3)] by (auto simp: get_tcpudp_def)
qed simp

lemma check_inet_key: "check_inet t i = Some e \<Longrightarrow> tu_inode e = i"
  by (auto simp: check_inet_def hash_find_element_def dest: find_member split: option.splits)

lemma inet_new_ok: "chains_ok key state ipch opp inet_new" "peers_full key state opp inet_new"
  by (simp_all add: inet_new_def chains_ok_def peers_full_def paired_def)

text \<open>
  Whatever the tables hold and in whatever order they are read and read again, the peer of an established
  socket is an established socket with the two addresses and ports exchanged and the same protocol, whose peer it is
  in turn; and of two such opposite sockets, at least one has a peer.
\<close>

lemma local_peers:
  assumes "read_inets fs inet_new = Some t"
    "check_inet t i = Some e" "tu_state e = TCP_ESTABLISHED" "check_inet t j = Some f" "tu_state f = TCP_ESTABLISHED"
  shows "(it_peer t i = Some p \<longrightarrow> it_peer t p = Some i \<and> (\<exists>g. check_inet t p = Some g \<and> tu_state g = TCP_ESTABLISHED \<and> tcp_opposite e g)) \<and>
    (tcp_opposite e f \<longrightarrow> it_peer t i \<noteq> None \<or> it_peer t j \<noteq> None)"
proof -
  have ok: "paired tu_inode tcp_opposite (est_entries tu_inode tu_state t) (it_peer t)" "peers_full tu_inode tu_state tcp_opposite t"
    using read_inets_ok [OF inet_new_ok assms(1)] by (simp_all add: chains_ok_def)
  have k: "tu_inode e = i" "tu_inode f = j" using assms(2,4) by (simp_all add: check_inet_key)
  then have "e \<in> est_entries tu_inode tu_state t" "f \<in> est_entries tu_inode tu_state t"
    using assms(2-5) by (simp_all add: est_entries_def check_inet_def)
  with ok k show ?thesis unfolding paired_def peers_full_def by (auto simp: est_entries_def check_inet_def)
qed

definition peer_row_a :: tcp_row where
  "peer_row_a = tcp_row_ex\<lparr> tr_faddr := 16777343, tr_fport := 1000, tr_state := 1, tr_inode := 101 \<rparr>"

definition peer_row_b :: tcp_row where
  "peer_row_b = tcp_row_ex\<lparr> tr_faddr := 16777343, tr_fport := 22, tr_lport := 1000, tr_state := 1, tr_inode := 102 \<rparr>"

lemma nets_run:
  assumes "\<forall>q. \<forall>pp \<in> set (it_px t q). ok_ix ps (px_lpx pp) (px_lf pp)"
  shows "pass_run n CHEND_NETS EPT_NETS_END i ps (\<lambda>l. lf_type l = LSOF_FILE_IPV4) (\<lambda>l. peer_files (find_netsepti t l) (it_px t))
    (\<lambda>j later l. prt_nets n i j later (peer_files (find_netsepti t l) (it_px t)))"
  unfolding pass_run_def
proof (intro conjI allI impI ballI)
  fix k l :: lfile assume st: "static_file k = static_file l"
  show "(lf_type k = LSOF_FILE_IPV4) = (lf_type l = LSOF_FILE_IPV4)" using static_file_members(9) [OF st] by simp
  show "peer_files (find_netsepti t k) (it_px t) = peer_files (find_netsepti t l) (it_px t)"
    using static_file_members(7) [OF st] by (simp add: find_netsepti_def)
next
  fix l pp assume "pp \<in> set (peer_files (find_netsepti t l) (it_px t))"
  then show "ok_ix ps (px_lpx pp) (px_lf pp)" using assms by (auto simp: peer_files_def split: option.splits if_splits)
qed (simp add: prt_nets_def prt_nets_common_def)

text \<open>
  C5: the two ends of a connection between local processes are shown together.  For any tables of sockets, read in
  any order, if an established socket has one opposite socket and that one no other, then the name column of a
  selected file that is the first socket gains the processes, commands, descriptors and access modes of exactly the
  files that were entered for the second.
\<close>

theorem local_connection_listed:
  assumes "read_inets fs inet_new = Some t" "check_inet t a = Some e" "tu_state e = TCP_ESTABLISHED" "check_inet t b = Some f"
    "tu_state f = TCP_ESTABLISHED" "tcp_opposite e f" "b \<noteq> 0"
    "\<And>q g. check_inet t q = Some g \<Longrightarrow> tu_state g = TCP_ESTABLISHED \<Longrightarrow> tcp_opposite e g \<Longrightarrow> q = b"
    "\<And>q g. check_inet t q = Some g \<Longrightarrow> tu_state g = TCP_ESTABLISHED \<Longrightarrow> tcp_opposite f g \<Longrightarrow> q = a"
    "fepte ctx \<noteq> 0" "ok_ix ps i j" "lf_type (fget ps i j) = LSOF_FILE_IPV4" "lf_inode (fget ps i j) = a"
    "is_file_sel ctx (Some (fget ps i j))" "\<forall>q. \<forall>pp \<in> set (px q). ok_ix ps (px_lpx pp) (px_lf pp)"
  shows "lf_nma (fget (process_netsinfo n ctx (t\<lparr> it_px := px \<rparr>) 0 i ps) i j) =
    fold nma_add (peer_texts n ps (px b)) (lf_nma (fget ps i j))"
proof -
  have pa: "q = b" if "it_peer t a = Some q" for q
    using local_peers [OF assms(1-5), of q] that assms(8) by blast
  have pb: "q = a" if "it_peer t b = Some q" for q
    using local_peers [OF assms(1,4,5,2,3), of q] that assms(9) by blast
  have "it_peer t a \<noteq> None \<or> it_peer t b \<noteq> None" using local_peers [OF assms(1-5)] assms(6) by blast
  then have peer: "it_peer t a = Some b"
    using pa pb local_peers [OF assms(1,4,5,2,3), of a] by blast
  have "check_inet (t\<lparr> it_px := px \<rparr>) a = Some e" using assms(2) by (simp add: check_inet_def)
  then have "peer_files (find_netsepti (t\<lparr> it_px := px \<rparr>) (fget ps i j)) px = px b"
    using peer assms(7,13) check_inet_key [OF assms(2)] by (simp add: find_netsepti_def peer_files_def)
  then show ?thesis
    using process_files_0_nma [OF nets_run [of "t\<lparr> it_px := px \<rparr>" ps] assms(10,11)] assms(12,14,15)
    by (simp add: process_netsinfo_def)
qed

text \<open>A connection of two programs to each other; the first one's socket is selected.\<close>

definition conn_file :: "int \<Rightarrow> 64 word \<Rightarrow> flags32 \<Rightarrow> lfile" where
  "conn_file fd ino sel = (pipe_file fd ino LSOF_FILE_ACCESS_READ_WRITE sel)\<lparr> lf_type := LSOF_FILE_IPV4 \<rparr>"

definition conn_ps :: "lproc list" where
  "conn_ps = [pipe_proc 10 ''ssh'' PS_SEC [conn_file 3 101 SELPID], pipe_proc 20 ''sshd'' 0 [conn_file 4 102 0]]"

definition conn_px :: "64 word \<Rightarrow> pxinfo list" where
  "conn_px = (\<lambda>_. [])(102 := [\<lparr> px_ino = 102, px_lf = 0, px_lpx = 1 \<rparr>])"

theorem local_connection_listed_witness:
  "\<exists>t. read_inets [(Some [], Some [tcp_title_text, tcp_text peer_row_a, tcp_text peer_row_b], 0, True)] inet_new = Some t \<and>
    lf_nma (fget (process_netsinfo 9 pipe_ctx (t\<lparr> it_px := conn_px \<rparr>) 0 0 conn_ps) 0 0) = Some ''20,sshd,4u''"
proof -
  let ?a = "tcp_entry 0 peer_row_a" and ?b = "tcp_entry 0 peer_row_b"
  have rows: "\<forall>r \<in> set [peer_row_a, peer_row_b]. tcp_row_ok r" "tr_inode peer_row_a = 101" "tr_inode peer_row_b = 102"
    by (simp_all add: tcp_row_ok_def peer_row_a_def peer_row_b_def tcp_row_ex_def ULONG_MAX_def)
  have "it_tab inet_new = None" "sockstat_bucks [] = Some INOBUCKS" by (simp_all add: inet_new_def)
  from get_tcpudp_rows [OF this rows(1), of True 0 True] obtain t where t1:
    "get_tcpudp True (Some []) (Some (tcp_title_text # map tcp_text [peer_row_a, peer_row_b])) 0 True inet_new = Some t"
    "\<forall>i. check_inet t i = map_option (tcp_entry 0) (List.find (\<lambda>r. of_nat (tr_inode r) = i) [peer_row_a, peer_row_b])" by blast
  then have t: "\<And>i. check_inet t i = (if 101 = i then Some ?a else if 102 = i then Some ?b else None)" by (simp add: rows(2,3))
  have s: "tu_state ?a = TCP_ESTABLISHED" "tu_state ?b = TCP_ESTABLISHED" "tcp_opposite ?a ?b" "\<not> tcp_opposite ?a ?a" "\<not> tcp_opposite ?b ?b"
    by (simp_all add: tcp_entry_def peer_row_a_def peer_row_b_def tcp_row_ex_def TCP_ESTABLISHED_def tcp_opposite_def)
  have r: "read_inets [(Some [], Some [tcp_title_text, tcp_text peer_row_a, tcp_text peer_row_b], 0, True)] inet_new = Some t"
    using t1(1) by simp
  have f: "ok_ix conn_ps 0 0" "fget conn_ps 0 0 = conn_file 3 101 SELPID" "\<forall>q. \<forall>pp \<in> set (conn_px q). ok_ix conn_ps (px_lpx pp) (px_lf pp)"
    by (simp_all add: ok_ix_def fget_def conn_ps_def pipe_proc_def conn_px_def)
  have l: "lf_type (conn_file 3 101 SELPID) = LSOF_FILE_IPV4" "lf_inode (conn_file 3 101 SELPID) = 101"
    "is_file_sel pipe_ctx (Some (conn_file 3 101 SELPID))" "fepte pipe_ctx \<noteq> 0" "lf_nma (conn_file 3 101 SELPID) = None"
    by (simp_all add: conn_file_def pipe_file_def is_file_sel_def pipe_ctx_def zero_lfile_def flag_simps)
  have "peer_texts 9 conn_ps (conn_px 102) = [''20,sshd,4u'']" unfolding peer_texts_def conn_px_def by code_simp
  note x = this
  have c: "check_inet t 101 = Some ?a" "check_inet t 102 = Some ?b" "(102 :: 64 word) \<noteq> 0" using t by simp_all
  have ua: "q = 102" if "check_inet t q = Some g" "tu_state g = TCP_ESTABLISHED" "tcp_opposite ?a g" for q g
    using that(1,3) s(4) unfolding t by (simp split: if_splits)
  have ub: "q = 101" if "check_inet t q = Some g" "tu_state g = TCP_ESTABLISHED" "tcp_opposite ?b g" for q g
    using that(1,3) s(5) unfolding t by (simp split: if_splits)
  have "lf_nma (fget (process_netsinfo 9 pipe_ctx (t\<lparr> it_px := conn_px \<rparr>) 0 0 conn_ps) 0 0) =
      fold nma_add (peer_texts 9 conn_ps (conn_px 102)) (lf_nma (fget conn_ps 0 0))"
    by (rule local_connection_listed [OF r c(1) s(1) c(2) s(2,3) c(3) ua ub l(4) f(1) _ _ _ f(3)]) (simp_all only: f(2) l)
  then have "lf_nma (fget (process_netsinfo 9 pipe_ctx (t\<lparr> it_px := conn_px \<rparr>) 0 0 conn_ps) 0 0) = Some ''20,sshd,4u''"
    unfolding x f(2) l(5) by (simp add: nma_add_def)
  with r show ?thesis by blast
qed

end
