(* ===== verification/Spec2Isabelle.thy ===== *)
theory Spec2Isabelle
  imports Safe_Strings IP_States Name_Caches Json Command_Options Nodes Net_Peers
begin

text \<open>
  A verification development for lsof, the program that lists the open files of processes.

  \<^bold>\<open>The program.\<close>  The command line (\<open>src/src/main.c\<close>, \<open>src/src/arg.c\<close>) turns options into the
  selection tables of a \<open>struct lsof_context\<close>; the library interface (\<open>src/lib/lsof.c\<close>) fills the same
  tables for other programs.  The gathering code asks \<open>src/lib/proc.c\<close> for every process and file
  whether it is selected, and the dialect code (here Linux, \<open>src/lib/dialects/linux\<close>) for the socket
  states and named files.  \<open>src/src/print.c\<close> prints what is left, with names from caches.

  \<^bold>\<open>The theories\<close>, by the source they model:
  \<^item> \<open>Prelude\<close>, \<open>Decimal\<close>: C strings, characters, \<open>int\<close> wrap-around, flag words, decimal texts.
  \<^item> \<open>Safe_Strings\<close>: \<open>safestrprt\<close>, \<open>safestrlen\<close>, \<open>hashbyname\<close>, \<open>x2dev\<close>, \<open>grow_array\<close>
    (\<open>src/lib/misc.c\<close>): printed text has no control characters and the computed widths.
  \<^item> \<open>Context\<close>: the records and constants of \<open>src/lib/common.h\<close> and \<open>src/include/lsof.h\<close>.
  \<^item> \<open>Selection\<close>: the \<open>lsof_select_*\<close> interface of \<open>src/lib/lsof.c\<close>: the tables stay well formed under
    every sequence of calls, refine finite maps, and reject calls after freezing.
  \<^item> \<open>Proc_Select\<close>: \<open>is_proc_excl\<close>, \<open>is_cmd_excl\<close>, \<open>is_file_sel\<close>, \<open>alloc_lproc\<close>, \<open>alloc_lfile\<close>,
    \<open>link_lfile\<close> (\<open>src/lib/proc.c\<close>): which files of a process are listed.
  \<^item> \<open>File_Search\<close>: \<open>hashSfile\<close> and \<open>is_file_named\<close> (\<open>dfile.c\<close>): the hashed search equals the search
    through the whole list.
  \<^item> \<open>Proc_Lines\<close>: \<open>get_fields\<close> (\<open>dnode.c\<close>) and the readers of the text files of \<open>/proc\<close> in \<open>dproc.c\<close>
    (\<open>nm2id\<close>, \<open>read_id_stat\<close>, \<open>get_fdinfo\<close>, \<open>snp_eventpoll\<close>): what the kernel prints is read back, and the
    text of an eventpoll file fits its buffer.
  \<^item> \<open>Mounts\<close>: \<open>convert_octal_escaped\<close>, \<open>getmntdev\<close> and \<open>readmnt\<close> (\<open>dmnt.c\<close>): the mount table is complete
    and has no directory twice, and the mount supplement is read back.
  \<^item> \<open>Endpoints\<close>: the endpoint tables of \<open>dnode.c\<close> and the passes \<open>process_pinfo\<close>, \<open>process_psxmqinfo\<close>,
    \<open>process_evtfdinfo\<close>, \<open>process_ptyinfo\<close> of \<open>src/lib/proc.c\<close>: a pipe is listed with exactly its peers, and with
    \<open>+E\<close> every peer of a selected pipe becomes selected.
  \<^item> \<open>Nodes\<close>: \<open>get_locks\<close>, \<open>check_lock\<close>, \<open>process_proc_node\<close> (\<open>dnode.c\<close>): the lock shown is one the kernel
    reported, and a file is selected for its link count, its mount and its name only.
  \<^item> \<open>Net_Tables\<close>: the readers of \<open>/proc/net\<close> in \<open>dsock.c\<close> and the hash tables of \<open>src/lib/hash.h\<close>.  The locale
    \<open>ino_table\<close> is the contract of a table by inode; it is interpreted on nine tables.  The rows the kernel
    prints for TCP and UNIX sockets are found by their inodes, a UNIX path up to its first separator only.
  \<^item> \<open>Net_Peers\<close>: \<open>get_netpeeri\<close>, \<open>process_netsinfo\<close>, \<open>process_nets6info\<close>, \<open>process_uxsinfo\<close> (\<open>dsock.c\<close>).  The locale
    \<open>ipc_pairs\<close> has what the linking of peers needs of the hash and of opposite sockets, for IPv4 and IPv6: a
    socket is shown with the files at the other end of its connection.
  \<^item> \<open>Option_Args\<close>: \<open>enter_fd\<close>, \<open>enter_id\<close>, \<open>enter_uid\<close>, \<open>enter_cmd\<close>, \<open>isIPv4addr\<close> and
    \<open>fd_to_string\<close>: arguments and their meaning, round trips, rejected mixtures.
  \<^item> \<open>IP_States\<close>: \<open>enter_IPstate\<close>, \<open>build_IPstates\<close>, \<open>enter_state_spec\<close> and the filters of
    \<open>process_proc_sock\<close>.
  \<^item> \<open>Network_Args\<close>: \<open>enter_network_address\<close>, \<open>enter_nwad\<close>, \<open>is_nw_addr\<close>, \<open>ent_inaddr\<close>: a numeric
    \<open>-i\<close> argument selects exactly the endpoints it describes.
  \<^item> \<open>Name_Caches\<close>: \<open>printuid\<close>, \<open>gethostnm\<close>, \<open>lkup_port\<close> and what they call.  The locales
    \<open>sound_cache\<close> and \<open>transparent_cache\<close> are the contract of a cache; its three interpretations are
    on these routines.
  \<^item> \<open>Print_Fields\<close>: \<open>access_to_char\<close>, \<open>lock_to_char\<close>, \<open>file_type_to_string\<close>, \<open>print_fflags\<close>.
  \<^item> \<open>Json\<close>: the JSON writers and the JSON branches of \<open>print_proc\<close>: a JSON reader finds in the output
    exactly the selected processes and files.
  \<^item> \<open>Command_Options\<close>: \<open>GetOpt\<close> and the option loop of \<open>main\<close>, which always ends.
  \<^item> This theory joins the state filters and the file selection.

  \<^bold>\<open>Conventions.\<close>  A C string is the list of its bytes, NULL is \<open>None\<close>, a linked list or array a list.
  A routine that can end the program returns \<open>Exited\<close> with the status or \<open>Done\<close> with its result;
  dereferencing NULL is an outer \<open>None\<close> where it can happen.  Static variables and the context are
  arguments and results.  System services (the password file, the resolver, the service database,
  the portmapper, regular expressions, the content of uninitialised memory) are parameters.
  Memory allocation succeeds except where the code computes a size that overflows.

  \<^bold>\<open>Bounds.\<close>  Loops are total functions; \<open>lkup_svcnam\<close> loops at most twice.  The reference reader
  \<open>read_json\<close> and the option loop \<open>opt_loop\<close> have fuel; the length of the text, and one more than the
  number of characters of the arguments, are shown to be enough for them.  Two loops of \<open>dsock.c\<close> may run
  forever and are partial: the doubling of the number of buckets, shown to end for up to \<open>2 ^ 30\<close> sockets, and the
  walk along the connections waiting at a UNIX socket.

  \<^bold>\<open>Configuration.\<close>  Linux with tasks, endpoint options, IPv6, socket options and states, queue
  lengths, without security restrictions, SELinux contexts and zones.

  \<^bold>\<open>Not modelled.\<close>  The walk through \<open>/proc\<close>, what \<open>process_proc_sock\<close> does with the entry of a socket
  but for the state filters, the columns of the tabular output and \<open>-F\<close> output, the option handlers and repeat
  mode of \<open>main\<close>, the device cache, the other dialects, and the Rust port under \<open>lsof-rs\<close>.
\<close>

section \<open>The state filters and the listing\<close>

text \<open>
  The head of the two Internet branches of \<open>process_proc_sock\<close>: a socket whose state is filtered gets
  the exclusion flag and nothing else, any other one the network flag if \<open>-i\<close> asks for its family.
\<close>

definition sock_net_flag :: "lsof_context \<Rightarrow> bool \<Rightarrow> lfile \<Rightarrow> lfile" where
  "sock_net_flag ctx v6 l =
    (if fnet ctx \<noteq> 0 \<and> fnettype ctx \<noteq> (if v6 then 4 else 6) then l\<lparr> lf_sf := lf_sf l OR SELNET \<rparr> else l)"

definition sock_state_select :: "lsof_context \<Rightarrow> bool \<Rightarrow> int \<Rightarrow> proto_tab \<Rightarrow> lfile \<Rightarrow> lfile \<times> proto_tab" where
  "sock_state_select ctx v6 s t l =
    (case state_filter s t of
       (True, t1) \<Rightarrow> (l\<lparr> lf_sf := lf_sf l OR SELEXCLF \<rparr>, t1)
     | (False, t1) \<Rightarrow> (sock_net_flag ctx v6 l, t1))"

lemma excluded_not_listed: "\<not> is_file_sel ctx (Some (l\<lparr> lf_sf := lf_sf l OR SELEXCLF \<rparr>))"
  by (simp add: is_file_sel_def has_flag_or) (simp add: flag_simps)

lemma sock_state_select_listed:
  "is_file_sel ctx (Some (fst (sock_state_select ctx v6 s t l))) \<longleftrightarrow>
    \<not> fst (state_filter s t) \<and> is_file_sel ctx (Some (sock_net_flag ctx v6 l))"
  by (cases "state_filter s t") (auto simp: sock_state_select_def excluded_not_listed split: bool.splits)

text \<open>
  C9: \<open>-s TCP:states\<close> decides the listing, whatever else is selected.  After a well-formed option, an
  Internet socket in one of the twelve states whose state is excluded, or not among the included
  ones, is not listed in any context, not even when everything is to be listed.  Any other socket
  keeps the verdict of its other selections, with the network flag added under \<open>-i\<close>.
\<close>

theorem tcp_state_spec_listing:
  assumes "es \<noteq> []" and "list_all spec_ok es"
  shows "\<exists>b c. enter_state_spec junk (''TCP:'' @ commas (map (\<lambda>(i, nm, x). caret x @ nm) es)) ip_new = Some (Done (b, c))
    \<and> (\<forall>s ctx v6 l. 0 \<le> s \<and> s < 12 \<longrightarrow>
        (is_file_sel ctx (Some (fst (sock_state_select ctx v6 s (ip_tcp c) l))) \<longleftrightarrow>
         \<not> (nat s \<in> spec_marks True es \<or> spec_marks False es \<noteq> {} \<and> nat s \<notin> spec_marks False es)
         \<and> is_file_sel ctx (Some (sock_net_flag ctx v6 l))))"
  using enter_state_spec_filters [OF assms, of junk] unfolding sock_state_select_listed by blast

theorem tcp_state_spec_listing_witness:
  "\<exists>b c. enter_state_spec (\<lambda>_. None) ''TCP:^listen'' ip_new = Some (Done (b, c))
    \<and> (\<forall>l. \<not> is_file_sel (lsof_new\<lparr> allproc := True \<rparr>)
         (Some (fst (sock_state_select (lsof_new\<lparr> allproc := True \<rparr>) False 10 (ip_tcp c) l))))"
proof -
  have "strcasecmp_eq ''listen'' (tcp_names ! 10)" by code_simp
  then have ok: "list_all spec_ok [(10, ''listen'', True)]" by (simp add: spec_ok_def)
  obtain b c where "enter_state_spec (\<lambda>_. None) ''TCP:^listen'' ip_new = Some (Done (b, c))"
    and "\<And>s ctx v6 l. 0 \<le> s \<and> s < 12 \<Longrightarrow> is_file_sel ctx (Some (fst (sock_state_select ctx v6 s (ip_tcp c) l))) \<longleftrightarrow>
      nat s \<notin> {10} \<and> is_file_sel ctx (Some (sock_net_flag ctx v6 l))"
    using tcp_state_spec_listing [OF _ ok, of "\<lambda>_. None"] by (auto simp: spec_marks_simps caret_def)
  note c = this
  show ?thesis using c(1) c(2) [of 10] by auto
qed

end
